(* ===== verification/Prelude.thy ===== *)
theory Prelude
  imports Complex_Main "HOL-Library.Log_Nat" "HOL-Library.Word" "HOL-Library.AList"
    "HOL-Library.Multiset" "HOL-Library.List_Lexorder" "HOL-Library.Char_ord"
begin

text \<open>
  What every component of the operator console (\<^verbatim>\<open>web/src\<close>) shares: the errors the modelled
  TypeScript can throw, the rule collections of the development, and the parts of the JavaScript
  library on arrays, strings, sets and maps that the sources use.

  \<^item> A JavaScript \<^verbatim>\<open>string\<close> is a \<^typ>\<open>string\<close>: a list of code units, here those below 256, which
    covers every literal and every identifier the sources build; the texts of views are UTF-8 (\<^verbatim>\<open>Html\<close>).
  \<^item> A JavaScript \<^verbatim>\<open>Map\<close> is an association list in insertion order. \<^const>\<open>AList.update\<close> keeps the
    position of a key that is present and appends a new one, as \<^verbatim>\<open>Map.prototype.set\<close> does, and
    \<^const>\<open>map_of\<close> is \<^verbatim>\<open>Map.prototype.get\<close>.
  \<^item> \<^verbatim>\<open>Array.prototype.sort\<close> is stable, and so is \<^const>\<open>sort_key\<close>; the default comparison of
    strings is by code unit, the order of \<^verbatim>\<open>HOL-Library.List_Lexorder\<close> over
    \<^verbatim>\<open>HOL-Library.Char_ord\<close>.
\<close>

section \<open>Errors and results\<close>

datatype js_error =
    PickUndefined \<comment> \<open>an element past the end of an array was used as a value\<close>
  | TypeError \<comment> \<open>a property of \<^verbatim>\<open>undefined\<close> was read\<close>
  | Thrown string \<comment> \<open>\<^verbatim>\<open>throw new Error(...)\<close>\<close>

type_synonym 'a result = "js_error + 'a"

definition result_ok :: "'a result \<Rightarrow> bool" where
  "result_ok r \<longleftrightarrow> (case r of Inl _ \<Rightarrow> False | Inr _ \<Rightarrow> True)"

lemma result_ok_simps [simp]: "result_ok (Inr a)" "\<not> result_ok (Inl e)"
  by (simp_all add: result_ok_def)

section \<open>Rule collections\<close>

named_theorems fl_simps \<open>values a double represents exactly\<close>
named_theorems rand_rules \<open>postconditions of generator programs\<close>
named_theorems wf_simps \<open>well-formedness predicates of the data model\<close>

section \<open>Arrays\<close>

text \<open>\<^verbatim>\<open>xs[i]\<close>: \<^const>\<open>None\<close> is \<^verbatim>\<open>undefined\<close>.\<close>

definition js_index :: "'a list \<Rightarrow> int \<Rightarrow> 'a option" where
  "js_index xs i = (if 0 \<le> i \<and> i < int (length xs) then Some (xs ! nat i) else None)"

lemma js_index_Some_iff:
  "js_index xs i = Some x \<longleftrightarrow> 0 \<le> i \<and> i < int (length xs) \<and> xs ! nat i = x"
  by (auto simp: js_index_def)

lemma js_index_None_iff: "js_index xs i = None \<longleftrightarrow> i < 0 \<or> int (length xs) \<le> i"
  by (auto simp: js_index_def)

lemma js_index_in_set: "js_index xs i = Some x \<Longrightarrow> x \<in> set xs"
  by (auto simp: js_index_Some_iff)

text \<open>\<^verbatim>\<open>xs.indexOf(x)\<close> and \<^verbatim>\<open>xs.findIndex(p)\<close>; \<^const>\<open>None\<close> stands for \<^verbatim>\<open>-1\<close>.\<close>

fun find_index :: "('a \<Rightarrow> bool) \<Rightarrow> 'a list \<Rightarrow> nat option" where
  "find_index P [] = None"
| "find_index P (x # xs) = (if P x then Some 0 else map_option Suc (find_index P xs))"

definition index_of :: "'a list \<Rightarrow> 'a \<Rightarrow> nat option" where
  "index_of xs x = find_index (\<lambda>y. y = x) xs"

lemma find_index_Some:
  "find_index P xs = Some i \<Longrightarrow> i < length xs \<and> P (xs ! i) \<and> (\<forall>j < i. \<not> P (xs ! j))"
  by (induction xs arbitrary: i) (auto split: if_splits simp: nth_Cons less_Suc_eq_0_disj split: nat.splits)

lemma find_index_None: "find_index P xs = None \<longleftrightarrow> (\<forall>x \<in> set xs. \<not> P x)"
  by (induction xs) auto

lemma index_of_Some: "index_of xs x = Some i \<Longrightarrow> i < length xs \<and> xs ! i = x"
  by (auto simp: index_of_def dest: find_index_Some)

lemma index_of_None: "index_of xs x = None \<longleftrightarrow> x \<notin> set xs"
  by (auto simp: index_of_def find_index_None)

text \<open>\<^verbatim>\<open>Array.from(new Set(xs))\<close>: a set iterates in the order of first insertion.\<close>

fun js_unique :: "'a list \<Rightarrow> 'a list" where
  "js_unique [] = []"
| "js_unique (x # xs) = x # filter (\<lambda>y. y \<noteq> x) (js_unique xs)"

lemma set_js_unique [simp]: "set (js_unique xs) = set xs"
  by (induction xs) auto

lemma distinct_js_unique [simp]: "distinct (js_unique xs)"
  by (induction xs) auto

lemma js_unique_Nil_iff [simp]: "js_unique xs = [] \<longleftrightarrow> xs = []"
  by (cases xs) auto

text \<open>The elements of a list carry the consecutive keys \<open>g k\<close>, \<open>g (k + 1)\<close>, \<dots>\<close>

definition numbered :: "('a \<Rightarrow> 'b) \<Rightarrow> (nat \<Rightarrow> 'b) \<Rightarrow> nat \<Rightarrow> 'a list \<Rightarrow> bool" where
  "numbered f g k xs \<longleftrightarrow> map f xs = map g [k..<k + length xs]"

lemma numbered_Nil [simp]: "numbered f g k []"
  by (simp add: numbered_def)

lemma numbered_Cons [simp]: "numbered f g k (x # xs) \<longleftrightarrow> f x = g k \<and> numbered f g (Suc k) xs"
proof -
  have "[k..<k + length (x # xs)] = k # [Suc k..<Suc k + length xs]"
    by (subst upt_conv_Cons) (simp_all del: upt_Suc)
  then show ?thesis by (simp only: numbered_def) simp
qed

lemma numbered_append [simp]:
  "numbered f g k (xs @ ys) \<longleftrightarrow> numbered f g k xs \<and> numbered f g (k + length xs) ys"
  by (induction xs arbitrary: k) auto

lemma numbered_distinct: "numbered f g k xs \<Longrightarrow> inj g \<Longrightarrow> distinct (map f xs)"
  by (auto simp: numbered_def distinct_map intro: inj_on_subset)

text \<open>Sets kept as the lists of their members, in insertion order: \<^verbatim>\<open>add\<close> and \<^verbatim>\<open>delete\<close>.\<close>

definition set_add :: "'a \<Rightarrow> 'a list \<Rightarrow> 'a list" where
  "set_add x xs = (if x \<in> set xs then xs else xs @ [x])"

definition set_delete :: "'a \<Rightarrow> 'a list \<Rightarrow> 'a list" where
  "set_delete x xs = filter (\<lambda>y. y \<noteq> x) xs"

lemma set_set_add [simp]: "set (set_add x xs) = insert x (set xs)"
  by (auto simp: set_add_def)

lemma set_set_delete [simp]: "set (set_delete x xs) = set xs - {x}"
  by (auto simp: set_delete_def)

lemma distinct_set_add [simp]: "distinct xs \<Longrightarrow> distinct (set_add x xs)"
  by (simp add: set_add_def)

lemma distinct_set_delete [simp]: "distinct xs \<Longrightarrow> distinct (set_delete x xs)"
  by (simp add: set_delete_def)

text \<open>Stable sorting by a key keeps the elements.\<close>

lemma sort_key_Nil_iff [simp]: "sort_key f xs = [] \<longleftrightarrow> xs = []"
  by (metis length_0_conv length_sort)

lemma sorted_sort_key_nth:
  assumes "i \<le> j" and "j < length xs"
  shows "f (sort_key f xs ! i) \<le> f (sort_key f xs ! j)"
proof -
  have "map f (sort_key f xs) ! i \<le> map f (sort_key f xs) ! j"
    using assms by (intro sorted_nth_mono) auto
  with assms show ?thesis by simp
qed

section \<open>Numerals: \<^verbatim>\<open>toString(radix)\<close> and \<^verbatim>\<open>padStart\<close>\<close>

definition digit_chars :: string where
  "digit_chars = ''0123456789abcdefghijklmnopqrstuvwxyz''"

definition digit_char :: "nat \<Rightarrow> char" where
  "digit_char d = digit_chars ! d"

text \<open>Digits of a natural number, most significant first.\<close>

fun radix_digits :: "nat \<Rightarrow> nat \<Rightarrow> nat list" where
  "radix_digits b n = (if b \<le> 1 \<or> n < b then [n] else radix_digits b (n div b) @ [n mod b])"

declare radix_digits.simps [simp del]

definition to_radix :: "nat \<Rightarrow> nat \<Rightarrow> string" where
  "to_radix b n = map digit_char (radix_digits b n)"

definition show_int :: "int \<Rightarrow> string" where
  "show_int i = (if i < 0 then ''-'' @ to_radix 10 (nat (- i)) else to_radix 10 (nat i))"

definition int_to_radix :: "nat \<Rightarrow> int \<Rightarrow> string" where
  "int_to_radix b i = (if i < 0 then ''-'' @ to_radix b (nat (- i)) else to_radix b (nat i))"

definition pad_start :: "nat \<Rightarrow> char \<Rightarrow> string \<Rightarrow> string" where
  "pad_start n c s = replicate (n - length s) c @ s"

text \<open>The digits determine the number, so distinct numbers print differently.\<close>

definition radix_value :: "nat \<Rightarrow> nat list \<Rightarrow> nat" where
  "radix_value b ds = foldl (\<lambda>a d. a * b + d) 0 ds"

lemma radix_value_digits: "radix_value b (radix_digits b n) = n"
proof (induction b n rule: radix_digits.induct)
  case (1 b n)
  show ?case
  proof (cases "b \<le> 1 \<or> n < b")
    case True
    then show ?thesis by (subst radix_digits.simps) (simp add: radix_value_def)
  next
    case False
    then have "radix_digits b n = radix_digits b (n div b) @ [n mod b]"
      by (subst radix_digits.simps) simp
    with 1 False show ?thesis by (simp add: radix_value_def)
  qed
qed

lemma radix_digits_inject: "radix_digits b m = radix_digits b n \<longleftrightarrow> m = n"
  by (metis radix_value_digits)

lemma radix_digits_bound: "1 < b \<Longrightarrow> d \<in> set (radix_digits b n) \<Longrightarrow> d < b"
proof (induction b n rule: radix_digits.induct)
  case (1 b n)
  show ?case
  proof (cases "n < b")
    case True
    with 1 show ?thesis by (simp add: radix_digits.simps [of b n])
  next
    case False
    with 1 show ?thesis by (auto simp: radix_digits.simps [of b n])
  qed
qed

lemma length_digit_chars: "length digit_chars = 36"
  by (simp add: digit_chars_def)

lemma distinct_digit_chars: "distinct digit_chars"
  by (simp add: digit_chars_def)

lemma digit_char_inject: "d < 36 \<Longrightarrow> e < 36 \<Longrightarrow> digit_char d = digit_char e \<longleftrightarrow> d = e"
  by (simp add: digit_char_def nth_eq_iff_index_eq distinct_digit_chars length_digit_chars)

lemma to_radix_inject:
  assumes "1 < b" and "b \<le> 36"
  shows "to_radix b m = to_radix b n \<longleftrightarrow> m = n"
proof -
  have "inj_on digit_char (set (radix_digits b m) \<union> set (radix_digits b n))"
    using assms radix_digits_bound [OF assms(1)]
    by (intro inj_onI) (metis Un_iff digit_char_inject order_less_le_trans)
  then show ?thesis
    by (simp add: to_radix_def inj_on_map_eq_map radix_digits_inject)
qed

text \<open>An optional element as an array.\<close>

fun opt_list :: "'a option \<Rightarrow> 'a list" where
  "opt_list None = []"
| "opt_list (Some x) = [x]"

lemma set_opt_list [simp]: "x \<in> set (opt_list q) \<longleftrightarrow> q = Some x"
  by (cases q) auto

lemma those_map_Some [simp]: "those (map Some xs) = Some xs"
  by (induction xs) simp_all

section \<open>Invariants of step relations\<close>

text \<open>What a component with a step relation promises: its invariant holds at the start and survives every step.\<close>

locale invariant_system =
  fixes step :: "'s \<Rightarrow> 's \<Rightarrow> bool" and start :: "'s \<Rightarrow> bool" and holds :: "'s \<Rightarrow> bool"
  assumes start_holds: "start s \<Longrightarrow> holds s"
    and step_holds: "step s s' \<Longrightarrow> holds s \<Longrightarrow> holds s'"
begin

lemma reachable_holds:
  assumes "step\<^sup>*\<^sup>* s s'" "start s"
  shows "holds s'"
  using assms(1) by induction (use assms(2) start_holds step_holds in auto)

end

end
