(* ===== verification/Js_Number.thy ===== *)
theory Js_Number
  imports Prelude
begin

text \<open>
  JavaScript numbers. A number is the rational it denotes, and every arithmetic operation whose
  exact result need not be a double is followed by \<open>fl\<close>, rounding to the nearest double with ties
  to even (53 significant bits). The exponent is unbounded: no computation of the sources comes
  near the overflow or the subnormal range of binary64, and none of the modelled ones divides by
  zero. Numbers that are integers below \<open>2^53\<close> in magnitude, where addition, subtraction and
  multiplication are exact, are plain \<^typ>\<open>int\<close>s of the model.
\<close>

section \<open>Rounding to the nearest double\<close>

definition pow2 :: "int \<Rightarrow> rat" where
  "pow2 e = (if 0 \<le> e then 2 ^ nat e else 1 / 2 ^ nat (- e))"

definition flog2 :: "rat \<Rightarrow> int" where
  "flog2 x = (let (a, b) = quotient_of x; g = bitlen a - bitlen b
              in if pow2 g \<le> x then g else g - 1)"

definition rne :: "rat \<Rightarrow> int" where
  "rne x = (let f = \<lfloor>x\<rfloor>; d = x - of_int f
            in if d < 1 / 2 then f else if d > 1 / 2 then f + 1
               else if even f then f else f + 1)"

definition fl_pos :: "rat \<Rightarrow> rat" where
  "fl_pos x = (let e = flog2 x - 52 in of_int (rne (x / pow2 e)) * pow2 e)"

definition fl :: "rat \<Rightarrow> rat" where
  "fl x = (if x = 0 then 0 else if x < 0 then - fl_pos (- x) else fl_pos x)"

text \<open>\<^verbatim>\<open>Math.floor\<close> and \<^verbatim>\<open>Math.round\<close> (ties towards positive infinity) are exact.\<close>

definition js_floor :: "rat \<Rightarrow> int" where
  "js_floor x = \<lfloor>x\<rfloor>"

definition js_round :: "rat \<Rightarrow> int" where
  "js_round x = \<lfloor>x + 1 / 2\<rfloor>"

definition js_div :: "rat \<Rightarrow> rat \<Rightarrow> rat" where
  "js_div x y = fl (x / y)"

definition js_mul :: "rat \<Rightarrow> rat \<Rightarrow> rat" where
  "js_mul x y = fl (x * y)"

definition js_add :: "rat \<Rightarrow> rat \<Rightarrow> rat" where
  "js_add x y = fl (x + y)"

definition js_sub :: "rat \<Rightarrow> rat \<Rightarrow> rat" where
  "js_sub x y = fl (x - y)"

section \<open>Powers of two\<close>

lemma pow2_powi: "pow2 e = 2 powi e"
  by (simp add: pow2_def power_int_def power_one_over inverse_eq_divide)

lemma pow2_pos [simp]: "0 < pow2 e"
  by (simp add: pow2_def)

lemma pow2_sign [simp]: "\<not> pow2 e < 0" "pow2 e \<noteq> 0" "0 \<le> pow2 e"
  using pow2_pos [of e] by (simp_all add: less_imp_le del: pow2_pos)

lemma pow2_add: "pow2 (a + b) = pow2 a * pow2 b"
  by (simp add: pow2_powi power_int_add)

lemma pow2_le_iff [simp]: "pow2 a \<le> pow2 b \<longleftrightarrow> a \<le> b"
proof
  assume "a \<le> b"
  then show "pow2 a \<le> pow2 b" by (simp add: pow2_powi power_int_increasing)
next
  assume le: "pow2 a \<le> pow2 b"
  show "a \<le> b"
  proof (rule ccontr)
    assume "\<not> a \<le> b"
    then have "pow2 b < pow2 a" by (simp add: pow2_powi power_int_strict_increasing)
    with le show False by simp
  qed
qed

lemma pow2_less_iff [simp]: "pow2 a < pow2 b \<longleftrightarrow> a < b"
  by (meson linorder_not_le pow2_le_iff)

lemma pow2_of_nat: "pow2 (int n) = 2 ^ n"
  by (simp add: pow2_def)

section \<open>The binary logarithm\<close>

lemma bitlen_pow2_bounds:
  assumes "0 < a"
  shows "pow2 (bitlen a - 1) \<le> of_int a \<and> of_int a < pow2 (bitlen a)"
proof -
  have l: "1 \<le> bitlen a" using assms by (simp add: bitlen_ge_iff_power)
  have "(2 :: rat) ^ n = of_int (2 ^ n)" for n by simp
  then show ?thesis
    using bitlen_bounds [OF assms] l by (simp only: pow2_def) simp
qed

lemma flog2_spec:
  assumes "0 < x"
  shows "pow2 (flog2 x) \<le> x \<and> x < pow2 (flog2 x + 1)"
proof -
  obtain a b where q: "quotient_of x = (a, b)" by (cases "quotient_of x") auto
  have b: "0 < b" using q by (simp add: quotient_of_denom_pos)
  have x: "x = of_int a / of_int b" using q by (rule quotient_of_div)
  have a: "0 < a" using assms b x by (simp add: zero_less_divide_iff)
  define g where "g = bitlen a - bitlen b"
  have A1: "pow2 (bitlen a - 1) \<le> of_int a" and A2: "of_int a < pow2 (bitlen a)"
    using bitlen_pow2_bounds [OF a] by simp_all
  have B1: "pow2 (bitlen b - 1) \<le> of_int b" and B2: "of_int b < pow2 (bitlen b)"
    using bitlen_pow2_bounds [OF b] by simp_all
  have "x < pow2 (bitlen a) / pow2 (bitlen b - 1)"
    unfolding x using A2 B1 b by (intro frac_less) (auto simp: a less_imp_le)
  also have "\<dots> = pow2 (g + 1)"
    by (simp add: g_def pow2_powi algebra_simps flip: power_int_diff)
  finally have up: "x < pow2 (g + 1)" .
  have "pow2 (g - 1) = pow2 (bitlen a - 1) / pow2 (bitlen b)"
    by (simp add: g_def pow2_powi algebra_simps flip: power_int_diff)
  also have "\<dots> \<le> x"
    unfolding x using A1 B2 b a by (intro frac_le) auto
  finally have lo: "pow2 (g - 1) \<le> x" .
  show ?thesis
    using up lo by (auto simp: flog2_def q g_def Let_def not_le)
qed

lemma flog2_unique:
  assumes "pow2 k \<le> x" and "x < pow2 (k + 1)"
  shows "flog2 x = k"
proof -
  have x: "0 < x" using assms(1) pow2_pos by (rule order_less_le_trans [rotated])
  have "pow2 (flog2 x) < pow2 (k + 1)" and "pow2 k < pow2 (flog2 x + 1)"
    using flog2_spec [OF x] assms by (meson order_le_less_trans)+
  then show ?thesis by simp
qed

lemma flog2_mono: "0 < x \<Longrightarrow> x \<le> y \<Longrightarrow> flog2 x \<le> flog2 y"
proof -
  assume x: "0 < x" and xy: "x \<le> y"
  have "pow2 (flog2 x) \<le> x" using flog2_spec [OF x] by simp
  also note xy
  also have "y < pow2 (flog2 y + 1)" using flog2_spec [of y] x xy by simp
  finally show ?thesis by simp
qed

section \<open>Rounding to an integer\<close>

lemma rne_of_int [simp]: "rne (of_int n) = n"
  by (simp add: rne_def)

lemma rne_floor: "\<lfloor>x\<rfloor> \<le> rne x \<and> rne x \<le> \<lfloor>x\<rfloor> + 1"
  by (simp add: rne_def Let_def)

lemma rne_mono: "x \<le> y \<Longrightarrow> rne x \<le> rne y"
proof -
  assume xy: "x \<le> y"
  then have f: "\<lfloor>x\<rfloor> \<le> \<lfloor>y\<rfloor>" by (rule floor_mono)
  show ?thesis
  proof (cases "\<lfloor>x\<rfloor> = \<lfloor>y\<rfloor>")
    case True
    with xy show ?thesis by (auto simp: rne_def Let_def)
  next
    case False
    with f have "\<lfloor>x\<rfloor> + 1 \<le> \<lfloor>y\<rfloor>" by simp
    then show ?thesis using rne_floor [of x] rne_floor [of y] by linarith
  qed
qed

section \<open>Properties of \<open>fl\<close>\<close>

lemma fl_pos_bounds:
  assumes "0 < x"
  shows "pow2 (flog2 x) \<le> fl_pos x \<and> fl_pos x \<le> pow2 (flog2 x + 1)"
proof -
  define e where "e = flog2 x - 52"
  have s: "pow2 (flog2 x) = of_int (2 ^ 52) * pow2 e" "pow2 (flog2 x + 1) = of_int (2 ^ 53) * pow2 e"
    using pow2_add [of 52 e] pow2_add [of 53 e] pow2_of_nat [of 52] pow2_of_nat [of 53]
    by (simp_all add: e_def algebra_simps)
  have "of_int (2 ^ 52) \<le> x / pow2 e" and "x / pow2 e \<le> of_int (2 ^ 53)"
    using flog2_spec [OF assms] unfolding s by (simp_all add: field_simps)
  then have "2 ^ 52 \<le> rne (x / pow2 e)" and "rne (x / pow2 e) \<le> 2 ^ 53"
    using rne_mono rne_of_int by metis+
  then have "of_int (2 ^ 52) \<le> (of_int (rne (x / pow2 e)) :: rat)"
    and "(of_int (rne (x / pow2 e)) :: rat) \<le> of_int (2 ^ 53)"
    by (simp_all only: of_int_le_iff)
  then show ?thesis
    unfolding fl_pos_def Let_def s e_def [symmetric]
    by (simp add: mult_right_mono less_imp_le)
qed

lemma fl_pos_mono:
  assumes "0 < x" and "x \<le> y"
  shows "fl_pos x \<le> fl_pos y"
proof (cases "flog2 x = flog2 y")
  case True
  then show ?thesis
    using assms rne_mono [of "x / pow2 (flog2 y - 52)" "y / pow2 (flog2 y - 52)"]
    by (simp add: fl_pos_def Let_def divide_right_mono mult_right_mono less_imp_le)
next
  case False
  then have "flog2 x + 1 \<le> flog2 y" using flog2_mono [OF assms] by simp
  then have "pow2 (flog2 x + 1) \<le> pow2 (flog2 y)" by simp
  then show ?thesis
    using fl_pos_bounds [of x] fl_pos_bounds [of y] assms by linarith
qed

lemma fl_pos_pos: "0 < x \<Longrightarrow> 0 < fl_pos x"
  using fl_pos_bounds [of x] pow2_pos [of "flog2 x"] by linarith

lemma fl_minus: "fl (- x) = - fl x"
  by (simp add: fl_def)

lemma fl_zero [simp]: "fl 0 = 0"
  by (simp add: fl_def)

lemma fl_mono: "x \<le> y \<Longrightarrow> fl x \<le> fl y"
proof -
  assume xy: "x \<le> y"
  consider "0 < x" | "x \<le> 0" "0 \<le> y" | "y < 0" by linarith
  then show ?thesis
  proof cases
    case 1
    with xy show ?thesis by (simp add: fl_def fl_pos_mono)
  next
    case 2
    then have "fl x \<le> 0" and "0 \<le> fl y"
      using fl_pos_pos [of "- x"] fl_pos_pos [of y] by (auto simp: fl_def)
    then show ?thesis by simp
  next
    case 3
    with xy have "fl_pos (- y) \<le> fl_pos (- x)" by (intro fl_pos_mono) auto
    with 3 xy show ?thesis by (simp add: fl_def)
  qed
qed

text \<open>Every integer multiple of a power of two with at most 53 significant bits is a double.\<close>

lemma fl_pos_dyadic:
  assumes "0 < m" and "m < 2 ^ 53"
  shows "fl_pos (of_int m * pow2 k) = of_int m * pow2 k"
proof -
  define x where "x = of_int m * pow2 k"
  define e where "e = flog2 x - 52"
  have x: "0 < x" using assms by (simp add: x_def)
  have "of_int m < (of_int (2 ^ 53) :: rat)" using assms(2) by (simp only: of_int_less_iff)
  then have "x < pow2 (53 + k)" by (simp add: x_def pow2_add pow2_of_nat [of 53, simplified])
  then have "pow2 (flog2 x) < pow2 (53 + k)" using flog2_spec [OF x] by linarith
  then have d: "0 \<le> k - e" by (simp add: e_def)
  have "x / pow2 e = of_int m * pow2 (k - e)"
    by (simp add: x_def pow2_powi power_int_diff)
  also have "\<dots> = of_int (m * 2 ^ nat (k - e))"
    using d by (simp add: pow2_def)
  finally have r: "x / pow2 e = of_int (m * 2 ^ nat (k - e))" .
  have "fl_pos x = (x / pow2 e) * pow2 e"
    unfolding fl_pos_def Let_def e_def [symmetric] r rne_of_int ..
  then show ?thesis
    using pow2_pos [of e] by (simp add: x_def)
qed

lemma fl_dyadic:
  assumes "\<bar>m\<bar> \<le> 2 ^ 53"
  shows "fl (of_int m * pow2 k) = of_int m * pow2 k"
proof -
  have pos: "fl (of_int n * pow2 k) = of_int n * pow2 k" if "0 < n" "n \<le> 2 ^ 53" for n
  proof (cases "n = 2 ^ 53")
    case True
    have "(of_int n :: rat) * pow2 k = of_int (2 ^ 52) * pow2 (1 + k)"
      using True by (simp add: pow2_add) (simp add: pow2_def)
    then show ?thesis
      using fl_pos_dyadic [of "2 ^ 52" "1 + k"] by (simp add: fl_def)
  next
    case False
    with that show ?thesis
      using fl_pos_dyadic [of n k] by (simp add: fl_def mult_less_0_iff)
  qed
  consider "0 < m" | "m = 0" | "m < 0" by linarith
  then show ?thesis
  proof cases
    case 1
    with assms pos [of m] show ?thesis by simp
  next
    case 2
    then show ?thesis by simp
  next
    case 3
    with assms have "fl (of_int (- m) * pow2 k) = of_int (- m) * pow2 k" by (intro pos) auto
    then show ?thesis using fl_minus [of "of_int m * pow2 k"] by simp
  qed
qed

lemma fl_idem: "fl (fl x) = fl x"
proof -
  have pos: "fl (fl_pos y) = fl_pos y" if "0 < y" for y
  proof -
    define e where "e = flog2 y - 52"
    define m where "m = rne (y / pow2 e)"
    have f: "fl_pos y = of_int m * pow2 e" by (simp add: fl_pos_def Let_def e_def m_def)
    have "of_int m * pow2 e \<le> pow2 (flog2 y + 1)" "0 < of_int m * pow2 e"
      using fl_pos_bounds [OF that] fl_pos_pos [OF that] f by simp_all
    moreover have "pow2 (flog2 y + 1) = of_int (2 ^ 53) * pow2 e"
      using pow2_add [of 53 e] pow2_of_nat [of 53] by (simp add: e_def algebra_simps)
    ultimately have "m \<le> 2 ^ 53" "0 < m" by (simp_all add: zero_less_mult_iff)
    then show ?thesis unfolding f by (intro fl_dyadic) simp
  qed
  show ?thesis
    using pos [of x] pos [of "- x"] fl_minus [of "fl_pos (- x)"] by (auto simp: fl_def [of x])
qed

section \<open>What clients of the arithmetic rely on\<close>

text \<open>
  The interface of rounding: it is monotone and leaves representable numbers alone. Bounds on
  computed numbers follow from these two laws only.
\<close>

locale rounding =
  fixes rnd :: "rat \<Rightarrow> rat"
  assumes rnd_mono: "x \<le> y \<Longrightarrow> rnd x \<le> rnd y"
    and rnd_dyadic: "\<bar>m\<bar> \<le> 2 ^ 53 \<Longrightarrow> rnd (of_int m * pow2 k) = of_int m * pow2 k"
begin

lemma rnd_int: "\<bar>m\<bar> \<le> 2 ^ 53 \<Longrightarrow> rnd (of_int m) = of_int m"
  using rnd_dyadic [of m 0] by (simp add: pow2_def)

lemma rnd_ge_int: "\<bar>m\<bar> \<le> 2 ^ 53 \<Longrightarrow> of_int m \<le> x \<Longrightarrow> of_int m \<le> rnd x"
  using rnd_mono [of "of_int m" x] by (simp add: rnd_int)

lemma rnd_le_int: "\<bar>m\<bar> \<le> 2 ^ 53 \<Longrightarrow> x \<le> of_int m \<Longrightarrow> rnd x \<le> of_int m"
  using rnd_mono [of x "of_int m"] by (simp add: rnd_int)

lemma rnd_nonneg: "0 \<le> x \<Longrightarrow> 0 \<le> rnd x"
  using rnd_ge_int [of 0 x] by simp

lemma rnd_le_dyadic:
  "\<bar>m\<bar> \<le> 2 ^ 53 \<Longrightarrow> x \<le> of_int m * pow2 k \<Longrightarrow> rnd x \<le> of_int m * pow2 k"
  using rnd_mono [of x "of_int m * pow2 k"] by (simp add: rnd_dyadic)

text \<open>
  Scaling a factor that stays \<open>2^-33\<close> below 1 by an integer up to \<open>2^33\<close> stays strictly below
  that integer, in spite of rounding.
\<close>

lemma rnd_scaled_less:
  assumes x: "x \<le> 1 - pow2 (- 33)" and k: "0 < k" "k \<le> 2 ^ 33"
  shows "rnd (x * of_int k) < of_int k"
proof -
  define l where "l = flog2 (of_int k)"
  have lk: "pow2 l \<le> of_int k" "of_int k < pow2 (l + 1)"
    using flog2_spec [of "of_int k"] k(1) by (simp_all add: l_def)
  have "pow2 l \<le> pow2 33"
    using lk(1) k(2) by (simp add: pow2_def)
  then have l33: "l \<le> 33" by simp
  have l0: "0 \<le> l"
  proof -
    have "pow2 0 < pow2 (l + 1)" using lk(2) k(1) by (simp add: pow2_def [of 0])
    then show ?thesis by simp
  qed
  define j where "j = 33 - l"
  define m where "m = k * 2 ^ nat j - 1"
  have c: "of_int m * pow2 (- j) = of_int k - pow2 (- j)"
    using l33 by (simp add: m_def j_def pow2_def algebra_simps)
  have "x * of_int k \<le> of_int k - pow2 (- 33) * of_int k"
    using mult_right_mono [OF x, of "of_int k"] k(1) by (simp add: algebra_simps)
  also have "\<dots> \<le> of_int k - pow2 (- 33) * pow2 l"
    using lk(1) by simp
  also have "\<dots> = of_int m * pow2 (- j)"
    unfolding c by (simp add: j_def flip: pow2_add)
  finally have le: "x * of_int k \<le> of_int m * pow2 (- j)" .
  have "k < 2 ^ nat (l + 1)"
    using lk(2) l0 by (simp add: pow2_def)
  then have "k * 2 ^ nat j < 2 ^ nat (l + 1) * 2 ^ nat j" by simp
  also have "\<dots> = 2 ^ 34"
    using l0 l33 by (simp add: j_def nat_add_distrib nat_diff_distrib flip: power_add)
  finally have "\<bar>m\<bar> \<le> 2 ^ 53"
    using k(1) by (simp add: m_def)
  then have "rnd (x * of_int k) \<le> of_int k - pow2 (- j)"
    using rnd_le_dyadic [OF _ le] by (simp add: c)
  then show ?thesis
    using pow2_pos [of "- j"] by linarith
qed

end

interpretation dbl: rounding fl
  by unfold_locales (auto intro: fl_mono fl_dyadic)

lemmas fl_int [fl_simps] = dbl.rnd_int

end
