(* ===== verification/Rng.thy ===== *)
theory Rng
  imports Js_Number
begin

text \<open>
  \<^verbatim>\<open>web/src/lib/data/rng.ts\<close>: the seeded generator every synthetic data set is drawn from.
  \<^verbatim>\<open>Xorshift32\<close> keeps one number that only bit operators touch, so its state is a 32-bit word;
  \<^verbatim>\<open>next()\<close> divides the new state, read unsigned, by \<^verbatim>\<open>0xffffffff\<close>.

  Code that draws is a program of type \<open>'a rand\<close>: it takes the state and returns a result and the
  new state. \<^verbatim>\<open>pick\<close> and \<^verbatim>\<open>pickN\<close> index an array with a draw; a draw past its end yields
  \<^verbatim>\<open>undefined\<close>, here \<^term>\<open>None\<close>. That happens exactly when the draw left the generator in the
  all-ones state (\<open>rng_pick_run\<close>).

  Most records of the model have no place for \<^verbatim>\<open>undefined\<close>. Their programs draw through
  \<open>picked\<close> and \<open>pickedN\<close>, which end the program with \<^const>\<open>PickUndefined\<close> at a missed pick.
  That value is the boundary of the model and not an exception of the code: the source goes on
  with \<^verbatim>\<open>undefined\<close> in the field (where it reads a property of it, as of the entity type and the
  title template, it throws a \<^verbatim>\<open>TypeError\<close>). A theorem about such a program speaks of the runs in
  which no pick misses.

  \<^verbatim>\<open>int\<close> adds a floored product to \<^verbatim>\<open>min\<close>; the sum is exact, every call has bounds far below \<open>2^53\<close>.
\<close>

unbundle bit_operations_syntax

section \<open>The generator\<close>

type_synonym rng = "32 word"

definition rng_new :: "int \<Rightarrow> rng" where
  "rng_new seed = (let s = word_of_int seed in if s = 0 then 0xdeadbeef else s)"

definition rng_step :: "rng \<Rightarrow> rng" where
  "rng_step s = (let x = s;
                     x = x XOR push_bit 13 x;
                     x = x XOR drop_bit 17 x;
                     x = x XOR push_bit 5 x
                 in x)"

definition rng_value :: "rng \<Rightarrow> rat" where
  "rng_value x = js_div (of_int (uint x)) (of_int 0xffffffff)"

section \<open>Programs that draw\<close>

type_synonym 'a rand = "rng \<Rightarrow> 'a result \<times> rng"

definition rand_return :: "'a \<Rightarrow> 'a rand" where
  "rand_return a = (\<lambda>s. (Inr a, s))"

definition rand_fail :: "js_error \<Rightarrow> 'a rand" where
  "rand_fail e = (\<lambda>s. (Inl e, s))"

definition rand_bind :: "'a rand \<Rightarrow> ('a \<Rightarrow> 'b rand) \<Rightarrow> 'b rand" where
  "rand_bind m f = (\<lambda>s. case m s of (Inl e, s') \<Rightarrow> (Inl e, s') | (Inr a, s') \<Rightarrow> f a s')"

text \<open>\<^verbatim>\<open>Array.from({ length: n }, () => ...)\<close> and \<^verbatim>\<open>for (const x of xs) ...\<close>\<close>

fun rand_replicate :: "nat \<Rightarrow> 'a rand \<Rightarrow> 'a list rand" where
  "rand_replicate 0 m = rand_return []"
| "rand_replicate (Suc n) m =
     rand_bind m (\<lambda>a. rand_bind (rand_replicate n m) (\<lambda>as. rand_return (a # as)))"

fun rand_map :: "('a \<Rightarrow> 'b rand) \<Rightarrow> 'a list \<Rightarrow> 'b list rand" where
  "rand_map f [] = rand_return []"
| "rand_map f (x # xs) =
     rand_bind (f x) (\<lambda>b. rand_bind (rand_map f xs) (\<lambda>bs. rand_return (b # bs)))"

definition rng_next :: "rat rand" where
  "rng_next s = (let x = rng_step s in (Inr (rng_value x), x))"

definition rng_int :: "int \<Rightarrow> int \<Rightarrow> int rand" where
  "rng_int lo hi = rand_bind rng_next (\<lambda>v.
     rand_return (lo + js_floor (js_mul v (of_int (hi - lo + 1)))))"

definition rng_pick :: "'a list \<Rightarrow> 'a option rand" where
  "rng_pick items = rand_bind (rng_int 0 (int (length items) - 1)) (\<lambda>i. rand_return (js_index items i))"

text \<open>
  The loop of \<^verbatim>\<open>pickN\<close>: \<open>n\<close> is the number of rounds left, \<open>pool\<close> what can still be drawn. An index
  past the end pushes \<^verbatim>\<open>undefined\<close>, and \<^verbatim>\<open>splice\<close> then removes nothing.
\<close>

fun rng_pickN :: "'a list \<Rightarrow> nat \<Rightarrow> 'a option list rand" where
  "rng_pickN pool 0 = rand_return []"
| "rng_pickN pool (Suc n) =
     (if pool = [] then rand_return []
      else rand_bind (rng_int 0 (int (length pool) - 1)) (\<lambda>idx.
        rand_bind (rng_pickN (take (nat idx) pool @ drop (Suc (nat idx)) pool) n) (\<lambda>out.
          rand_return (js_index pool idx # out))))"

text \<open>The boundary: a value of the model, or the end of the program.\<close>

definition picked :: "'a option rand \<Rightarrow> 'a rand" where
  "picked m = rand_bind m (\<lambda>x. case x of None \<Rightarrow> rand_fail PickUndefined | Some a \<Rightarrow> rand_return a)"

definition pickedN :: "'a option list rand \<Rightarrow> 'a list rand" where
  "pickedN m = rand_bind m (\<lambda>xs. case those xs of None \<Rightarrow> rand_fail PickUndefined | Some as \<Rightarrow> rand_return as)"

definition rng_bool :: "rat \<Rightarrow> bool rand" where
  "rng_bool p = rand_bind rng_next (\<lambda>v. rand_return (v < p))"

section \<open>The state: a permutation without a fixed zero\<close>

lemma xor_push_inject:
  fixes x y :: rng
  assumes "0 < k" and "x XOR push_bit k x = y XOR push_bit k y"
  shows "x = y"
proof (rule bit_word_eqI)
  have eq: "bit (x XOR push_bit k x) n = bit (y XOR push_bit k y) n" for n
    using assms(2) by simp
  fix n assume "n < LENGTH(32)"
  then show "bit x n = bit y n"
  proof (induction n rule: less_induct)
    case (less n)
    show ?case
      using eq [of n] less assms(1) by (auto simp: bit_simps)
  qed
qed

lemma xor_drop_inject:
  fixes x y :: rng
  assumes "0 < k" and "x XOR drop_bit k x = y XOR drop_bit k y"
  shows "x = y"
proof (rule bit_word_eqI)
  have eq: "bit (x XOR drop_bit k x) n = bit (y XOR drop_bit k y) n" for n
    using assms(2) by simp
  have high: "bit x n = bit y n" if "32 \<le> n" for n
    using that by (simp add: bit_word.rep_eq)
  fix n assume "n < LENGTH(32)"
  then show "bit x n = bit y n"
  proof (induction "32 - n" arbitrary: n rule: less_induct)
    case less
    have "bit x (k + n) = bit y (k + n)"
    proof (cases "k + n < 32")
      case True
      with less assms(1) show ?thesis by simp
    next
      case False
      then show ?thesis by (simp add: high)
    qed
    with eq [of n] show ?case by (auto simp: bit_simps)
  qed
qed

lemma rng_step_inject:
  assumes "rng_step x = rng_step y"
  shows "x = y"
proof -
  let ?a = "\<lambda>x. x XOR push_bit 13 x" and ?b = "\<lambda>x. x XOR drop_bit 17 x"
  have "?b (?a x) XOR push_bit 5 (?b (?a x)) = ?b (?a y) XOR push_bit 5 (?b (?a y))"
    using assms by (simp only: rng_step_def Let_def)
  then have "?b (?a x) = ?b (?a y)" by (rule xor_push_inject [rotated]) simp
  then have "?a x = ?a y" by (rule xor_drop_inject [rotated]) simp
  then show "x = y" by (rule xor_push_inject [rotated]) simp
qed

lemma rng_step_zero: "rng_step 0 = 0"
  by (simp add: rng_step_def)

lemma rng_step_nonzero: "s \<noteq> 0 \<Longrightarrow> rng_step s \<noteq> 0"
  using rng_step_inject [of s 0] rng_step_zero by auto

lemma rng_new_nonzero: "rng_new seed \<noteq> 0"
  by (simp add: rng_new_def Let_def)

section \<open>The range of a draw\<close>

lemma uint_rng_bounds: "0 \<le> uint (x :: rng) \<and> uint x \<le> 4294967295"
  using uint_lt2p [of x] by simp

lemma uint_rng_max: "uint (x :: rng) = 4294967295 \<longleftrightarrow> x = - 1"
proof
  assume "uint x = 4294967295"
  then have "word_of_int (uint x) = (word_of_int 4294967295 :: rng)" by simp
  then show "x = - 1" by simp
next
  assume "x = - 1"
  then show "uint x = 4294967295" by (simp add: unsigned_minus_1_eq_mask mask_eq_exp_minus_1)
qed

lemma rng_value_max: "rng_value (- 1) = 1"
proof -
  have "uint (- 1 :: rng) = 4294967295" using uint_rng_max by blast
  then show ?thesis
    using fl_int [of 1] by (simp add: rng_value_def js_div_def del: of_int_uint)
qed

lemma rng_value_bounds: "0 \<le> rng_value x \<and> rng_value x \<le> 1"
proof
  show "0 \<le> rng_value x"
    using uint_rng_bounds [of x]
    by (simp add: rng_value_def js_div_def dbl.rnd_nonneg del: of_int_uint)
  have "(of_int (uint x) :: rat) \<le> of_int 4294967295"
    using uint_rng_bounds [of x] by (simp only: of_int_le_iff)
  then have "rng_value x \<le> of_int 1"
    unfolding rng_value_def js_div_def by (intro dbl.rnd_le_int) auto
  then show "rng_value x \<le> 1" by simp
qed

lemma rng_value_below:
  assumes "x \<noteq> - 1"
  shows "rng_value x \<le> 1 - pow2 (- 33)"
proof -
  have "uint x \<le> 4294967294"
    using uint_rng_bounds [of x] uint_rng_max [of x] assms by linarith
  then have u: "(of_int (uint x) :: rat) \<le> of_int 4294967294" by (simp only: of_int_le_iff)
  have c: "of_int (2 ^ 33 - 1) * pow2 (- 33) = 1 - pow2 (- 33)" by (simp add: pow2_def)
  have "(of_int (uint x) :: rat) / of_int 0xffffffff \<le> of_int (2 ^ 33 - 1) * pow2 (- 33)"
    using u by (simp add: pow2_def)
  then have "rng_value x \<le> of_int (2 ^ 33 - 1) * pow2 (- 33)"
    unfolding rng_value_def js_div_def by (intro dbl.rnd_le_dyadic) auto
  then show ?thesis by (simp only: c)
qed

lemma rng_value_less_one: "rng_value x < 1 \<longleftrightarrow> x \<noteq> - 1"
proof (cases "x = - 1")
  case True
  then show ?thesis by (simp add: rng_value_max)
next
  case False
  have "rng_value x < 1" using rng_value_below [OF False] pow2_pos [of "- 33"] by linarith
  with False show ?thesis by simp
qed

section \<open>Reasoning about programs\<close>

text \<open>
  \<open>rand_spec m P\<close>: from every state, \<open>m\<close> either returns a value that satisfies \<open>P\<close>, or stops with
  \<^const>\<open>PickUndefined\<close>.
\<close>

definition rand_spec :: "'a rand \<Rightarrow> ('a \<Rightarrow> bool) \<Rightarrow> bool" where
  "rand_spec m P \<longleftrightarrow> (\<forall>s. case m s of
     (Inl e, s') \<Rightarrow> e = PickUndefined
   | (Inr a, s') \<Rightarrow> P a)"

lemma rand_specD: "rand_spec m P \<Longrightarrow> m s = (Inr a, s') \<Longrightarrow> P a"
  by (auto simp: rand_spec_def dest!: spec [of _ s])

lemma rand_spec_errD: "rand_spec m P \<Longrightarrow> m s = (Inl e, s') \<Longrightarrow> e = PickUndefined"
  by (auto simp: rand_spec_def dest!: spec [of _ s])

lemma rand_spec_return [rand_rules]: "P a \<Longrightarrow> rand_spec (rand_return a) P"
  by (simp add: rand_spec_def rand_return_def)

lemma rand_specI:
  "(\<And>s e s'. m s = (Inl e, s') \<Longrightarrow> e = PickUndefined) \<Longrightarrow> (\<And>s a s'. m s = (Inr a, s') \<Longrightarrow> P a) \<Longrightarrow> rand_spec m P"
  unfolding rand_spec_def by (simp split: prod.split sum.split) blast

lemma rand_spec_conseq: "rand_spec m Q \<Longrightarrow> (\<And>a. Q a \<Longrightarrow> P a) \<Longrightarrow> rand_spec m P"
  by (rule rand_specI) (blast dest: rand_specD rand_spec_errD)+

text \<open>
  The rules work backwards from the postcondition, one per way of building a program, so that
  \<open>intro rand_rules\<close> leaves conditions on the drawn values only.
\<close>

lemma rand_spec_bind [rand_rules]:
  "rand_spec m (\<lambda>a. rand_spec (f a) P) \<Longrightarrow> rand_spec (rand_bind m f) P"
  by (rule rand_specI) (auto simp: rand_bind_def split: prod.splits sum.splits dest: rand_specD rand_spec_errD)

lemma rand_spec_if [rand_rules]:
  "(b \<Longrightarrow> rand_spec m P) \<Longrightarrow> (\<not> b \<Longrightarrow> rand_spec m' P) \<Longrightarrow> rand_spec (if b then m else m') P"
  by simp

lemma rand_spec_prod [rand_rules]:
  "(\<And>x y. p = (x, y) \<Longrightarrow> rand_spec (f x y) P) \<Longrightarrow> rand_spec (case p of (x, y) \<Rightarrow> f x y) P"
  by (cases p) simp

lemma rand_spec_replicate:
  "rand_spec m P \<Longrightarrow> rand_spec (rand_replicate n m) (\<lambda>xs. length xs = n \<and> list_all P xs)"
proof (induction n)
  case 0
  show ?case by (auto intro: rand_rules)
next
  case (Suc n)
  then have "rand_spec (rand_bind (rand_replicate n m) (\<lambda>as. rand_return (a # as)))
      (\<lambda>xs. length xs = Suc n \<and> list_all P xs)" if "P a" for a
    using that by (intro rand_spec_bind) (erule rand_spec_conseq [OF Suc.IH], simp add: rand_spec_return)
  then show ?case
    using Suc.prems by (simp add: rand_spec_bind rand_spec_conseq [of m P])
qed

lemma rand_spec_map:
  "(\<And>x. x \<in> set xs \<Longrightarrow> rand_spec (f x) (Q x)) \<Longrightarrow> rand_spec (rand_map f xs) (list_all2 Q xs)"
proof (induction xs)
  case Nil
  show ?case by (auto intro: rand_rules)
next
  case (Cons x xs)
  have "rand_spec (rand_map f xs) (list_all2 Q xs)" using Cons by simp
  then have "rand_spec (rand_bind (rand_map f xs) (\<lambda>bs. rand_return (b # bs))) (list_all2 Q (x # xs))"
    if "Q x b" for b
    using that by (intro rand_spec_bind) (erule rand_spec_conseq, simp add: rand_spec_return)
  then show ?case
    using Cons.prems [of x] by (simp add: rand_spec_bind rand_spec_conseq [of "f x" "Q x"])
qed

lemma rand_spec_next: "rand_spec rng_next (\<lambda>v. 0 \<le> v \<and> v \<le> 1)"
  by (simp add: rand_spec_def rng_next_def Let_def rng_value_bounds)

lemmas rand_spec_next_wp [rand_rules] = rand_spec_next [THEN rand_spec_conseq]

lemma rng_int_run:
  "rng_int lo hi s =
     (Inr (lo + \<lfloor>fl (rng_value (rng_step s) * of_int (hi - lo + 1))\<rfloor>), rng_step s)"
  by (simp add: rng_int_def rand_bind_def rng_next_def rand_return_def js_floor_def js_mul_def Let_def)

lemma rng_int_cases:
  assumes "lo \<le> hi" and "hi - lo < 2 ^ 33"
  obtains v where "rng_int lo hi s = (Inr v, rng_step s)" and "lo \<le> v"
    and "rng_step s \<noteq> - 1 \<Longrightarrow> v \<le> hi" and "rng_step s = - 1 \<Longrightarrow> v = hi + 1"
proof -
  define k where "k = hi - lo + 1"
  define w where "w = fl (rng_value (rng_step s) * of_int k)"
  have k: "0 < k" "k \<le> 2 ^ 33" using assms by (simp_all add: k_def)
  have "0 \<le> w"
    using k rng_value_bounds [of "rng_step s"] by (simp add: w_def dbl.rnd_nonneg)
  then have lo: "lo \<le> lo + \<lfloor>w\<rfloor>" by simp
  have hi: "lo + \<lfloor>w\<rfloor> \<le> hi" if "rng_step s \<noteq> - 1"
  proof -
    have "w < of_int k"
      using dbl.rnd_scaled_less [OF rng_value_below [OF that] k] by (simp only: w_def)
    then have "\<lfloor>w\<rfloor> < k" by (simp add: floor_less_iff)
    then show ?thesis by (simp add: k_def)
  qed
  have top: "lo + \<lfloor>w\<rfloor> = hi + 1" if "rng_step s = - 1"
    using fl_int [of k] k that by (simp add: w_def rng_value_max k_def)
  show thesis
    using that [of "lo + \<lfloor>w\<rfloor>"] lo hi top
    by (simp add: rng_int_run w_def k_def)
qed

lemma rand_spec_int:
  assumes "lo \<le> hi" and "hi - lo < 2 ^ 33"
  shows "rand_spec (rng_int lo hi) (\<lambda>v. lo \<le> v \<and> v \<le> hi + 1)"
  unfolding rand_spec_def
proof
  fix s
  show "case rng_int lo hi s of (Inl e, s') \<Rightarrow> e = PickUndefined
    | (Inr v, s') \<Rightarrow> lo \<le> v \<and> v \<le> hi + 1"
    using assms by (rule rng_int_cases [of lo hi s]) (cases "rng_step s = - 1"; simp)
qed

lemmas rand_spec_int_wp [rand_rules] = rand_spec_int [THEN rand_spec_conseq]

lemma rand_spec_bool [rand_rules]: "(\<And>b. P b) \<Longrightarrow> rand_spec (rng_bool p) P"
  unfolding rng_bool_def by (intro rand_rules) simp

lemma rng_int_index_cases:
  assumes "xs \<noteq> []" and "length xs \<le> 2 ^ 33"
  obtains v where "rng_int 0 (int (length xs) - 1) s = (Inr v, rng_step s)" and "0 \<le> v"
    and "rng_step s \<noteq> - 1 \<Longrightarrow> nat v < length xs"
    and "rng_step s = - 1 \<Longrightarrow> js_index xs v = None"
proof -
  have l: "0 \<le> int (length xs) - 1" "int (length xs) - 1 - 0 < 2 ^ 33"
    using assms by (cases xs, auto)
  show thesis
    using l by (rule rng_int_cases [of 0 "int (length xs) - 1" s])
      (rule that, auto simp: js_index_None_iff)
qed

text \<open>\<^verbatim>\<open>pick\<close>: an element of the array, or \<^verbatim>\<open>undefined\<close> when the draw came out all ones.\<close>

lemma rng_pick_run:
  assumes "items \<noteq> []" and "length items \<le> 2 ^ 33"
  shows "\<exists>x. rng_pick items s = (Inr x, rng_step s) \<and>
    (if rng_step s = - 1 then x = None else \<exists>a \<in> set items. x = Some a)"
proof -
  obtain v where v: "rng_int 0 (int (length items) - 1) s = (Inr v, rng_step s)" "0 \<le> v"
    and "rng_step s \<noteq> - 1 \<Longrightarrow> nat v < length items"
    and "rng_step s = - 1 \<Longrightarrow> js_index items v = None"
    using rng_int_index_cases [OF assms] by metis
  then show ?thesis
    by (cases "rng_step s = - 1") (auto simp: rng_pick_def rand_bind_def rand_return_def js_index_def)
qed

lemma rand_spec_pick:
  assumes "items \<noteq> []" and "length items \<le> 2 ^ 33"
  shows "rand_spec (picked (rng_pick items)) (\<lambda>a. a \<in> set items)"
  unfolding rand_spec_def
proof
  fix s
  show "case picked (rng_pick items) s of (Inl e, s') \<Rightarrow> e = PickUndefined | (Inr a, s') \<Rightarrow> a \<in> set items"
    using rng_pick_run [OF assms, of s]
    by (cases "rng_step s = - 1") (auto simp: picked_def rand_bind_def rand_fail_def rand_return_def)
qed

lemmas rand_spec_pick_wp [rand_rules] = rand_spec_pick [THEN rand_spec_conseq]

lemma mset_take_drop_nth:
  "i < length xs \<Longrightarrow> mset xs = add_mset (xs ! i) (mset (take i xs @ drop (Suc i) xs))"
  by (subst id_take_nth_drop [of i xs]) auto

text \<open>
  \<^verbatim>\<open>pickN\<close>: one entry per round; the entries that are there are drawn without replacement, and
  every \<^verbatim>\<open>undefined\<close> leaves the pool as it was.
\<close>

lemma rng_pickN_run:
  assumes "length pool \<le> 2 ^ 33"
  shows "\<exists>out s'. rng_pickN pool n s = (Inr out, s') \<and> length out \<le> n \<and>
    (None \<notin> set out \<longrightarrow> length out = min n (length pool)) \<and> mset (List.map_filter id out) \<subseteq># mset pool"
  using assms
proof (induction n arbitrary: pool s)
  case 0
  show ?case by (simp add: rand_return_def map_filter_def)
next
  case (Suc n)
  show ?case
  proof (cases "pool = []")
    case True
    then show ?thesis by (simp add: rand_return_def map_filter_def)
  next
    case False
    then obtain v where v: "rng_int 0 (int (length pool) - 1) s = (Inr v, rng_step s)" "0 \<le> v"
      using rng_int_index_cases [OF False Suc.prems] by metis
    let ?rest = "take (nat v) pool @ drop (Suc (nat v)) pool"
    have "length ?rest \<le> 2 ^ 33" using Suc.prems by simp
    from Suc.IH [OF this, of "rng_step s"] obtain out s' where
      out: "rng_pickN ?rest n (rng_step s) = (Inr out, s')" "length out \<le> n"
        "None \<notin> set out \<longrightarrow> length out = min n (length ?rest)" "mset (List.map_filter id out) \<subseteq># mset ?rest"
      by blast
    have "rng_pickN pool (Suc n) s = (Inr (js_index pool v # out), s')"
      using v out(1) False by (simp add: rand_bind_def rand_return_def)
    moreover have "mset (List.map_filter id (js_index pool v # out)) \<subseteq># mset pool \<and>
        (None \<notin> set (js_index pool v # out) \<longrightarrow> Suc (length out) = min (Suc n) (length pool))"
    proof (cases "nat v < length pool")
      case True
      then have "js_index pool v = Some (pool ! nat v)" using v(2) by (simp add: js_index_def)
      with True out(3,4) mset_take_drop_nth [OF True] show ?thesis by (auto simp: map_filter_def)
    next
      case False
      with v(2) have "js_index pool v = None" "?rest = pool" by (auto simp: js_index_None_iff)
      with out(4) show ?thesis by (simp add: map_filter_def)
    qed
    ultimately show ?thesis using out(2) by (intro exI conjI) (assumption, auto simp only: list.size)
  qed
qed

lemma those_Some: "those xs = Some as \<longleftrightarrow> xs = map Some as"
  by (induction xs arbitrary: as) (auto split: option.splits)

lemma rand_spec_pickN:
  assumes "length pool \<le> 2 ^ 33"
  shows "rand_spec (pickedN (rng_pickN pool n)) (\<lambda>out. length out = min n (length pool) \<and> mset out \<subseteq># mset pool)"
  unfolding rand_spec_def
proof
  fix s
  obtain out s' where out: "rng_pickN pool n s = (Inr out, s')"
    "None \<notin> set out \<longrightarrow> length out = min n (length pool)" "mset (List.map_filter id out) \<subseteq># mset pool"
    using rng_pickN_run [OF assms] by metis
  have "List.map_filter id (map Some as) = as" for as :: "'a list" by (induction as) (simp_all add: map_filter_def)
  with out show "case pickedN (rng_pickN pool n) s of (Inl e, s') \<Rightarrow> e = PickUndefined
    | (Inr out, s') \<Rightarrow> length out = min n (length pool) \<and> mset out \<subseteq># mset pool"
    by (auto simp: pickedN_def rand_bind_def rand_fail_def rand_return_def those_Some split: option.splits)
qed

lemmas rand_spec_pickN_wp [rand_rules] = rand_spec_pickN [THEN rand_spec_conseq]

section \<open>Properties\<close>

text \<open>
  The state transition of the generator is injective and never reaches zero from a seeded
  state, so \<^verbatim>\<open>next()\<close> cannot get stuck.
\<close>

theorem rng_step_permutes:
  "inj rng_step \<and> (rng_step ^^ n) (rng_new seed) \<noteq> 0"
proof
  show "inj rng_step" by (rule injI) (rule rng_step_inject)
  show "(rng_step ^^ n) (rng_new seed) \<noteq> 0"
    by (induction n) (simp_all add: rng_new_nonzero rng_step_nonzero)
qed

text \<open>
  C40: \<^verbatim>\<open>int(lo, hi)\<close> returns a number between \<open>lo\<close> and \<open>hi\<close>, rounding included, except when the
  new state is all ones: \<^verbatim>\<open>next()\<close> is then exactly 1 and the result is \<open>hi + 1\<close>.
\<close>

theorem rng_int_range:
  assumes "lo \<le> hi" and "hi - lo < 2 ^ 33"
  shows "\<exists>v. rng_int lo hi s = (Inr v, rng_step s) \<and> lo \<le> v \<and>
     (if rng_step s = - 1 then v = hi + 1 else v \<le> hi)"
  using assms by (rule rng_int_cases [of lo hi s]) auto

theorem rng_int_range_witness:
  "rng_step (rng_new 1584200935) = - 1 \<and> rng_int 0 10000 (rng_new 1584200935) = (Inr 10001, - 1)"
proof -
  have st: "rng_step (rng_new 1584200935) = - 1" by code_simp
  then show ?thesis using rng_int_range [of 0 10000 "rng_new 1584200935"] by auto
qed

text \<open>
  \<^verbatim>\<open>pickN\<close> draws without replacement: when no draw misses it returns \<open>n\<close> elements, or all of them
  when there are fewer, each at most as often as it occurs in the array.
\<close>

theorem rng_pickN_without_replacement:
  assumes "length pool \<le> 2 ^ 33"
  shows "rand_spec (pickedN (rng_pickN pool n)) (\<lambda>out. length out = min n (length pool) \<and> mset out \<subseteq># mset pool)"
  using assms by (rule rand_spec_pickN)

text \<open>A draw that misses: the generator steps into the all-ones state and \<^verbatim>\<open>pick\<close> yields \<^verbatim>\<open>undefined\<close>.\<close>

lemma rng_pick_missed: "fst (rng_pick [''a'', ''b''] (rng_new 1584200935)) = Inr None"
proof -
  have "rng_step (rng_new 1584200935) = - 1" by code_simp
  then show ?thesis using rng_pick_run [of "[''a'', ''b'']" "rng_new 1584200935"] by auto
qed

end
