(* ===== verification/Data_Types.thy ===== *)
theory Data_Types
  imports Prelude
begin

text \<open>
  \<^verbatim>\<open>web/src/lib/data/types.ts\<close>: the vocabulary the console shares with the adjudication kernel.
  String unions are datatypes with one constructor per member, interfaces are records whose
  fields carry a prefix in front of the source's field name; an optional or nullable field is an
  \<^typ>\<open>'a option\<close>. Severities and tactics are ordered by their position in \<^verbatim>\<open>SEVERITIES\<close> and
  \<^verbatim>\<open>TACTICS\<close>.
\<close>

section \<open>Enumerations\<close>

datatype Severity = Info | Low | Medium | High | Critical

definition SEVERITIES :: "Severity list" where
  "SEVERITIES = [Info, Low, Medium, High, Critical]"

datatype Disposition = Benign | Suspicious | Malicious | Incomplete

definition DISPOSITIONS :: "Disposition list" where
  "DISPOSITIONS = [Benign, Suspicious, Malicious, Incomplete]"

datatype Tactic =
    InitialAccess | Execution | Persistence | PrivilegeEscalation | DefenseEvasion
  | CredentialAccess | Discovery | LateralMovement | Collection | CommandAndControl
  | Exfiltration | Impact

definition TACTICS :: "Tactic list" where
  "TACTICS = [InitialAccess, Execution, Persistence, PrivilegeEscalation, DefenseEvasion,
     CredentialAccess, Discovery, LateralMovement, Collection, CommandAndControl,
     Exfiltration, Impact]"

datatype CaseStatus = Open | Investigating | Escalated | Dismissed | Closed

definition CASE_STATUSES :: "CaseStatus list" where
  "CASE_STATUSES = [Open, Investigating, Escalated, Dismissed, Closed]"

datatype EntityType = HostEntity | UserEntity | ProcessEntity | IpEntity | FileEntity | SessionEntity

datatype StatUnit = CountUnit | DurationUnit | PercentUnit

datatype GoodDirection = GoodUp | GoodDown

datatype ResponseActionKind =
  IsolateHost | DisableAccount | RevokeSession | BlockIndicator | QuarantineFile

datatype ActionStatus = Pending | Approved | Modified | Rejected

datatype Polarity = Supports | Refutes

text \<open>The strings the members stand for.\<close>

fun severity_name :: "Severity \<Rightarrow> string" where
  "severity_name Info = ''info''"
| "severity_name Low = ''low''"
| "severity_name Medium = ''medium''"
| "severity_name High = ''high''"
| "severity_name Critical = ''critical''"

fun disposition_name :: "Disposition \<Rightarrow> string" where
  "disposition_name Benign = ''benign''"
| "disposition_name Suspicious = ''suspicious''"
| "disposition_name Malicious = ''malicious''"
| "disposition_name Incomplete = ''incomplete''"

fun tactic_name :: "Tactic \<Rightarrow> string" where
  "tactic_name InitialAccess = ''initial-access''"
| "tactic_name Execution = ''execution''"
| "tactic_name Persistence = ''persistence''"
| "tactic_name PrivilegeEscalation = ''privilege-escalation''"
| "tactic_name DefenseEvasion = ''defense-evasion''"
| "tactic_name CredentialAccess = ''credential-access''"
| "tactic_name Discovery = ''discovery''"
| "tactic_name LateralMovement = ''lateral-movement''"
| "tactic_name Collection = ''collection''"
| "tactic_name CommandAndControl = ''command-and-control''"
| "tactic_name Exfiltration = ''exfiltration''"
| "tactic_name Impact = ''impact''"

section \<open>Records\<close>

record Case =
  c_id :: string
  c_tenantId :: string
  c_title :: string
  c_primaryEntity :: string
  c_entityType :: EntityType
  c_severity :: Severity
  c_disposition :: Disposition
  c_riskScore :: int
  c_tactics :: "Tactic list"
  c_claimCount :: int
  c_createdAtMs :: int
  c_updatedAtMs :: int
  c_status :: CaseStatus
  c_assignee :: "string option"
  c_summary :: string
  c_dismissReason :: "string option"

text \<open>\<^verbatim>\<open>ruleId\<close> is declared a string and filled by \<^verbatim>\<open>pick\<close>, which can yield \<^verbatim>\<open>undefined\<close>: \<^term>\<open>None\<close>.\<close>

record DetectorFireEvent =
  fe_id :: string
  fe_atMs :: int
  fe_ruleId :: "string option"
  fe_entity :: string

record StatTile =
  st_id :: string
  st_label :: string
  st_value :: int
  st_unit :: StatUnit
  st_delta :: int
  st_baselineLabel :: string
  st_trend :: "int list"
  st_goodDirection :: GoodDirection

record TimelineEvent =
  te_id :: string
  te_atMs :: int
  te_tactic :: Tactic
  te_predicate :: string
  te_entity :: string
  te_claimId :: string

record BlastRadius =
  br_affectedPrincipals :: "string list"
  br_affectedHosts :: "string list"
  br_dependentServices :: "string list"
  br_isTier0 :: bool

record ResponseAction =
  ra_id :: string
  ra_caseId :: string
  ra_kind :: ResponseActionKind
  ra_target :: string
  ra_proposedAtMs :: int
  ra_rationale :: string
  ra_status :: ActionStatus

text \<open>
  A claim without its identifier is what the kernel is asked about; \<^verbatim>\<open>LedgerClaim\<close> extends it by
  the \<^verbatim>\<open>claim_id\<close> the kernel computed.
\<close>

record RawClaim =
  lc_predicate :: string
  lc_subject :: string
  lc_object :: "string option"
  lc_interval_start_ns :: int
  lc_interval_end_ns :: int
  lc_evidence :: "string list"
  lc_extractor_kind :: string
  lc_extractor_id :: string
  lc_extractor_version :: string
  lc_observed_value :: "int option"
  lc_polarity :: Polarity
  lc_hypothesis_ref :: "string option"

record LedgerClaim = RawClaim +
  lc_claim_id :: string

record InferenceMeta =
  inf_provider :: string
  inf_model_id :: string
  inf_weights_digest :: string
  inf_seed :: "int option"

record Manifest =
  m_investigation_id :: string
  m_tenant_id :: string
  m_case_id :: string
  m_epoch_root :: string
  m_epoch_id :: int
  m_index_snapshot_hash :: string
  m_claim_set_hash :: string
  m_claim_ids :: "string list"
  m_inference :: InferenceMeta
  m_policy_version :: string
  m_kernel_version :: string
  m_attack_model_version :: string
  m_verdict_severity :: string \<comment> \<open>the kernel's string, cast to \<^verbatim>\<open>Severity\<close>\<close>
  m_verdict_confidence :: int
  m_verdict_disposition :: string
  m_verdict_hash :: string
  m_budget_tool_calls :: int
  m_budget_turns :: int
  m_started_at_ns :: int
  m_completed_at_ns :: int
  m_prev_manifest_hash :: string

record SealedManifest =
  sm_manifest :: Manifest
  sm_manifest_hash :: string
  sm_signature :: string
  sm_public_key :: string
  sm_chainBroken :: bool

record PolicyDelta =
  pd_predicate :: string
  pd_old_weight :: int
  pd_new_weight :: int

record AttributedClaim =
  ac_claim_id :: string
  ac_predicate :: string
  ac_attributed_weight :: int

record VerdictDrift =
  vd_case_id :: string
  vd_tenant_id :: string
  vd_old_severity :: string
  vd_new_severity :: string
  vd_old_disposition :: string
  vd_new_disposition :: string
  vd_old_verdict_hash :: string
  vd_new_verdict_hash :: string
  vd_old_contributing_claims :: "AttributedClaim list"
  vd_new_contributing_claims :: "AttributedClaim list"
  vd_responsible_claim_ids :: "string list"
  vd_policy_deltas :: "PolicyDelta list"
  vd_indicator_corpus_version :: string
  vd_indicator_corpus_hash :: string
  vd_flipped_at_ms :: int
  vd_closed_at_ms :: int

record GraphNode =
  gn_id :: string
  gn_type :: EntityType
  gn_label :: string
  gn_firstSeenMs :: int
  gn_priorCaseCount :: int

record GraphEdge =
  ge_id :: string
  ge_fromNodeId :: string
  ge_toNodeId :: string
  ge_predicate :: string
  ge_polarity :: Polarity
  ge_intervalStartMs :: int
  ge_intervalEndMs :: int
  ge_extractorKind :: string
  ge_extractorId :: string
  ge_extractorVersion :: string
  ge_confidence :: int
  ge_evidenceIds :: "string list"
  ge_hypothesisGroup :: "string option"

section \<open>The orders of severities and tactics\<close>

text \<open>\<^verbatim>\<open>TACTICS.indexOf(t)\<close>, and the same for severities.\<close>

fun severity_index :: "Severity \<Rightarrow> nat" where
  "severity_index Info = 0"
| "severity_index Low = 1"
| "severity_index Medium = 2"
| "severity_index High = 3"
| "severity_index Critical = 4"

fun tactic_index :: "Tactic \<Rightarrow> nat" where
  "tactic_index InitialAccess = 0"
| "tactic_index Execution = 1"
| "tactic_index Persistence = 2"
| "tactic_index PrivilegeEscalation = 3"
| "tactic_index DefenseEvasion = 4"
| "tactic_index CredentialAccess = 5"
| "tactic_index Discovery = 6"
| "tactic_index LateralMovement = 7"
| "tactic_index Collection = 8"
| "tactic_index CommandAndControl = 9"
| "tactic_index Exfiltration = 10"
| "tactic_index Impact = 11"

lemma index_of_TACTICS: "index_of TACTICS t = Some (tactic_index t)"
  by (cases t) (simp_all add: index_of_def TACTICS_def)

lemma index_of_SEVERITIES: "index_of SEVERITIES t = Some (severity_index t)"
  by (cases t) (simp_all add: index_of_def SEVERITIES_def)

lemma tactic_index_inject: "tactic_index a = tactic_index b \<Longrightarrow> a = b"
  by (metis index_of_Some index_of_TACTICS)

lemma severity_index_inject: "severity_index a = severity_index b \<Longrightarrow> a = b"
  by (metis index_of_Some index_of_SEVERITIES)

instantiation Severity :: linorder
begin

definition less_eq_Severity :: "Severity \<Rightarrow> Severity \<Rightarrow> bool" where
  "less_eq_Severity a b \<longleftrightarrow> severity_index a \<le> severity_index b"

definition less_Severity :: "Severity \<Rightarrow> Severity \<Rightarrow> bool" where
  "less_Severity a b \<longleftrightarrow> severity_index a < severity_index b"

instance
  by standard (auto simp: less_eq_Severity_def less_Severity_def dest: severity_index_inject)

end

instantiation Tactic :: linorder
begin

definition less_eq_Tactic :: "Tactic \<Rightarrow> Tactic \<Rightarrow> bool" where
  "less_eq_Tactic a b \<longleftrightarrow> tactic_index a \<le> tactic_index b"

definition less_Tactic :: "Tactic \<Rightarrow> Tactic \<Rightarrow> bool" where
  "less_Tactic a b \<longleftrightarrow> tactic_index a < tactic_index b"

instance
  by standard (auto simp: less_eq_Tactic_def less_Tactic_def dest: tactic_index_inject)

end

lemma set_TACTICS [simp]: "set TACTICS = UNIV"
  using Tactic.exhaust by (auto simp: TACTICS_def)

lemma distinct_TACTICS [simp]: "distinct TACTICS"
  by (simp add: TACTICS_def)

lemma length_TACTICS [simp]: "length TACTICS = 12"
  by (simp add: TACTICS_def)

lemma set_SEVERITIES [simp]: "set SEVERITIES = UNIV"
  using Severity.exhaust by (auto simp: SEVERITIES_def)

lemma tactic_name_inject: "tactic_name a = tactic_name b \<longleftrightarrow> a = b"
  by (cases a; cases b; simp)

lemma sorted_key_tactic: "sorted (map tactic_index ts) \<longleftrightarrow> sorted ts"
  by (simp add: sorted_iff_nth_mono less_eq_Tactic_def)

end
