(* ===== verification/Seed.thy ===== *)
theory Seed
  imports Rng Data_Types
begin

text \<open>
  \<^verbatim>\<open>web/src/lib/data/seed.ts\<close>: the deterministic synthetic corpus. \<^verbatim>\<open>severityForScore\<close> and
  \<^verbatim>\<open>dispositionFor\<close> are the classification every surface relies on; \<^verbatim>\<open>generateCase\<close> draws one
  case, \<^verbatim>\<open>generateTimelineEvents\<close> the event sequence of one case. Object literals are evaluated
  in the order of their properties, so the draws below are in the order of the source.
\<close>

section \<open>Pools\<close>

definition ENTITY_TYPES :: "EntityType list" where
  "ENTITY_TYPES = [HostEntity, UserEntity, ProcessEntity, IpEntity, FileEntity, SessionEntity]"

definition HOST_NAMES :: "string list" where
  "HOST_NAMES = [''WIN-CLIENT'', ''WIN-SRV'', ''LNX-WEB'', ''LNX-DB'', ''MAC-CORP'']"

definition USER_NAMES :: "string list" where
  "USER_NAMES = [''jdoe'', ''asmith'', ''mchen'', ''rkumar'', ''tlee'', ''svc-backup'', ''svc-deploy'']"

definition TENANTS :: "string list" where
  "TENANTS = [''tenant-alpha'', ''tenant-beta'', ''tenant-gamma'']"

definition ASSIGNEES :: "string option list" where
  "ASSIGNEES = [Some ''a.patel'', Some ''j.nguyen'', Some ''k.oconnor'', None, None]"

definition TITLE_TEMPLATES :: "string list" where
  "TITLE_TEMPLATES =
    [''Credential access burst on {entity}'',
     ''Suspicious interpreter spawn on {entity}'',
     ''Lateral movement from {entity}'',
     ''C2 beacon candidate on {entity}'',
     ''Privilege escalation attempt on {entity}'',
     ''Data staging detected on {entity}'',
     ''Anomalous auth from new ASN for {entity}'',
     ''Persistence mechanism installed on {entity}'']"

definition PREDICATES_BY_TACTIC :: "(Tactic \<times> string list) list" where
  "PREDICATES_BY_TACTIC =
    [(InitialAccess, [''AUTH_FAILED_BURST'', ''AUTH_FROM_NEW_ASN'']),
     (Execution, [''INTERPRETER_SPAWNED_BY'', ''ENCODED_COMMAND'']),
     (Persistence, [''PERSISTENCE_REGISTRY_RUN_KEY'']),
     (PrivilegeEscalation, [''PRIVILEGE_ESCALATION_ATTEMPT'']),
     (DefenseEvasion, [''DEFENSE_EVASION_ATTEMPT'']),
     (CredentialAccess, [''AUTH_SUCCEEDED_AFTER_FAILURES'', ''TOKEN_REPLAYED'']),
     (Discovery, [''RDP_INTERNAL_FIRST_TIME'']),
     (LateralMovement, [''LATERAL_MOVEMENT_DETECTED'']),
     (Collection, [''DATA_STAGING_DETECTED'']),
     (CommandAndControl, [''INTERPRETER_NETWORK_EGRESS'', ''CONNECTED_TO_INDICATOR'']),
     (Exfiltration, [''DATA_EXFILTRATED'']),
     (Impact, [''IMPACT_DETECTED''])]"

section \<open>Classification\<close>

definition severityForScore :: "int \<Rightarrow> Severity" where
  "severityForScore score =
     (if score \<ge> 8500 then Critical
      else if score \<ge> 6000 then High
      else if score \<ge> 3500 then Medium
      else if score \<ge> 1500 then Low
      else Info)"

definition dispositionFor :: "Severity \<Rightarrow> bool \<Rightarrow> Disposition" where
  "dispositionFor severity incomplete =
     (if incomplete then Incomplete
      else if severity = Info \<or> severity = Low then Benign
      else if severity = Medium then Suspicious
      else Malicious)"

section \<open>Drawing a case\<close>

definition randomEntity :: "(string \<times> EntityType) rand" where
  "randomEntity = rand_bind (picked (rng_pick ENTITY_TYPES)) (\<lambda>entityType.
     case entityType of
       HostEntity \<Rightarrow> rand_bind (picked (rng_pick HOST_NAMES)) (\<lambda>h. rand_bind (rng_int 1 99) (\<lambda>n.
         rand_return (h @ ''-'' @ pad_start 2 CHR ''0'' (show_int n), entityType)))
     | UserEntity \<Rightarrow> rand_bind (picked (rng_pick USER_NAMES)) (\<lambda>u.
         rand_return (''user:'' @ u, entityType))
     | IpEntity \<Rightarrow> rand_bind (rng_int 10 203) (\<lambda>a. rand_bind (rng_int 0 255) (\<lambda>b.
         rand_bind (rng_int 0 255) (\<lambda>c. rand_bind (rng_int 1 254) (\<lambda>d.
         rand_return (show_int a @ ''.'' @ show_int b @ ''.'' @ show_int c @ ''.'' @ show_int d,
           entityType)))))
     | ProcessEntity \<Rightarrow>
         rand_bind (picked (rng_pick [''powershell.exe'', ''cmd.exe'', ''bash'', ''rundll32.exe'', ''curl''])) (\<lambda>p.
         rand_return (p, entityType))
     | FileEntity \<Rightarrow> rand_bind (picked (rng_pick [''update'', ''svc'', ''cache'', ''payload''])) (\<lambda>f.
         rand_bind (picked (rng_pick [''bin'', ''sh'', ''dll''])) (\<lambda>x.
         rand_return (''/tmp/'' @ f @ ''.'' @ x, entityType)))
     | SessionEntity \<Rightarrow> rand_bind (rng_int 100000 999999) (\<lambda>n.
         rand_return (''sess-'' @ show_int n, entityType)))"

definition tacticsForSeverity :: "Severity \<Rightarrow> Tactic list rand" where
  "tacticsForSeverity severity =
     rand_bind (if severity = Critical then rng_int 3 5
                else if severity = High then rng_int 2 4 else rng_int 1 2) (\<lambda>n.
     rand_bind (pickedN (rng_pickN TACTICS (nat n))) (\<lambda>ts. rand_return (sort_key tactic_index ts)))"

definition statusForSeverity :: "Severity \<Rightarrow> CaseStatus rand" where
  "statusForSeverity severity =
     (if severity = Critical then picked (rng_pick [Escalated, Investigating, Escalated])
      else if severity = High then picked (rng_pick [Investigating, Escalated, Open])
      else rand_bind rng_next (\<lambda>roll. rand_return
        (if roll < fl (15 / 100) then Dismissed
         else if roll < fl (35 / 100) then Closed
         else if roll < fl (60 / 100) then Investigating
         else Open)))"

text \<open>
  \<^verbatim>\<open>template.replace("{entity}", entity)\<close>: the first occurrence. No entity holds a \<^verbatim>\<open>$\<close>, the only
  character \<^verbatim>\<open>replace\<close> treats specially in its second argument.
\<close>

fun replace_first :: "string \<Rightarrow> string \<Rightarrow> string \<Rightarrow> string" where
  "replace_first p r [] = (if p = [] then r else [])"
| "replace_first p r (c # cs) =
     (if take (length p) (c # cs) = p then r @ drop (length p) (c # cs)
      else c # replace_first p r cs)"

definition case_summary :: "Tactic list \<Rightarrow> string \<Rightarrow> int \<Rightarrow> int \<Rightarrow> string" where
  "case_summary tactics entity ageMs riskScore =
     (let n = int (length tactics); h = js_round (js_div (of_int ageMs) 3600000)
      in show_int n @ '' tactic'' @ (if n = 1 then '''' else ''s'') @ '' observed against '' @ entity
         @ '' over the last '' @ show_int (if h = 0 then 1 else h) @ ''h. Risk score ''
         @ show_int riskScore @ ''/10000.'')"

definition generateCase :: "nat \<Rightarrow> int \<Rightarrow> Case rand" where
  "generateCase index nowMs =
     rand_bind randomEntity (\<lambda>(entity, entityType).
     rand_bind (rng_int 0 10000) (\<lambda>riskScore.
     rand_bind (rng_bool (fl (4 / 100))) (\<lambda>incomplete.
     rand_bind (tacticsForSeverity (severityForScore riskScore)) (\<lambda>tactics.
     rand_bind (rng_int 60000 (21 * 24 * 60 * 60 * 1000)) (\<lambda>ageMs.
     rand_bind (picked (rng_pick TITLE_TEMPLATES)) (\<lambda>template.
     rand_bind (picked (rng_pick TENANTS)) (\<lambda>tenantId.
     rand_bind (rng_int 1 12) (\<lambda>claimCount.
     rand_bind (rng_int 0 (min ageMs 3600000)) (\<lambda>idleMs.
     rand_bind (statusForSeverity (severityForScore riskScore)) (\<lambda>status.
     rand_bind (picked (rng_pick ASSIGNEES)) (\<lambda>assignee.
     rand_return \<lparr>
       c_id = ''case-'' @ to_radix 36 index,
       c_tenantId = tenantId,
       c_title = replace_first ''{entity}'' entity template,
       c_primaryEntity = entity,
       c_entityType = entityType,
       c_severity = severityForScore riskScore,
       c_disposition = dispositionFor (severityForScore riskScore) incomplete,
       c_riskScore = riskScore,
       c_tactics = tactics,
       c_claimCount = claimCount,
       c_createdAtMs = nowMs - ageMs,
       c_updatedAtMs = nowMs - idleMs,
       c_status = status,
       c_assignee = assignee,
       c_summary = case_summary tactics entity ageMs riskScore,
       c_dismissReason = None\<rparr>)))))))))))"

definition generateCases :: "nat \<Rightarrow> int \<Rightarrow> int \<Rightarrow> Case list result" where
  "generateCases n seed nowMs =
     fst (rand_map (\<lambda>i. generateCase i nowMs) [0..<n] (rng_new seed))"

section \<open>Drawing a timeline\<close>

definition hex_digits_draw :: "nat \<Rightarrow> string rand" where
  "hex_digits_draw n =
     rand_bind (rand_replicate n (rng_int 0 15)) (\<lambda>ds. rand_return (concat (map (int_to_radix 16) ds)))"

text \<open>The inner loop: \<open>n\<close> events of one tactic, the first with number \<open>k\<close>.\<close>

fun timeline_tactic ::
  "Case \<Rightarrow> int \<Rightarrow> Tactic \<Rightarrow> string list \<Rightarrow> nat \<Rightarrow> nat \<Rightarrow> TimelineEvent list rand" where
  "timeline_tactic c windowMs tactic predicates k 0 = rand_return []"
| "timeline_tactic c windowMs tactic predicates k (Suc n) =
     rand_bind rng_next (\<lambda>v.
     rand_bind (picked (rng_pick predicates)) (\<lambda>predicate.
     rand_bind (hex_digits_draw 16) (\<lambda>claimId.
     rand_bind (timeline_tactic c windowMs tactic predicates (Suc k) n) (\<lambda>rest.
     rand_return (\<lparr>
       te_id = c_id c @ ''-ev-'' @ to_radix 10 k,
       te_atMs = c_createdAtMs c + js_round (js_mul v (of_int windowMs)),
       te_tactic = tactic,
       te_predicate = predicate,
       te_entity = c_primaryEntity c,
       te_claimId = claimId\<rparr> # rest)))))"

fun timeline_loop :: "Case \<Rightarrow> int \<Rightarrow> nat \<Rightarrow> Tactic list \<Rightarrow> TimelineEvent list rand" where
  "timeline_loop c windowMs k [] = rand_return []"
| "timeline_loop c windowMs k (tactic # tactics) =
     rand_bind (rng_int 1 3) (\<lambda>n.
     rand_bind (timeline_tactic c windowMs tactic
         (case map_of PREDICATES_BY_TACTIC tactic of Some ps \<Rightarrow> ps | None \<Rightarrow> [''UNKNOWN_PREDICATE''])
         k (nat n)) (\<lambda>evs.
     rand_bind (timeline_loop c windowMs (k + length evs) tactics) (\<lambda>rest.
     rand_return (evs @ rest))))"

definition generateTimelineEvents :: "Case \<Rightarrow> int \<Rightarrow> TimelineEvent list result" where
  "generateTimelineEvents c seed =
     (let w = c_updatedAtMs c - c_createdAtMs c; windowMs = (if w = 0 then 60000 else w)
      in case fst (timeline_loop c windowMs 0 (c_tactics c) (rng_new seed)) of
           Inl e \<Rightarrow> Inl e
         | Inr events \<Rightarrow> Inr (sort_key te_atMs events))"

section \<open>Classification is monotone and total\<close>

lemma severityForScore_mono: "a \<le> b \<Longrightarrow> severityForScore a \<le> severityForScore b"
  by (auto simp: severityForScore_def less_eq_Severity_def)

lemma dispositionFor_incomplete [simp]: "dispositionFor s i = Incomplete \<longleftrightarrow> i"
  by (simp add: dispositionFor_def)

section \<open>Well-formed cases\<close>

text \<open>
  What a screen may rely on: the severity is the one of the score, the disposition the one of the
  severity, the tactics are distinct and in kill-chain order. The score is bounded by 10001, not
  10000, because \<^verbatim>\<open>int(0, 10000)\<close> can return 10001 (see \<open>Rng\<close>).
\<close>

definition wf_case :: "Case \<Rightarrow> bool" where
  "wf_case c \<longleftrightarrow>
     0 \<le> c_riskScore c \<and> c_riskScore c \<le> 10001 \<and>
     c_severity c = severityForScore (c_riskScore c) \<and>
     c_disposition c = dispositionFor (c_severity c) (c_disposition c = Incomplete) \<and>
     c_tactics c \<noteq> [] \<and> sorted (c_tactics c) \<and> distinct (c_tactics c)"

lemma rand_spec_hex [rand_rules]: "(\<And>h. P h) \<Longrightarrow> rand_spec (hex_digits_draw n) P"
  unfolding hex_digits_draw_def
  by (intro rand_rules rand_spec_conseq [OF rand_spec_replicate [where P = "\<lambda>_. True"]]) auto

lemma randomEntity_spec [rand_rules]: "(\<And>e. P e) \<Longrightarrow> rand_spec randomEntity P"
  unfolding randomEntity_def
  by (intro rand_rules)
     (auto simp: ENTITY_TYPES_def HOST_NAMES_def USER_NAMES_def split: EntityType.split intro!: rand_rules)

lemma mset_subset_distinct: "mset xs \<subseteq># mset ys \<Longrightarrow> distinct ys \<Longrightarrow> distinct xs"
  by (metis distinct_append mset_append mset_eq_imp_distinct_iff subset_mset.add_diff_inverse
      ex_mset)

lemma tacticsForSeverity_spec:
  "rand_spec (tacticsForSeverity severity) (\<lambda>ts. ts \<noteq> [] \<and> sorted ts \<and> distinct ts)"
  unfolding tacticsForSeverity_def
  by (intro rand_rules) (auto simp: distinct_sort simp flip: sorted_key_tactic
      dest: mset_subset_distinct [OF _ distinct_TACTICS])

lemmas tacticsForSeverity_wp [rand_rules] = tacticsForSeverity_spec [THEN rand_spec_conseq]

lemma statusForSeverity_spec [rand_rules]: "(\<And>s. P s) \<Longrightarrow> rand_spec (statusForSeverity severity) P"
  unfolding statusForSeverity_def by (intro rand_rules) auto

section \<open>Generated cases\<close>

lemma generateCase_wf:
  "rand_spec (generateCase index nowMs) (\<lambda>c.
     wf_case c \<and> c_id c = ''case-'' @ to_radix 36 index \<and> c_tenantId c \<in> set TENANTS \<and>
     c_dismissReason c = None \<and> 1 \<le> c_claimCount c \<and> c_claimCount c \<le> 13 \<and>
     c_createdAtMs c \<le> nowMs - 60000 \<and> c_createdAtMs c \<le> c_updatedAtMs c + 1 \<and>
     c_updatedAtMs c \<le> nowMs)"
  unfolding generateCase_def
  by (intro rand_rules) (auto simp: wf_case_def TITLE_TEMPLATES_def TENANTS_def ASSIGNEES_def)

lemmas generateCase_wp [rand_rules] = generateCase_wf [THEN rand_spec_conseq]

lemma generateCases_cases:
  "case generateCases n seed nowMs of
     Inl e \<Rightarrow> e = PickUndefined
   | Inr cs \<Rightarrow> length cs = n \<and> list_all wf_case cs \<and>
       map c_id cs = map (\<lambda>i. ''case-'' @ to_radix 36 i) [0..<n]"
proof -
  let ?m = "rand_map (\<lambda>i. generateCase i nowMs) [0..<n]"
  let ?Q = "\<lambda>i c. wf_case c \<and> c_id c = ''case-'' @ to_radix 36 i"
  have spec: "rand_spec ?m (list_all2 ?Q [0..<n])"
    by (intro rand_spec_map rand_rules) auto
  obtain r s' where r: "?m (rng_new seed) = (r, s')" by (cases "?m (rng_new seed)")
  show ?thesis
  proof (cases r)
    case (Inl e)
    with r spec show ?thesis by (auto simp: generateCases_def dest: rand_spec_errD)
  next
    case (Inr cs)
    with r spec have l: "list_all2 ?Q [0..<n] cs" by (auto dest: rand_specD)
    then have "map c_id cs = map (\<lambda>i. ''case-'' @ to_radix 36 i) [0..<n]" and "list_all wf_case cs"
      by (induction rule: list_all2_induct) auto
    with r Inr list_all2_lengthD [OF l] show ?thesis by (simp add: generateCases_def)
  qed
qed

lemma distinct_case_ids: "distinct (map (\<lambda>i. ''case-'' @ to_radix 36 i) [0..<n])"
  by (simp add: distinct_map inj_on_def to_radix_inject)

section \<open>Generated timelines\<close>

definition wf_event :: "Case \<Rightarrow> int \<Rightarrow> TimelineEvent \<Rightarrow> bool" where
  "wf_event c windowMs e \<longleftrightarrow>
     te_tactic e \<in> set (c_tactics c) \<and> te_entity e = c_primaryEntity c \<and>
     (case map_of PREDICATES_BY_TACTIC (te_tactic e) of
        None \<Rightarrow> False | Some ps \<Rightarrow> te_predicate e \<in> set ps) \<and>
     min 0 windowMs \<le> te_atMs e - c_createdAtMs c \<and> te_atMs e - c_createdAtMs c \<le> max 0 windowMs"

lemma PREDICATES_BY_TACTIC_total:
  obtains ps where "map_of PREDICATES_BY_TACTIC t = Some ps" and "ps \<noteq> []" and "length ps \<le> 2"
  by (cases t) (auto simp: PREDICATES_BY_TACTIC_def)

lemma js_round_of_int [simp]: "js_round (of_int n) = n"
  by (simp add: js_round_def) linarith

lemma js_round_mono: "x \<le> y \<Longrightarrow> js_round x \<le> js_round y"
  by (simp add: js_round_def floor_mono)

lemma scaled_round_bounds:
  assumes "0 \<le> v" and "v \<le> 1" and "\<bar>w\<bar> \<le> 2 ^ 53"
  shows "min 0 w \<le> js_round (js_mul v (of_int w)) \<and> js_round (js_mul v (of_int w)) \<le> max 0 w"
proof -
  have "of_int (min 0 w) \<le> v * of_int w" and "v * of_int w \<le> of_int (max 0 w)"
    using assms mult_right_mono [of v 1 "of_int w"] mult_right_mono_neg [of v 1 "of_int w"]
    by (cases "0 \<le> w"; simp add: mult_nonneg_nonneg mult_nonneg_nonpos)+
  then have "of_int (min 0 w) \<le> js_mul v (of_int w)" and "js_mul v (of_int w) \<le> of_int (max 0 w)"
    unfolding js_mul_def using assms(3)
    by (intro dbl.rnd_ge_int dbl.rnd_le_int; auto)+
  then show ?thesis
    using js_round_mono js_round_of_int by metis
qed

definition event_id :: "Case \<Rightarrow> nat \<Rightarrow> string" where
  "event_id c k = c_id c @ ''-ev-'' @ to_radix 10 k"

lemma inj_event_id: "inj (event_id c)"
  by (simp add: inj_on_def event_id_def to_radix_inject)

lemma timeline_tactic_spec:
  assumes "tactic \<in> set (c_tactics c)" and "map_of PREDICATES_BY_TACTIC tactic = Some ps"
    and "ps \<noteq> []" and "length ps \<le> 2" and "\<bar>w\<bar> \<le> 2 ^ 53"
  shows "rand_spec (timeline_tactic c w tactic ps k n) (\<lambda>evs.
     length evs = n \<and> numbered te_id (event_id c) k evs \<and> list_all (wf_event c w) evs)"
proof (induction n arbitrary: k)
  case 0
  show ?case by (auto intro: rand_rules)
next
  case (Suc n)
  show ?case
    unfolding timeline_tactic.simps
    using assms scaled_round_bounds [OF _ _ assms(5)]
    by (intro rand_rules Suc.IH [THEN rand_spec_conseq])
       (auto simp: wf_event_def event_id_def)
qed

lemma timeline_loop_spec:
  assumes "set ts \<subseteq> set (c_tactics c)" and "\<bar>w\<bar> \<le> 2 ^ 53"
  shows "rand_spec (timeline_loop c w k ts) (\<lambda>evs.
     numbered te_id (event_id c) k evs \<and> length ts \<le> length evs \<and> list_all (wf_event c w) evs)"
  using assms(1)
proof (induction ts arbitrary: k)
  case Nil
  show ?case by (auto intro: rand_rules)
next
  case (Cons t ts)
  obtain ps where ps: "map_of PREDICATES_BY_TACTIC t = Some ps" "ps \<noteq> []" "length ps \<le> 2"
    by (rule PREDICATES_BY_TACTIC_total)
  have t: "t \<in> set (c_tactics c)" and ts: "set ts \<subseteq> set (c_tactics c)" using Cons.prems by auto
  show ?case
    unfolding timeline_loop.simps ps option.case
    by (intro rand_rules timeline_tactic_spec [OF t ps assms(2), THEN rand_spec_conseq]
        Cons.IH [OF ts, THEN rand_spec_conseq]) auto
qed

text \<open>A concrete case, for instances of the properties.\<close>

definition sample_case :: Case where
  "sample_case = \<lparr>c_id = ''case-0'', c_tenantId = ''tenant-alpha'', c_title = ''Lateral movement from bash'',
     c_primaryEntity = ''bash'', c_entityType = ProcessEntity, c_severity = Low, c_disposition = Benign,
     c_riskScore = 1600, c_tactics = [Execution, Impact], c_claimCount = 2, c_createdAtMs = 1000,
     c_updatedAtMs = 5000, c_status = Open, c_assignee = None, c_summary = '''', c_dismissReason = None\<rparr>"

section \<open>Properties\<close>

text \<open>
  Every case the generator returns is well formed: its severity is the one of its score, its
  disposition the one of its severity (or incomplete), its tactics are a non-empty duplicate-free
  list in kill-chain order; its tenant is a known one, it was created at least a minute before the
  reference time and its update lies between creation (up to one millisecond) and that time. The
  model ends only where a pick misses its pool, after an all-ones draw.
\<close>

theorem generateCase_well_formed:
  "rand_spec (generateCase index nowMs) (\<lambda>c.
     wf_case c \<and> c_id c = ''case-'' @ to_radix 36 index \<and> c_tenantId c \<in> set TENANTS \<and>
     1 \<le> c_claimCount c \<and> c_createdAtMs c \<le> nowMs - 60000 \<and>
     c_createdAtMs c \<le> c_updatedAtMs c + 1 \<and> c_updatedAtMs c \<le> nowMs)"
  by (intro rand_rules) auto

text \<open>
  The generated corpus has exactly the requested number of cases, all well formed and with
  pairwise different identifiers.
\<close>

theorem generateCases_distinct:
  "case generateCases n seed nowMs of
     Inl e \<Rightarrow> e = PickUndefined
   | Inr cs \<Rightarrow> length cs = n \<and> list_all wf_case cs \<and> distinct (map c_id cs)"
  using generateCases_cases [of n seed nowMs] distinct_case_ids [of n]
  by (simp split: sum.splits)

text \<open>
  A higher risk score never gets a lower severity.
\<close>

theorem severity_monotone:
  assumes "a \<le> b"
  shows "severityForScore a \<le> severityForScore b"
  using assms by (rule severityForScore_mono)

theorem severity_monotone_witness: "severityForScore 3499 \<le> severityForScore 8500"
  using severity_monotone [of 3499 8500] by simp

text \<open>
  The timeline of a case is sorted by time, has at least one event per tactic of the case, and
  every event carries a tactic of the case, a predicate registered for that tactic, and a time
  inside the window between creation and last update; event identifiers are pairwise different.
\<close>

theorem timeline_well_formed:
  assumes "\<bar>c_updatedAtMs c - c_createdAtMs c\<bar> \<le> 2 ^ 53"
  shows "case generateTimelineEvents c seed of
     Inl e \<Rightarrow> e = PickUndefined
   | Inr evs \<Rightarrow> sorted (map te_atMs evs) \<and> distinct (map te_id evs) \<and>
       length (c_tactics c) \<le> length evs \<and>
       list_all (wf_event c (if c_updatedAtMs c = c_createdAtMs c then 60000
                             else c_updatedAtMs c - c_createdAtMs c)) evs"
proof -
  define w where "w = (if c_updatedAtMs c = c_createdAtMs c then 60000
                       else c_updatedAtMs c - c_createdAtMs c)"
  have w: "\<bar>w\<bar> \<le> 2 ^ 53" using assms by (simp add: w_def)
  have gen: "generateTimelineEvents c seed =
      (case fst (timeline_loop c w 0 (c_tactics c) (rng_new seed)) of
         Inl e \<Rightarrow> Inl e | Inr events \<Rightarrow> Inr (sort_key te_atMs events))"
    by (simp add: generateTimelineEvents_def w_def Let_def)
  note spec = timeline_loop_spec [OF subset_refl w, where k = 0]
  obtain r s' where r: "timeline_loop c w 0 (c_tactics c) (rng_new seed) = (r, s')"
    by (cases "timeline_loop c w 0 (c_tactics c) (rng_new seed)")
  show ?thesis
  proof (cases r)
    case (Inl e)
    with r spec show ?thesis by (auto simp: gen dest: rand_spec_errD)
  next
    case (Inr evs)
    with rand_specD [OF spec] r have ev: "numbered te_id (event_id c) 0 evs"
      "length (c_tactics c) \<le> length evs" "list_all (wf_event c w) evs" by fastforce+
    have "distinct (map te_id evs)" using ev(1) inj_event_id by (rule numbered_distinct)
    moreover have "mset (map te_id (sort_key te_atMs evs)) = mset (map te_id evs)" by simp
    ultimately have "distinct (map te_id (sort_key te_atMs evs))"
      by (metis mset_eq_imp_distinct_iff)
    with ev r Inr show ?thesis by (simp add: gen list_all_iff flip: w_def)
  qed
qed

theorem timeline_well_formed_witness:
  "case generateTimelineEvents sample_case 7 of
     Inl e \<Rightarrow> e = PickUndefined
   | Inr evs \<Rightarrow> sorted (map te_atMs evs) \<and> distinct (map te_id evs) \<and>
       length (c_tactics sample_case) \<le> length evs \<and> list_all (wf_event sample_case 4000) evs"
proof -
  have h: "\<bar>c_updatedAtMs sample_case - c_createdAtMs sample_case\<bar> \<le> 2 ^ 53"
    and w: "(if c_updatedAtMs sample_case = c_createdAtMs sample_case then 60000
      else c_updatedAtMs sample_case - c_createdAtMs sample_case) = 4000"
    by (simp_all add: sample_case_def)
  show ?thesis using timeline_well_formed [OF h, of 7] unfolding w .
qed

end
