(* ===== verification/Case_Feed.thy ===== *)
theory Case_Feed
  imports Seed
begin

text \<open>
  The collection of cases as both sides of the live feed keep it: a \<^verbatim>\<open>Map\<close> from identifiers to cases
  and a separate array of identifiers in display order. The server's \<^verbatim>\<open>Store\<close> (\<^verbatim>\<open>lib/data/store.ts\<close>)
  and the browser's \<^verbatim>\<open>CaseStreamState\<close> (\<^verbatim>\<open>use-case-stream.ts\<close>) share this contract; it is stated once
  as a locale and interpreted for both.

  A \<^verbatim>\<open>Map\<close> is an association list in insertion order: \<^verbatim>\<open>set\<close> is \<^const>\<open>AList.update\<close>, which keeps the
  place of an existing key, \<^verbatim>\<open>get\<close> is \<^const>\<open>map_of\<close>.
\<close>

section \<open>Maps and lists of identifiers\<close>

definition js_map_of :: "('k \<times> 'v) list \<Rightarrow> ('k \<times> 'v) list" where
  "js_map_of kvs = foldl (\<lambda>m (k, v). AList.update k v m) [] kvs"

definition feed_ok :: "('k \<times> 'v) list \<Rightarrow> 'k list \<Rightarrow> ('v \<Rightarrow> 'k) \<Rightarrow> ('v \<Rightarrow> bool) \<Rightarrow> bool" where
  "feed_ok m ks key ok \<longleftrightarrow>
     distinct (map fst m) \<and> set ks = set (map fst m) \<and> list_all (\<lambda>(k, v). key v = k \<and> ok v) m"

lemma map_of_update_same [simp]: "map_of (AList.update k v m) k = Some v"
  by (simp add: update_conv')

lemma map_of_update_other: "k' \<noteq> k \<Longrightarrow> map_of (AList.update k v m) k' = map_of m k'"
  by (simp add: update_conv')

lemma set_keys_update [simp]: "fst ` set (AList.update k v m) = insert k (fst ` set m)"
  using dom_update [of k v m] by simp

lemma distinct_keys_update: "distinct (map fst m) \<Longrightarrow> distinct (map fst (AList.update k v m))"
  by (rule distinct_update)

lemma set_update_subset: "set (AList.update k v m) \<subseteq> insert (k, v) (set m)"
  by (induction m) auto

lemma list_all_update: "list_all P m \<Longrightarrow> P (k, v) \<Longrightarrow> list_all P (AList.update k v m)"
  using set_update_subset [of k v m] by (auto simp: list_all_iff)

lemma feed_ok_get:
  assumes "feed_ok m ks key ok" "k \<in> set ks"
  obtains v where "map_of m k = Some v" "key v = k" "ok v"
proof -
  have "k \<in> fst ` set m" using assms by (simp add: feed_ok_def)
  then obtain v where v: "map_of m k = Some v" by (metis map_of_eq_None_iff not_None_eq)
  moreover from map_of_SomeD [OF v] have "key v = k \<and> ok v" using assms by (auto simp: feed_ok_def list_all_iff)
  ultimately show thesis using that by blast
qed

lemma feed_ok_insert:
  "feed_ok m ks key ok \<Longrightarrow> ok v \<Longrightarrow> feed_ok (AList.update (key v) v m) (key v # ks) key ok"
  by (auto simp: feed_ok_def distinct_keys_update intro!: list_all_update)

lemma feed_ok_replace:
  "feed_ok m ks key ok \<Longrightarrow> ok v \<Longrightarrow> key v \<in> set ks \<Longrightarrow> feed_ok (AList.update (key v) v m) ks key ok"
  by (auto simp: feed_ok_def distinct_keys_update intro!: list_all_update)

lemma js_map_of_snoc: "js_map_of (kvs @ [(k, v)]) = AList.update k v (js_map_of kvs)"
  by (simp add: js_map_of_def)

lemma js_map_of_distinct: "distinct (map fst kvs) \<Longrightarrow> js_map_of kvs = kvs"
proof (induction kvs rule: rev_induct)
  case (snoc kv kvs)
  obtain k v where kv: "kv = (k, v)" by (cases kv)
  have "k \<notin> fst ` set m \<Longrightarrow> AList.update k v m = m @ [(k, v)]" for m :: "('a \<times> 'b) list"
    by (induction m) auto
  with snoc kv show ?case by (auto simp: js_map_of_snoc)
qed (simp add: js_map_of_def)

lemma feed_ok_js_map:
  "list_all ok vs \<Longrightarrow> feed_ok (js_map_of (map (\<lambda>v. (key v, v)) vs)) (map key vs) key ok"
proof (induction vs rule: rev_induct)
  case Nil
  show ?case by (simp add: feed_ok_def js_map_of_def)
next
  case (snoc v vs)
  then have "feed_ok (AList.update (key v) v (js_map_of (map (\<lambda>v. (key v, v)) vs))) (key v # map key vs) key ok"
    by (intro feed_ok_insert) simp_all
  then show ?case by (simp add: feed_ok_def js_map_of_snoc)
qed

section \<open>The contract\<close>

locale case_feed =
  fixes cases_of :: "'s \<Rightarrow> (string \<times> Case) list"
    and order_of :: "'s \<Rightarrow> string list"
    and add_case :: "Case \<Rightarrow> 's \<Rightarrow> 's"
    and set_case :: "Case \<Rightarrow> 's \<Rightarrow> 's"
  assumes cases_add: "cases_of (add_case c s) = AList.update (c_id c) c (cases_of s)"
    and order_add: "order_of (add_case c s) = c_id c # order_of s"
    and cases_set: "cases_of (set_case c s) = AList.update (c_id c) c (cases_of s)"
    and order_set: "order_of (set_case c s) = order_of s"
begin

definition good :: "'s \<Rightarrow> bool" where
  "good s \<longleftrightarrow> feed_ok (cases_of s) (order_of s) c_id wf_case"

definition listing :: "'s \<Rightarrow> Case option list" where
  "listing s = map (map_of (cases_of s)) (order_of s)"

lemma good_add: "good s \<Longrightarrow> wf_case c \<Longrightarrow> good (add_case c s)"
  by (simp add: good_def cases_add order_add feed_ok_insert)

lemma good_set: "good s \<Longrightarrow> wf_case c \<Longrightarrow> c_id c \<in> set (order_of s) \<Longrightarrow> good (set_case c s)"
  by (simp add: good_def cases_set order_set feed_ok_replace)

lemma good_get: "good s \<Longrightarrow> i \<in> set (order_of s) \<Longrightarrow>
    \<exists>c. map_of (cases_of s) i = Some c \<and> c_id c = i \<and> wf_case c"
  unfolding good_def by (blast elim: feed_ok_get)

lemma listing_total:
  assumes "good s"
  shows "\<exists>cs. listing s = map Some cs \<and> map c_id cs = order_of s \<and> list_all wf_case cs"
proof -
  let ?get = "\<lambda>i. the (map_of (cases_of s) i)"
  have "\<exists>c. map_of (cases_of s) i = Some c \<and> c_id c = i \<and> wf_case c" if "i \<in> set (order_of s)" for i
    using good_get [OF assms that] .
  then have "listing s = map Some (map ?get (order_of s)) \<and> map c_id (map ?get (order_of s)) = order_of s \<and>
      list_all wf_case (map ?get (order_of s))"
    by (fastforce simp: listing_def list_all_iff intro!: map_idI)
  then show ?thesis by blast
qed

lemma get_set: "map_of (cases_of (set_case c s)) i = (if i = c_id c then Some c else map_of (cases_of s) i)"
  by (simp add: cases_set map_of_update_other)

lemma get_add: "map_of (cases_of (add_case c s)) i = (if i = c_id c then Some c else map_of (cases_of s) i)"
  by (simp add: cases_add map_of_update_other)

end

end
