(* ===== verification/Store.thy ===== *)
theory Store
  imports Case_Feed
begin

text \<open>
  \<^verbatim>\<open>web/src/lib/data/store.ts\<close>: the server's in-memory state. One record holds the cases, their
  order, the detector-fire ring, the response actions and the live generator; every exported
  function is a definition that takes the store and returns it updated. \<^verbatim>\<open>Date.now()\<close> is a
  parameter: \<open>clock k\<close> is the value of the \<open>k\<close>-th call inside one operation. \<^verbatim>\<open>x ** 3\<close> is
  implementation-approximated in ECMAScript and a parameter \<open>cube\<close>.

  \<^verbatim>\<open>liveRng.pick\<close> can miss its pool (see \<open>Rng\<close>). A detector fire then has no rule, as in the source.
  A case drawn with a missed pick has \<^verbatim>\<open>undefined\<close> fields the record \<open>Case\<close> has no place for: there,
  and in the initial response actions and the blast radius, the model ends with
  \<^const>\<open>PickUndefined\<close>, its boundary, and the theorems speak of the other runs.
\<close>

section \<open>State\<close>

record Store =
  s_cases :: "(string \<times> Case) list"
  s_order :: "string list"
  s_detectorFires :: "DetectorFireEvent list"
  s_responseActions :: "(string \<times> ResponseAction) list"
  s_liveRng :: rng
  s_ingestRatePerSec :: int

datatype StoreEvent = UpdateEvent Case | NewEvent Case | FireEvent DetectorFireEvent

definition CASE_COUNT :: nat where "CASE_COUNT = 10000"

section \<open>Initialisation\<close>

definition ACTION_KINDS :: "ResponseActionKind list" where
  "ACTION_KINDS = [IsolateHost, DisableAccount, RevokeSession, BlockIndicator, QuarantineFile]"

definition proposed_action :: "Case \<Rightarrow> ResponseActionKind \<Rightarrow> ResponseAction" where
  "proposed_action c kind = \<lparr>
     ra_id = ''ra-'' @ c_id c,
     ra_caseId = c_id c,
     ra_kind = kind,
     ra_target = c_primaryEntity c,
     ra_proposedAtMs = c_updatedAtMs c,
     ra_rationale = show_int (int (length (c_tactics c))) @ '' contributing tactic(s), risk score ''
       @ show_int (c_riskScore c) @ ''/10000 -- see case '' @ c_id c @ ''.'',
     ra_status = Pending\<rparr>"

fun response_actions_loop ::
  "Case list \<Rightarrow> (string \<times> ResponseAction) list \<Rightarrow> (string \<times> ResponseAction) list rand" where
  "response_actions_loop [] actions = rand_return actions"
| "response_actions_loop (c # cs) actions =
     rand_bind (picked (rng_pick ACTION_KINDS)) (\<lambda>kind.
       response_actions_loop cs (AList.update (''ra-'' @ c_id c) (proposed_action c kind) actions))"

definition response_candidates :: "Case list \<Rightarrow> Case list" where
  "response_candidates cases = take 40 (filter (\<lambda>c. c_severity c = High \<or> c_severity c = Critical) cases)"

definition buildResponseActions :: "Case list \<Rightarrow> (string \<times> ResponseAction) list rand" where
  "buildResponseActions cases = response_actions_loop (response_candidates cases) []"

text \<open>Initialisation with \<open>n\<close> cases; the server uses \<^const>\<open>CASE_COUNT\<close>.\<close>

definition initStore_of :: "nat \<Rightarrow> int \<Rightarrow> Store result" where
  "initStore_of n nowMs =
     (case generateCases n 20260910 nowMs of
        Inl e \<Rightarrow> Inl e
      | Inr cases \<Rightarrow>
          (case buildResponseActions cases (rng_new 0xc0ffee) of
             (Inl e, _) \<Rightarrow> Inl e
           | (Inr actions, rng) \<Rightarrow> Inr \<lparr>
               s_cases = js_map_of (map (\<lambda>c. (c_id c, c)) cases),
               s_order = map c_id cases,
               s_detectorFires = [],
               s_responseActions = actions,
               s_liveRng = rng,
               s_ingestRatePerSec = 40\<rparr>))"

definition initStore :: "int \<Rightarrow> Store result" where
  "initStore nowMs = initStore_of CASE_COUNT nowMs"

text \<open>The singleton on \<^verbatim>\<open>globalThis\<close>: built on first use, kept afterwards.\<close>

definition getStore :: "int \<Rightarrow> Store option \<Rightarrow> Store result \<times> Store option" where
  "getStore nowMs global =
     (case global of
        Some store \<Rightarrow> (Inr store, global)
      | None \<Rightarrow> (case initStore nowMs of
            Inl e \<Rightarrow> (Inl e, None)
          | Inr store \<Rightarrow> (Inr store, Some store)))"

section \<open>Reading and changing cases\<close>

definition listCases :: "Store \<Rightarrow> Case option list" where
  "listCases store = map (map_of (s_cases store)) (s_order store)"

definition getCase :: "Store \<Rightarrow> string \<Rightarrow> Case option" where
  "getCase store i = map_of (s_cases store) i"

text \<open>\<^verbatim>\<open>store.cases.set(id, c); store.order.unshift(id)\<close> and \<^verbatim>\<open>store.cases.set(id, updated)\<close>\<close>

definition store_add :: "Case \<Rightarrow> Store \<Rightarrow> Store" where
  "store_add c store = store\<lparr>s_cases := AList.update (c_id c) c (s_cases store),
     s_order := c_id c # s_order store\<rparr>"

definition store_set :: "Case \<Rightarrow> Store \<Rightarrow> Store" where
  "store_set c store = store\<lparr>s_cases := AList.update (c_id c) c (s_cases store)\<rparr>"

definition live_id :: "string \<Rightarrow> int \<Rightarrow> int \<Rightarrow> string" where
  "live_id kind now n = kind @ ''-'' @ int_to_radix 36 now @ ''-'' @ show_int n"

definition tick_new :: "(nat \<Rightarrow> int) \<Rightarrow> Store \<Rightarrow> StoreEvent result \<times> Store" where
  "tick_new clock store =
     (case rand_bind (rng_int 0 9999) (\<lambda>n. rand_bind (rng_int 1 (2 ^ 31 - 1)) (\<lambda>seed.
          rand_return (n, seed))) (s_liveRng store) of
        (Inl e, r) \<Rightarrow> (Inl e, store\<lparr>s_liveRng := r\<rparr>)
      | (Inr (n, seed), r) \<Rightarrow>
          (let store = store\<lparr>s_liveRng := r\<rparr>; nowMs = clock 1
           in case generateCases 1 seed nowMs of
                Inr (c0 # _) \<Rightarrow>
                  (let c = c0\<lparr>c_id := live_id ''case'' (clock 0) n,
                              c_createdAtMs := nowMs, c_updatedAtMs := nowMs\<rparr>
                   in (Inr (NewEvent c), store_add c store))
              | Inr [] \<Rightarrow> (Inl PickUndefined, store)
              | Inl e \<Rightarrow> (Inl e, store)))"

definition tick_case :: "Case \<Rightarrow> int \<Rightarrow> int \<Rightarrow> Case" where
  "tick_case existing delta now =
     (let riskScore = max 0 (min 10000 (c_riskScore existing + delta));
          severity = severityForScore riskScore
      in existing\<lparr>c_riskScore := riskScore, c_severity := severity,
           c_disposition := dispositionFor severity (c_disposition existing = Incomplete),
           c_updatedAtMs := now\<rparr>)"

definition biased_index :: "(rat \<Rightarrow> rat) \<Rightarrow> rat \<Rightarrow> nat \<Rightarrow> int" where
  "biased_index cube v n = min (js_floor (js_mul (cube v) (of_nat n))) (int n - 1)"

definition tick_update :: "(rat \<Rightarrow> rat) \<Rightarrow> (nat \<Rightarrow> int) \<Rightarrow> Store \<Rightarrow> StoreEvent result \<times> Store" where
  "tick_update cube clock store =
     (case rng_next (s_liveRng store) of
        (Inl e, r) \<Rightarrow> (Inl e, store\<lparr>s_liveRng := r\<rparr>)
      | (Inr v, r) \<Rightarrow>
          (case Option.bind (js_index (s_order store) (biased_index cube v (length (s_order store))))
                  (map_of (s_cases store)) of
             None \<Rightarrow> (Inl TypeError, store\<lparr>s_liveRng := r\<rparr>)
           | Some existing \<Rightarrow>
               (case rng_int (- 150) 150 r of
                  (Inl e, r) \<Rightarrow> (Inl e, store\<lparr>s_liveRng := r\<rparr>)
                | (Inr delta, r) \<Rightarrow>
                    (let updated = tick_case existing delta (clock 0)
                     in (Inr (UpdateEvent updated), store_set updated (store\<lparr>s_liveRng := r\<rparr>))))))"

definition RULE_IDS :: "string list" where
  "RULE_IDS =
    [''cdl.credential.auth-burst-then-success'',
     ''cdl.execution.interpreter-spawned'',
     ''cdl.execution.encoded-command'',
     ''cdl.c2.interpreter-network-egress'',
     ''cdl.c2.connected-to-indicator'']"

definition push_fire :: "DetectorFireEvent \<Rightarrow> Store \<Rightarrow> Store" where
  "push_fire event store =
     (let fires = s_detectorFires store @ [event]
      in store\<lparr>s_detectorFires := (if 200 < length fires then tl fires else fires)\<rparr>)"

text \<open>The entity of a fire: the third draw happens only when there are cases.\<close>

definition fire_entity :: "Store \<Rightarrow> rng \<Rightarrow> string result \<times> rng" where
  "fire_entity store r =
     (if s_order store = [] then (Inr ''unknown'', r)
      else case rng_int 0 (int (length (s_order store)) - 1) r of
             (Inl e, r') \<Rightarrow> (Inl e, r')
           | (Inr i, r') \<Rightarrow>
               (case Option.bind (js_index (s_order store) i) (map_of (s_cases store)) of
                  None \<Rightarrow> (Inl TypeError, r')
                | Some c \<Rightarrow> (Inr (c_primaryEntity c), r')))"

definition tick_fire :: "(nat \<Rightarrow> int) \<Rightarrow> Store \<Rightarrow> StoreEvent result \<times> Store" where
  "tick_fire clock store =
     (case rand_bind (rng_int 0 9999) (\<lambda>n. rand_bind (rng_pick RULE_IDS) (\<lambda>ruleId.
          rand_bind (fire_entity store) (\<lambda>entity. rand_return \<lparr>
            fe_id = live_id ''fire'' (clock 0) n, fe_atMs = clock 1, fe_ruleId = ruleId,
            fe_entity = entity\<rparr>))) (s_liveRng store) of
        (Inl e, r) \<Rightarrow> (Inl e, store\<lparr>s_liveRng := r\<rparr>)
      | (Inr event, r) \<Rightarrow> (Inr (FireEvent event), push_fire event (store\<lparr>s_liveRng := r\<rparr>)))"

definition tick :: "(rat \<Rightarrow> rat) \<Rightarrow> (nat \<Rightarrow> int) \<Rightarrow> Store \<Rightarrow> StoreEvent result \<times> Store" where
  "tick cube clock store =
     (case rng_next (s_liveRng store) of
        (Inl e, r) \<Rightarrow> (Inl e, store\<lparr>s_liveRng := r\<rparr>)
      | (Inr roll, r) \<Rightarrow>
          (let store = store\<lparr>s_liveRng := r\<rparr>
           in if roll < fl (6 / 100) then tick_new clock store
              else if roll < fl (26 / 100) then tick_update cube clock store
              else tick_fire clock store))"

section \<open>Statistics\<close>

definition open_status :: "CaseStatus \<Rightarrow> bool" where
  "open_status st \<longleftrightarrow> st \<in> set [Open, Investigating, Escalated]"

definition stat_trend :: "int \<Rightarrow> int \<Rightarrow> int list rand" where
  "stat_trend base spread =
     rand_replicate 12 (rand_bind (rng_int (- spread) spread) (\<lambda>n.
       rand_return (max 0 (js_round (of_int (base + n))))))"

definition stat_tiles :: "int \<Rightarrow> StatTile list rand" where
  "stat_tiles n =
     rand_bind (stat_trend n (max 1 (js_round (js_mul (of_int n) (fl (8 / 100)))))) (\<lambda>t1.
     rand_bind (stat_trend 50 8) (\<lambda>t2.
     rand_bind (stat_trend 300 30) (\<lambda>t3.
     rand_bind (stat_trend 32 5) (\<lambda>t4.
     rand_bind (stat_trend 5 3) (\<lambda>t5.
     rand_return
       [\<lparr>st_id = ''open-by-severity'', st_label = ''Open cases'', st_value = n, st_unit = CountUnit,
          st_delta = n - js_round (js_mul (of_int n) (fl (93 / 100))),
          st_baselineLabel = ''vs same time yesterday'', st_trend = t1, st_goodDirection = GoodDown\<rparr>,
        \<lparr>st_id = ''mttd'', st_label = ''Mean time to detect'', st_value = 47, st_unit = DurationUnit,
          st_delta = - 6, st_baselineLabel = ''vs trailing 7d'', st_trend = t2, st_goodDirection = GoodDown\<rparr>,
        \<lparr>st_id = ''mttr'', st_label = ''Mean time to respond'', st_value = 312, st_unit = DurationUnit,
          st_delta = 18, st_baselineLabel = ''vs trailing 7d'', st_trend = t3, st_goodDirection = GoodDown\<rparr>,
        \<lparr>st_id = ''autonomous-close-rate'', st_label = ''Autonomous-close rate'', st_value = 34,
          st_unit = PercentUnit, st_delta = 3, st_baselineLabel = ''vs trailing 30d'', st_trend = t4,
          st_goodDirection = GoodUp\<rparr>,
        \<lparr>st_id = ''drift-alerts-today'', st_label = ''Drift alerts today'', st_value = 6,
          st_unit = CountUnit, st_delta = 2, st_baselineLabel = ''vs yesterday'', st_trend = t5,
          st_goodDirection = GoodDown\<rparr>])))))"

definition computeStats :: "Store \<Rightarrow> StatTile list result" where
  "computeStats store =
     (case those (listCases store) of
        None \<Rightarrow> Inl TypeError
      | Some cases \<Rightarrow>
          (let n = int (length (filter (\<lambda>c. open_status (c_status c)) cases))
           in fst (stat_tiles n (rng_new (0x57a75 + n)))))"

section \<open>Response actions\<close>

definition listResponseActions :: "Store \<Rightarrow> ResponseAction list" where
  "listResponseActions store = map snd (s_responseActions store)"

definition getResponseAction :: "Store \<Rightarrow> string \<Rightarrow> ResponseAction option" where
  "getResponseAction store i = map_of (s_responseActions store) i"

definition decideResponseAction :: "string \<Rightarrow> ActionStatus \<Rightarrow> Store \<Rightarrow> ResponseAction option \<times> Store" where
  "decideResponseAction i status store =
     (case map_of (s_responseActions store) i of
        None \<Rightarrow> (None, store)
      | Some action \<Rightarrow>
          (let updated = action\<lparr>ra_status := status\<rparr>
           in (Some updated, store\<lparr>s_responseActions := AList.update i updated (s_responseActions store)\<rparr>)))"

definition blast_radius_draw :: "BlastRadius rand" where
  "blast_radius_draw =
     rand_bind (rng_int 1 6) (\<lambda>principalCount.
     rand_bind (rng_int 1 5) (\<lambda>hostCount.
     rand_bind (rng_int 0 4) (\<lambda>serviceCount.
     rand_bind (rng_bool (fl (2 / 10))) (\<lambda>isTier0.
     rand_bind (rand_replicate (nat principalCount)
       (rand_bind (picked (rng_pick [''jdoe'', ''asmith'', ''mchen'', ''rkumar'', ''svc-backup''])) (\<lambda>u.
          rand_return (''user:'' @ u)))) (\<lambda>principals.
     rand_bind (rand_replicate (nat hostCount)
       (rand_bind (picked (rng_pick [''WIN-CLIENT'', ''WIN-SRV'', ''LNX-WEB'', ''LNX-DB''])) (\<lambda>h.
          rand_bind (rng_int 1 99) (\<lambda>n. rand_return (h @ ''-'' @ show_int n))))) (\<lambda>hosts.
     rand_bind (rand_replicate (nat serviceCount)
       (picked (rng_pick [''billing-api'', ''auth-gateway'', ''case-search'', ''report-export'', ''ingest-collector''])))
       (\<lambda>services.
     rand_return \<lparr>br_affectedPrincipals = principals, br_affectedHosts = hosts,
       br_dependentServices = services, br_isTier0 = isTier0\<rparr>)))))))"

definition computeBlastRadius :: "ResponseAction \<Rightarrow> BlastRadius result" where
  "computeBlastRadius action =
     fst (blast_radius_draw (rng_new (int (length (ra_id action)) * 7919 + ra_proposedAtMs action)))"

section \<open>Timelines\<close>

text \<open>\<^verbatim>\<open>seed = (seed * 31 + caseId.charCodeAt(i)) | 0\<close>, a signed 32-bit number after every step.\<close>

definition timeline_seed :: "string \<Rightarrow> int" where
  "timeline_seed caseId =
     foldl (\<lambda>seed ch. sint (word_of_int (seed * 31 + int (of_char ch)) :: 32 word)) 0 caseId"

definition getCaseTimeline :: "Store \<Rightarrow> string \<Rightarrow> TimelineEvent list option result" where
  "getCaseTimeline store caseId =
     (case getCase store caseId of
        None \<Rightarrow> Inr None
      | Some c \<Rightarrow> (case generateTimelineEvents c (timeline_seed caseId) of
            Inl e \<Rightarrow> Inl e | Inr events \<Rightarrow> Inr (Some events)))"

section \<open>The invariant\<close>

interpretation server: case_feed s_cases s_order store_add store_set
  by unfold_locales (simp_all add: store_add_def store_set_def)

definition wf_action :: "Store \<Rightarrow> string \<times> ResponseAction \<Rightarrow> bool" where
  "wf_action store = (\<lambda>(k, a). ra_id a = k \<and> k = ''ra-'' @ ra_caseId a \<and> ra_caseId a \<in> set (s_order store))"

definition store_inv :: "Store \<Rightarrow> bool" where
  "store_inv store \<longleftrightarrow>
     s_order store \<noteq> [] \<and> feed_ok (s_cases store) (s_order store) c_id wf_case \<and>
     length (s_detectorFires store) \<le> 200 \<and>
     distinct (map fst (s_responseActions store)) \<and> list_all (wf_action store) (s_responseActions store)"

lemma store_inv_good: "store_inv store \<Longrightarrow> server.good store"
  by (simp add: store_inv_def server.good_def)

lemma listCases_listing: "listCases = server.listing"
  by (rule ext) (simp add: listCases_def server.listing_def)

lemma wf_action_mono: "wf_action s x \<Longrightarrow> set (s_order s) \<subseteq> set (s_order s') \<Longrightarrow> wf_action s' x"
  by (auto simp: wf_action_def)

lemma store_inv_rng [simp]: "store_inv (store\<lparr>s_liveRng := r\<rparr>) \<longleftrightarrow> store_inv store"
  by (simp add: store_inv_def wf_action_def)

lemma store_inv_add: "store_inv store \<Longrightarrow> wf_case c \<Longrightarrow> store_inv (store_add c store)"
  by (auto simp: store_inv_def store_add_def feed_ok_insert list_all_iff wf_action_def)

lemma store_inv_set: "store_inv store \<Longrightarrow> wf_case c \<Longrightarrow> c_id c \<in> set (s_order store) \<Longrightarrow> store_inv (store_set c store)"
  by (auto simp: store_inv_def store_set_def feed_ok_replace list_all_iff wf_action_def)

lemma store_inv_push: "store_inv store \<Longrightarrow> store_inv (push_fire event store)"
  by (auto simp: store_inv_def push_fire_def Let_def list_all_iff wf_action_def)

section \<open>Initialisation establishes it\<close>

lemma response_actions_loop_spec:
  assumes "distinct (map fst acts)" "list_all P acts" "length acts + length cs \<le> n"
    and "list_all (\<lambda>c. \<forall>kind. P (''ra-'' @ c_id c, proposed_action c kind)) cs"
  shows "rand_spec (response_actions_loop cs acts)
    (\<lambda>m. distinct (map fst m) \<and> list_all P m \<and> length m \<le> n)"
  using assms
proof (induction cs arbitrary: acts)
  case Nil
  then show ?case by (auto intro: rand_rules)
next
  case (Cons c cs)
  have len: "length (AList.update k v m) \<le> Suc (length m)" for k v and m :: "(string \<times> ResponseAction) list"
    by (induction m) auto
  have "rand_spec (response_actions_loop cs (AList.update (''ra-'' @ c_id c) (proposed_action c kind) acts))
      (\<lambda>m. distinct (map fst m) \<and> list_all P m \<and> length m \<le> n)" for kind
    using Cons.prems len [of "''ra-'' @ c_id c" "proposed_action c kind" acts]
    by (intro Cons.IH) (auto simp: distinct_keys_update intro: list_all_update)
  then show ?case by (auto simp: ACTION_KINDS_def intro!: rand_rules)
qed

definition fresh_action :: "Case list \<Rightarrow> string \<times> ResponseAction \<Rightarrow> bool" where
  "fresh_action cases = (\<lambda>(k, a). ra_status a = Pending \<and> ra_id a = k \<and>
     list_ex (\<lambda>c. k = ''ra-'' @ c_id c \<and> ra_caseId a = c_id c \<and> ra_target a = c_primaryEntity c \<and>
       High \<le> c_severity c) cases)"

lemma severity_high: "c_severity c = High \<or> c_severity c = Critical \<longleftrightarrow> High \<le> c_severity c"
  by (cases "c_severity c") (simp_all add: less_eq_Severity_def)

lemma buildResponseActions_spec:
  "rand_spec (buildResponseActions cases)
     (\<lambda>m. distinct (map fst m) \<and> list_all (fresh_action cases) m \<and> length m \<le> 40)"
  unfolding buildResponseActions_def
proof (rule response_actions_loop_spec)
  have "set (response_candidates cases) \<subseteq> {c \<in> set cases. High \<le> c_severity c}"
    by (auto simp: response_candidates_def severity_high dest!: in_set_takeD)
  then show "list_all (\<lambda>c. \<forall>kind. fresh_action cases (''ra-'' @ c_id c, proposed_action c kind))
      (response_candidates cases)"
    by (auto simp: list_all_iff fresh_action_def proposed_action_def list_ex_iff)
qed (simp_all add: response_candidates_def)

lemma initStore_of_cases:
  assumes "0 < n"
  shows "case initStore_of n nowMs of
     Inl e \<Rightarrow> e = PickUndefined
   | Inr s \<Rightarrow> store_inv s \<and> length (s_order s) = n \<and> distinct (s_order s) \<and>
       length (s_responseActions s) \<le> 40 \<and> list_all (\<lambda>(k, a). ra_status a = Pending) (s_responseActions s)"
proof (cases "generateCases n 20260910 nowMs")
  case (Inl e)
  then show ?thesis using generateCases_cases [of n 20260910 nowMs] by (simp add: initStore_of_def)
next
  case (Inr cs)
  then have cs: "length cs = n" "list_all wf_case cs" "distinct (map c_id cs)"
    using generateCases_cases [of n 20260910 nowMs] distinct_case_ids [of n] by simp_all
  obtain res r where b: "buildResponseActions cs (rng_new 0xc0ffee) = (res, r)" by fastforce
  show ?thesis
  proof (cases res)
    case (Inl e)
    with b rand_spec_errD [OF buildResponseActions_spec] \<open>generateCases _ _ _ = _\<close> show ?thesis
      by (auto simp: initStore_of_def)
  next
    case res: (Inr acts)
    with b rand_specD [OF buildResponseActions_spec] have acts: "distinct (map fst acts)"
      "list_all (fresh_action cs) acts" "length acts \<le> 40" by fastforce+
    have "cs \<noteq> []" using cs(1) assms by auto
    then show ?thesis
      using Inr b res cs acts feed_ok_js_map [OF cs(2), of c_id]
      by (auto simp: initStore_of_def store_inv_def list_all_iff fresh_action_def wf_action_def list_ex_iff)
  qed
qed

section \<open>Every tick keeps it\<close>

text \<open>What is assumed of \<^verbatim>\<open>x ** 3\<close>: a number between 0 and 1 has a cube that is not negative.\<close>

definition cube_nonneg :: "(rat \<Rightarrow> rat) \<Rightarrow> bool" where
  "cube_nonneg cube \<longleftrightarrow> (\<forall>v. 0 \<le> v \<and> v \<le> 1 \<longrightarrow> 0 \<le> cube v)"

text \<open>What one tick did, read off the event it returned.\<close>

fun event_effect :: "Store \<Rightarrow> StoreEvent \<Rightarrow> Store \<Rightarrow> bool" where
  "event_effect s (NewEvent c) s' \<longleftrightarrow>
     s' = (store_add c s)\<lparr>s_liveRng := s_liveRng s'\<rparr> \<and> wf_case c \<and> c_createdAtMs c = c_updatedAtMs c"
| "event_effect s (UpdateEvent c) s' \<longleftrightarrow>
     s' = (store_set c s)\<lparr>s_liveRng := s_liveRng s'\<rparr> \<and> wf_case c \<and> c_riskScore c \<le> 10000 \<and>
     (\<exists>old. map_of (s_cases s) (c_id c) = Some old \<and> c_id c \<in> set (s_order s) \<and>
        \<bar>c_riskScore c - c_riskScore old\<bar> \<le> 151 \<and> c_status c = c_status old \<and>
        (c_disposition c = Incomplete \<longleftrightarrow> c_disposition old = Incomplete))"
| "event_effect s (FireEvent e) s' \<longleftrightarrow>
     s' = (push_fire e s)\<lparr>s_liveRng := s_liveRng s'\<rparr> \<and>
     (case fe_ruleId e of Some r \<Rightarrow> r \<in> set RULE_IDS | None \<Rightarrow> s_liveRng s' = rng_step (- 1))"

definition only_rng :: "Store \<Rightarrow> Store \<Rightarrow> bool" where
  "only_rng s s' \<longleftrightarrow> s' = s\<lparr>s_liveRng := s_liveRng s'\<rparr>"

definition tick_result :: "Store \<Rightarrow> StoreEvent result \<times> Store \<Rightarrow> bool" where
  "tick_result s out = (case out of
     (Inl e, s') \<Rightarrow> only_rng s s' \<and> 
       (e = PickUndefined \<or> e = TypeError \<and> (length (s_order s) \<le> 2 ^ 33 \<longrightarrow> s_liveRng s' = - 1))
   | (Inr ev, s') \<Rightarrow> event_effect s ev s')"

lemma tick_result_rng: "tick_result (s\<lparr>s_liveRng := r\<rparr>) out \<Longrightarrow> tick_result s out"
  by (auto simp: tick_result_def only_rng_def store_add_def store_set_def push_fire_def Let_def
      split: prod.splits sum.splits elim!: event_effect.elims)

lemma tick_new_result: "tick_result s (tick_new clock s)"
proof -
  define m where "m = rand_bind (rng_int 0 9999) (\<lambda>n. rand_bind (rng_int 1 (2 ^ 31 - 1)) (\<lambda>seed. rand_return (n, seed)))"
  have "rand_spec m (\<lambda>_. True)" unfolding m_def by (intro rand_rules) auto
  then have e: "m x = (Inl e, r) \<Longrightarrow> e = PickUndefined" for x e r by (auto dest: rand_spec_errD)
  have gE: "generateCases 1 seed now = Inl e \<Longrightarrow> e = PickUndefined" for seed now e
    using generateCases_cases [of 1 seed now] by simp
  have gI: "generateCases 1 seed now = Inr (c # cs) \<Longrightarrow> wf_case c" for seed now c cs
    using generateCases_cases [of 1 seed now] by simp
  have wf: "wf_case (c\<lparr>c_id := i, c_createdAtMs := a, c_updatedAtMs := b\<rparr>) \<longleftrightarrow> wf_case c" for c i a b
    by (simp add: wf_case_def)
  show ?thesis
    unfolding tick_new_def m_def [symmetric] tick_result_def only_rng_def
    by (auto simp: Let_def wf store_add_def split: prod.splits sum.splits list.splits dest!: gE [unfolded One_nat_def] gI [unfolded One_nat_def] e)
qed

lemma tick_case_wf:
  assumes "wf_case c" "\<bar>delta\<bar> \<le> 151"
  shows "wf_case (tick_case c delta now)" "\<bar>c_riskScore (tick_case c delta now) - c_riskScore c\<bar> \<le> 151"
  using assms by (auto simp: wf_case_def tick_case_def Let_def)

lemma biased_index_range:
  assumes "cube_nonneg cube" "0 \<le> v" "v \<le> 1" "xs \<noteq> []"
  shows "\<exists>x \<in> set xs. js_index xs (biased_index cube v (length xs)) = Some x"
proof -
  have "0 \<le> cube v" using assms by (simp add: cube_nonneg_def)
  then have "0 \<le> js_mul (cube v) (of_nat (length xs))" by (simp add: js_mul_def dbl.rnd_nonneg)
  then have "0 \<le> biased_index cube v (length xs)" "biased_index cube v (length xs) < int (length xs)"
    using assms(4) by (simp_all add: biased_index_def js_floor_def Suc_le_eq)
  then show ?thesis by (auto simp: js_index_def)
qed

lemma tick_update_ok:
  assumes "store_inv s" "cube_nonneg cube"
  shows "\<exists>c s'. tick_update cube clock s = (Inr (UpdateEvent c), s') \<and> event_effect s (UpdateEvent c) s'"
proof -
  obtain v r where v: "rng_next (s_liveRng s) = (Inr v, r)" "0 \<le> v" "v \<le> 1"
    using rng_value_bounds by (simp add: rng_next_def Let_def)
  have "s_order s \<noteq> []" using assms(1) by (simp add: store_inv_def)
  from biased_index_range [OF assms(2) v(2,3) this] obtain i where
    i: "i \<in> set (s_order s)" "js_index (s_order s) (biased_index cube v (length (s_order s))) = Some i" by blast
  then obtain c where c: "map_of (s_cases s) i = Some c" "c_id c = i" "wf_case c"
    using server.good_get [OF store_inv_good [OF assms(1)]] by blast
  obtain d r' where d: "rng_int (- 150) 150 r = (Inr d, r')" by (simp add: rng_int_run)
  have "- 150 \<le> d \<and> d \<le> 150 + 1" by (rule rand_specD [OF rand_spec_int d]) simp_all
  then have b: "\<bar>d\<bar> \<le> 151" by linarith
  have "tick_update cube clock s =
      (Inr (UpdateEvent (tick_case c d (clock 0))), store_set (tick_case c d (clock 0)) (s\<lparr>s_liveRng := r'\<rparr>))"
    using v i c d by (simp add: tick_update_def Let_def)
  moreover have "c_riskScore (tick_case c d (clock 0)) \<le> 10000" "c_id (tick_case c d (clock 0)) = i"
    "c_status (tick_case c d (clock 0)) = c_status c"
    "c_disposition (tick_case c d (clock 0)) = Incomplete \<longleftrightarrow> c_disposition c = Incomplete"
    using c by (simp_all add: tick_case_def Let_def)
  ultimately show ?thesis
    using c i tick_case_wf [OF c(3) b, of "clock 0"] by (simp add: store_set_def)
qed

lemma tick_update_result:
  assumes "store_inv s" "cube_nonneg cube"
  shows "tick_result s (tick_update cube clock s)"
  using tick_update_ok [OF assms, of clock] by (auto simp: tick_result_def)

lemma fire_entity_error:
  assumes "store_inv s" "fire_entity s r = (Inl e, r')"
  shows "e = TypeError \<and> (length (s_order s) \<le> 2 ^ 33 \<longrightarrow> r' = - 1)"
proof -
  have ne: "s_order s \<noteq> []" using assms(1) by (simp add: store_inv_def)
  obtain v where v: "rng_int 0 (int (length (s_order s)) - 1) r = (Inr v, rng_step r)" by (simp add: rng_int_run)
  have lookup: "map_of (s_cases s) i \<noteq> None" if "js_index (s_order s) v = Some i" for i
    using server.good_get [OF store_inv_good [OF assms(1)] js_index_in_set [OF that]] by auto
  with v assms(2) ne have err: "e = TypeError" "r' = rng_step r" and none: "js_index (s_order s) v = None"
    by (auto simp: fire_entity_def split: option.splits bind_splits)
  have "rng_step r = - 1" if "length (s_order s) \<le> 2 ^ 33"
  proof (rule ccontr)
    assume a: "rng_step r \<noteq> - 1"
    from rng_int_index_cases [OF ne that, of r] v a have "0 \<le> v" "nat v < length (s_order s)" by auto
    with none show False by (simp add: js_index_None_iff)
  qed
  with err show ?thesis by blast
qed

lemma tick_fire_error:
  assumes "store_inv s" "tick_fire clock s = (Inl e, s')"
  shows "e = TypeError"
proof -
  obtain n r1 where "rng_int 0 9999 (s_liveRng s) = (Inr n, r1)" by (simp add: rng_int_run)
  moreover obtain x where "rng_pick RULE_IDS r1 = (Inr x, rng_step r1)"
    by (simp add: rng_pick_def rand_bind_def rand_return_def rng_int_run)
  ultimately show ?thesis
    using assms(2) fire_entity_error [OF assms(1), of "rng_step r1"]
    by (auto simp: tick_fire_def rand_bind_def rand_return_def split: sum.splits prod.splits)
qed

lemma tick_fire_result:
  assumes "store_inv s"
  shows "tick_result s (tick_fire clock s)"
proof -
  have "RULE_IDS \<noteq> []" "length RULE_IDS \<le> 2 ^ 33" by (simp_all add: RULE_IDS_def)
  note pick = rng_pick_run [OF this]
  obtain n r1 where n: "rng_int 0 9999 (s_liveRng s) = (Inr n, r1)" by (simp add: rng_int_run)
  obtain x where x: "rng_pick RULE_IDS r1 = (Inr x, rng_step r1)"
    "if rng_step r1 = - 1 then x = None else \<exists>a \<in> set RULE_IDS. x = Some a" using pick by blast
  obtain q r3 where q: "fire_entity s (rng_step r1) = (q, r3)" by fastforce
  note run = tick_fire_def rand_bind_def rand_return_def n x(1) q
  show ?thesis
  proof (cases q)
    case (Inl e)
    with q fire_entity_error [OF assms] have "e = TypeError \<and> (length (s_order s) \<le> 2 ^ 33 \<longrightarrow> r3 = - 1)" by blast
    with Inl show ?thesis by (simp add: run tick_result_def only_rng_def)
  next
    case (Inr entity)
    have "r3 = rng_step (rng_step r1)"
      using q Inr assms by (auto simp: fire_entity_def store_inv_def rng_int_run split: option.splits)
    with Inr x(2) show ?thesis
      by (auto simp: run tick_result_def push_fire_def Let_def split: option.split if_splits)
  qed
qed

lemma tick_spec:
  assumes "store_inv s" "cube_nonneg cube"
  shows "tick_result s (tick cube clock s)"
proof -
  let ?r = "rng_step (s_liveRng s)" and ?s = "s\<lparr>s_liveRng := rng_step (s_liveRng s)\<rparr>"
  have "tick cube clock s =
    (if rng_value ?r < fl (6 / 100) then tick_new clock ?s
     else if rng_value ?r < fl (26 / 100) then tick_update cube clock ?s else tick_fire clock ?s)"
    by (simp add: tick_def rng_next_def Let_def)
  moreover have "tick_result ?s (tick_new clock ?s)" "tick_result ?s (tick_update cube clock ?s)"
    "tick_result ?s (tick_fire clock ?s)"
    using assms by (simp_all add: tick_new_result tick_update_result tick_fire_result)
  ultimately show ?thesis by (simp add: tick_result_rng)
qed

text \<open>Where the model ends: only in the new-case branch, with the case that branch generates.\<close>

lemma tick_new_boundary:
  assumes "tick_new clock s = (Inl e, s')"
  shows "\<exists>seed. generateCases 1 seed (clock 1) = Inl PickUndefined"
proof -
  obtain n r where n: "rng_int 0 9999 (s_liveRng s) = (Inr n, r)" by (simp add: rng_int_run)
  obtain seed r' where seed: "rng_int 1 (2 ^ 31 - 1) r = (Inr seed, r')" by (simp add: rng_int_run)
  from assms n seed show ?thesis
    using generateCases_cases [of 1 seed "clock 1"]
    by (auto simp: tick_new_def rand_bind_def rand_return_def Let_def split: sum.splits list.splits)
qed

lemma tick_boundary:
  assumes "store_inv s" "cube_nonneg cube" "tick cube clock s = (Inl PickUndefined, s')"
  shows "rng_value (rng_step (s_liveRng s)) < fl (6 / 100) \<and> (\<exists>seed. generateCases 1 seed (clock 1) = Inl PickUndefined)"
proof -
  let ?r = "rng_step (s_liveRng s)" and ?s = "s\<lparr>s_liveRng := rng_step (s_liveRng s)\<rparr>"
  have inv: "store_inv ?s" using assms(1) by simp
  have "tick_update cube clock ?s \<noteq> (Inl PickUndefined, s')" using tick_update_ok [OF inv assms(2), of clock] by auto
  moreover have "tick_fire clock ?s \<noteq> (Inl PickUndefined, s')" using tick_fire_error [OF inv] by blast
  moreover have "tick cube clock s =
    (if rng_value ?r < fl (6 / 100) then tick_new clock ?s
     else if rng_value ?r < fl (26 / 100) then tick_update cube clock ?s else tick_fire clock ?s)"
    by (simp add: tick_def rng_next_def Let_def)
  ultimately have "rng_value ?r < fl (6 / 100)" "tick_new clock ?s = (Inl PickUndefined, s')"
    using assms(3) by (simp_all split: if_splits)
  then show ?thesis using tick_new_boundary by blast
qed

lemma tick_result_inv:
  assumes "tick_result s (out, s')" "store_inv s"
  shows "store_inv s'"
proof (cases out)
  case (Inl e)
  with assms have "s' = s\<lparr>s_liveRng := s_liveRng s'\<rparr>" by (simp add: tick_result_def only_rng_def)
  with assms(2) store_inv_rng show ?thesis by metis
next
  case (Inr ev)
  with assms have eff: "event_effect s ev s'" by (simp add: tick_result_def)
  show ?thesis
  proof (cases ev)
    case (UpdateEvent c)
    with eff have "s' = (store_set c s)\<lparr>s_liveRng := s_liveRng s'\<rparr>" "wf_case c" "c_id c \<in> set (s_order s)" by auto
    with assms(2) store_inv_rng store_inv_set show ?thesis by metis
  next
    case (NewEvent c)
    with eff have "s' = (store_add c s)\<lparr>s_liveRng := s_liveRng s'\<rparr>" "wf_case c" by auto
    with assms(2) store_inv_rng store_inv_add show ?thesis by metis
  next
    case (FireEvent e)
    with eff have "s' = (push_fire e s)\<lparr>s_liveRng := s_liveRng s'\<rparr>" by auto
    with assms(2) store_inv_rng store_inv_push show ?thesis by metis
  qed
qed

section \<open>Reachable stores\<close>

inductive store_step :: "(rat \<Rightarrow> rat) \<Rightarrow> Store \<Rightarrow> Store \<Rightarrow> bool" for cube where
  step_tick: "tick cube clock s = (out, s') \<Longrightarrow> store_step cube s s'"
| step_decide: "decideResponseAction i status s = (out, s') \<Longrightarrow> store_step cube s s'"

text \<open>
  The states of a server that started with \<open>n\<close> cases, as long as no case is drawn with a missed
  pick: the model follows neither an initialisation nor a tick that ends in \<^const>\<open>PickUndefined\<close>.
\<close>

inductive reachable_store :: "(rat \<Rightarrow> rat) \<Rightarrow> nat \<Rightarrow> Store \<Rightarrow> bool" for cube n where
  reach_init: "initStore_of n nowMs = Inr s \<Longrightarrow> reachable_store cube n s"
| reach_tick: "reachable_store cube n s \<Longrightarrow> tick cube clock s = (out, s') \<Longrightarrow> out \<noteq> Inl PickUndefined \<Longrightarrow>
    reachable_store cube n s'"
| reach_decide: "reachable_store cube n s \<Longrightarrow> decideResponseAction i status s = (out, s') \<Longrightarrow>
    reachable_store cube n s'"

inductive_cases store_stepE: "store_step cube s s'"

lemma decide_inv:
  assumes "decideResponseAction i status s = (out, s')" "store_inv s"
  shows "store_inv s'"
proof (cases "map_of (s_responseActions s) i")
  case None
  with assms show ?thesis by (simp add: decideResponseAction_def)
next
  case (Some a)
  from map_of_SomeD [OF Some] assms(2) have "wf_action s (i, a)" by (auto simp: store_inv_def list_all_iff)
  then have w: "wf_action s (i, a\<lparr>ra_status := status\<rparr>)" by (simp add: wf_action_def)
  have s': "s' = s\<lparr>s_responseActions := AList.update i (a\<lparr>ra_status := status\<rparr>) (s_responseActions s)\<rparr>"
    using assms(1) Some by (simp add: decideResponseAction_def Let_def)
  have "wf_action s' = wf_action s" by (rule ext) (simp add: s' wf_action_def)
  with s' w assms(2) show ?thesis
    by (auto simp: store_inv_def distinct_keys_update intro: list_all_update)
qed

lemma store_step_inv: "store_step cube s s' \<Longrightarrow> cube_nonneg cube \<Longrightarrow> store_inv s \<Longrightarrow> store_inv s'"
  by (erule store_stepE) (metis tick_spec tick_result_inv, metis decide_inv)

lemma reachable_store_inv:
  assumes "reachable_store cube n s" "cube_nonneg cube" "0 < n"
  shows "store_inv s"
  using assms(1)
proof (induction rule: reachable_store.induct)
  case (reach_init nowMs s)
  then show ?case using initStore_of_cases [OF assms(3), of nowMs] by simp
next
  case (reach_tick s clock out s')
  then show ?case using store_step_inv step_tick assms(2) by blast
next
  case (reach_decide s i status out s')
  then show ?case using store_step_inv step_decide assms(2) by blast
qed

section \<open>Properties\<close>

text \<open>
  C14: in every state the server can reach, from initialisation with any positive number of cases
  (\<^const>\<open>CASE_COUNT\<close> in the code) through any sequence of ticks and decisions in which no case is drawn
  with a missed pick, the listing has no hole: each identifier of the order has its case, whose identifier,
  severity, disposition and tactics are consistent; the fire ring holds at most 200 events; every
  response action is stored under its own identifier and belongs to a listed case.
\<close>

theorem reachable_store_consistent:
  assumes "reachable_store cube n s" "cube_nonneg cube" "0 < n"
  shows "store_inv s \<and> (\<exists>cs. listCases s = map Some cs \<and> map c_id cs = s_order s \<and> list_all wf_case cs)"
proof -
  have inv: "store_inv s" using assms by (rule reachable_store_inv)
  from server.listing_total [OF store_inv_good [OF inv]] inv show ?thesis by (simp add: listCases_listing)
qed

definition sample_cube :: "rat \<Rightarrow> rat" where
  "sample_cube v = v * v * v"

lemma sample_cube_nonneg: "cube_nonneg sample_cube"
  by (simp add: cube_nonneg_def sample_cube_def)

text \<open>
  A server started with one case: the fourteen draws of that case under the seed of the code, none
  of which misses, and the first tick, a detector fire.
\<close>

lemma init_steps:
  "rng_step 20260910 = 573046006" "rng_step 573046006 = 1788024682" "rng_step 1788024682 = 129251829"
  "rng_step 129251829 = 2446454704" "rng_step 684756419 = 343334807" "rng_step 343334807 = 1057968885"
  "rng_step 1057968885 = 2137166845" "rng_step 2137166845 = 2394524435" "rng_step 2394524435 = 1152199486"
  "rng_step 1152199486 = 3633963195" "rng_step 3633963195 = 1968221564" "rng_step 2132589923 = 4272262747"
  "rng_step 2446454704 = 684756419" "rng_step 1968221564 = 2132589923"
  by code_simp+

lemma init_values1:
  "fst (rng_int 0 5 20260910) = Inr 0" "fst (rng_int 0 4 573046006) = Inr 2"
  "fst (rng_int 1 99 1788024682) = Inr 3" "fst (rng_int 0 10000 129251829) = Inr 5696"
  by code_simp+

lemma init_values2:
  "fst (rng_int 1 2 684756419) = Inr 1" "fst (rng_int 0 11 343334807) = Inr 2"
  "fst (rng_int 60000 1814400000 1057968885) = Inr 902871832" "fst (rng_int 0 7 2137166845) = Inr 4"
  by code_simp+

lemma init_values3:
  "fst (rng_int 0 2 2394524435) = Inr 0" "fst (rng_int 1 12 1152199486) = Inr 11"
  "fst (rng_int 0 3600000 3633963195) = Inr 1649744" "fst (rng_int 0 4 2132589923) = Inr 4"
  by code_simp+

lemma rng_int_draw: "fst (rng_int lo hi s) = Inr v \<Longrightarrow> rng_int lo hi s = (Inr v, rng_step s)"
  by (simp add: rng_int_run)

lemmas init_draws = init_steps init_values1 [THEN rng_int_draw] init_values2 [THEN rng_int_draw] init_values3 [THEN rng_int_draw]

lemma init_case: "\<exists>c. generateCase 0 nowMs 20260910 = (Inr c, 4272262747) \<and> c_severity c = Medium \<and> c_id c = ''case-'' @ to_radix 36 0"
proof -
  note run = rand_bind_def rand_return_def picked_def rng_pick_def js_index_def init_draws
  have "randomEntity 20260910 = (Inr (''LNX-WEB'' @ ''-'' @ pad_start 2 CHR ''0'' (show_int 3), HostEntity), 129251829)"
    by (simp add: randomEntity_def ENTITY_TYPES_def HOST_NAMES_def run)
  moreover have "tacticsForSeverity Medium 684756419 = (Inr [Persistence], 1057968885)"
    by (simp add: tacticsForSeverity_def pickedN_def TACTICS_def run)
  moreover have "\<exists>st. statusForSeverity Medium 1968221564 = (Inr st, 2132589923)"
    by (simp add: statusForSeverity_def rng_next_def Let_def run)
  moreover have "severityForScore 5696 = Medium" by (simp add: severityForScore_def)
  ultimately show ?thesis
    by (auto simp: generateCase_def TITLE_TEMPLATES_def TENANTS_def ASSIGNEES_def rng_bool_def rng_next_def Let_def run)
qed

lemma fire_steps:
  "rng_step (rng_new 0xc0ffee) = 4170923632" "rng_step 4170923632 = 1979402906" "rng_step 1979402906 = 2309528846"
  "rng_step 2309528846 = 3677032778" "\<not> rng_value 4170923632 < fl (6 / 100)" "\<not> rng_value 4170923632 < fl (26 / 100)"
  by code_simp+

lemma fire_values: "fst (rng_int 0 4 1979402906) = Inr 2" "fst (rng_int 0 0 2309528846) = Inr 0"
  by code_simp+

lemmas fire_draws = fire_steps fire_values [THEN rng_int_draw]

lemma init_one: "\<exists>s c. initStore_of 1 nowMs = Inr s \<and> s_cases s = [(c_id c, c)] \<and> s_order s = [c_id c] \<and>
    s_liveRng s = rng_new 0xc0ffee"
proof -
  obtain c where c: "generateCase 0 nowMs 20260910 = (Inr c, 4272262747)" "c_severity c = Medium"
    using init_case by blast
  have "generateCases 1 20260910 nowMs = Inr [c]"
    by (simp add: generateCases_def rng_new_def c rand_bind_def rand_return_def)
  then show ?thesis
    using c(2) by (auto simp: initStore_of_def buildResponseActions_def response_candidates_def rand_return_def js_map_of_def)
qed

lemma init_tick:
  assumes "s_cases s = [(c_id c, c)]" "s_order s = [c_id c]" "s_liveRng s = rng_new 0xc0ffee"
  shows "\<exists>ev s'. tick cube clock s = (Inr (FireEvent ev), s')"
  using assms fire_draws rng_int_run [of 0 9999 4170923632]
  by (simp add: tick_def tick_fire_def fire_entity_def rng_next_def Let_def rand_bind_def rand_return_def rng_pick_def
      js_index_def RULE_IDS_def)

theorem reachable_store_consistent_witness:
  "\<exists>s ev s'. initStore_of 1 1767225600000 = Inr s \<and> tick sample_cube (\<lambda>k. 1767225600700) s = (Inr (FireEvent ev), s') \<and>
     reachable_store sample_cube 1 s' \<and> store_inv s'"
proof -
  obtain s c where s: "initStore_of 1 1767225600000 = Inr s" "s_cases s = [(c_id c, c)]" "s_order s = [c_id c]"
    "s_liveRng s = rng_new 0xc0ffee" using init_one by blast
  obtain ev s' where t: "tick sample_cube (\<lambda>k. 1767225600700) s = (Inr (FireEvent ev), s')"
    using init_tick [OF s(2-4)] by blast
  have r: "reachable_store sample_cube 1 s'"
    by (rule reach_tick [OF reach_init [OF s(1)] t]) simp
  from reachable_store_consistent [OF r sample_cube_nonneg] s(1) t r show ?thesis by auto
qed


definition sample_store :: Store where
  "sample_store = \<lparr>s_cases = [(''case-0'', sample_case)], s_order = [''case-0''], s_detectorFires = [],
     s_responseActions = [], s_liveRng = 960, s_ingestRatePerSec = 40\<rparr>"

lemma sample_store_inv: "store_inv sample_store"
  by (simp add: store_inv_def sample_store_def feed_ok_def wf_case_def sample_case_def
      severityForScore_def dispositionFor_def less_eq_Tactic_def)

lemma sample_draws:
  "rng_step 960 = 259554428" "rng_step 259554428 = 503872743" "rng_step 503872743 = 587600269"
  "\<not> rng_value 259554428 < fl (6 / 100)" "rng_value 259554428 < fl (26 / 100)"
  "biased_index sample_cube (rng_value 503872743) 1 = 0"
  "fst (rng_int (- 150) 150 503872743) = Inr (- 109)"
  by code_simp+

lemma sample_tick:
  "tick sample_cube (\<lambda>k. 9000) sample_store =
     (Inr (UpdateEvent (tick_case sample_case (- 109) 9000)),
      store_set (tick_case sample_case (- 109) 9000) (sample_store\<lparr>s_liveRng := 587600269\<rparr>))"
proof -
  have "rng_int (- 150) 150 503872743 = (Inr (- 109), 587600269)"
    using sample_draws by (simp add: rng_int_run)
  then show ?thesis
    using sample_draws
    by (simp add: tick_def tick_update_def rng_next_def Let_def sample_store_def js_index_def)
qed


end
