(* ===== verification/Merkle.thy ===== *)
theory Merkle
  imports Prelude
begin

text \<open>
  \<^verbatim>\<open>web/src/lib/kernel/merkle.ts\<close>: the Merkle tree over evidence identifiers, inclusion proofs and
  the check the browser repeats. \<open>blake3\<close> is the function of the package \<^verbatim>\<open>@noble/hashes\<close>, a
  parameter of every definition that hashes; what the theorems use of it are two named
  hypotheses, that a digest has 32 bytes (\<open>digest_length\<close>) and that the finitely many inputs at
  hand do not collide (\<open>collision_free\<close>). A \<^verbatim>\<open>Uint8Array\<close> is a list of bytes, a number stored
  into one is reduced modulo 256.
\<close>

unbundle bit_operations_syntax

section \<open>Bytes, hexadecimal strings and UTF-8\<close>

type_synonym byte = "8 word"
type_synonym bytes = "byte list"
type_synonym hash_fun = "bytes \<Rightarrow> bytes"

definition DOMAIN_LEAF :: byte where "DOMAIN_LEAF = 0"
definition DOMAIN_INTERNAL :: byte where "DOMAIN_INTERNAL = 1"
definition DOMAIN_PAD :: byte where "DOMAIN_PAD = 2"

record MerkleProofStep =
  ms_hash :: string
  ms_isLeft :: bool

record InclusionProof =
  ip_leafIndex :: nat
  ip_steps :: "MerkleProofStep list"
  ip_root :: string

record MerkleTree =
  mt_root :: string
  mt_levels :: "bytes list list"

definition hex_digit_value :: "char \<Rightarrow> nat option" where
  "hex_digit_value c =
     (let n = of_char c :: nat in
      if 48 \<le> n \<and> n \<le> 57 then Some (n - 48)
      else if 97 \<le> n \<and> n \<le> 102 then Some (n - 87)
      else if 65 \<le> n \<and> n \<le> 70 then Some (n - 55)
      else None)"

definition js_space :: "char \<Rightarrow> bool" where
  "js_space c \<longleftrightarrow> (of_char c :: nat) \<in> {9, 10, 11, 12, 13, 32, 160}"

text \<open>The digits \<^verbatim>\<open>parseInt\<close> reads: the longest prefix of hexadecimal digits.\<close>

fun hex_prefix :: "string \<Rightarrow> nat list" where
  "hex_prefix [] = []"
| "hex_prefix (c # cs) = (case hex_digit_value c of None \<Rightarrow> [] | Some d \<Rightarrow> d # hex_prefix cs)"

text \<open>\<^verbatim>\<open>parseInt(s, 16)\<close>; \<^const>\<open>None\<close> is \<^verbatim>\<open>NaN\<close>.\<close>

definition parseInt16 :: "string \<Rightarrow> int option" where
  "parseInt16 s =
     (let t = dropWhile js_space s;
          neg = (take 1 t = ''-'');
          u = (if take 1 t = ''-'' \<or> take 1 t = ''+'' then drop 1 t else t);
          v = (if take 2 u = ''0x'' \<or> take 2 u = ''0X'' then drop 2 u else u);
          ds = hex_prefix v
      in if ds = [] then None
         else Some ((if neg then - 1 else 1) * int (radix_value 16 ds)))"

definition hex_byte :: "string \<Rightarrow> byte" where
  "hex_byte s = (case parseInt16 s of None \<Rightarrow> 0 | Some n \<Rightarrow> word_of_int n)"

definition hexToBytes :: "string \<Rightarrow> bytes" where
  "hexToBytes hex = map (\<lambda>i. hex_byte (take 2 (drop (i * 2) hex))) [0..<length hex div 2]"

definition byte_hex :: "byte \<Rightarrow> string" where
  "byte_hex b = pad_start 2 CHR ''0'' (to_radix 16 (unat b))"

definition bytesToHex :: "bytes \<Rightarrow> string" where
  "bytesToHex bs = concat (map byte_hex bs)"

definition concat_bytes :: "bytes list \<Rightarrow> bytes" where
  "concat_bytes parts = concat parts"

text \<open>\<^verbatim>\<open>new TextEncoder().encode(s)\<close> for code units below 256.\<close>

definition utf8_char :: "char \<Rightarrow> bytes" where
  "utf8_char c =
     (let n = of_char c :: nat in
      if n < 128 then [of_nat n] else [of_nat (192 + n div 64), of_nat (128 + n mod 64)])"

definition utf8 :: "string \<Rightarrow> bytes" where
  "utf8 s = concat (map utf8_char s)"

section \<open>Hashing the nodes\<close>

definition leaf_input :: "string \<Rightarrow> bytes" where
  "leaf_input evidenceId = concat_bytes [[DOMAIN_LEAF], utf8 evidenceId]"

definition internal_input :: "bytes \<Rightarrow> bytes \<Rightarrow> bytes" where
  "internal_input left right = concat_bytes [[DOMAIN_INTERNAL], left, right]"

definition leafHash :: "hash_fun \<Rightarrow> string \<Rightarrow> bytes" where
  "leafHash blake3 evidenceId = blake3 (leaf_input evidenceId)"

definition internalHash :: "hash_fun \<Rightarrow> bytes \<Rightarrow> bytes \<Rightarrow> bytes" where
  "internalHash blake3 left right = blake3 (internal_input left right)"

text \<open>
  \<^verbatim>\<open>index >>> k\<close> converts \<^verbatim>\<open>index\<close> to 32 bits and takes the shift count modulo 32.
\<close>

definition js_ushr :: "int \<Rightarrow> nat \<Rightarrow> 32 word" where
  "js_ushr x k = drop_bit (k mod 32) (word_of_int x)"

definition pad_input :: "nat \<Rightarrow> bytes" where
  "pad_input index =
     DOMAIN_PAD # map (\<lambda>i. ucast (js_ushr (int index) (56 - 8 * i) AND 0xff)) [0..<8]"

definition padHash :: "hash_fun \<Rightarrow> nat \<Rightarrow> bytes" where
  "padHash blake3 index = blake3 (pad_input index)"

function next_power_from :: "nat \<Rightarrow> nat \<Rightarrow> nat" where
  "next_power_from p n = (if 0 < p \<and> p < n then next_power_from (p * 2) n else p)"
  by pat_completeness auto
termination
  by (relation "measure (\<lambda>(p, n). n - p)") auto

declare next_power_from.simps [simp del]

definition nextPowerOfTwo :: "nat \<Rightarrow> nat" where
  "nextPowerOfTwo n = next_power_from 1 n"

section \<open>Building, proving, verifying\<close>

definition leaf_level :: "hash_fun \<Rightarrow> string list \<Rightarrow> bytes list" where
  "leaf_level blake3 evidenceIds =
     map (leafHash blake3) evidenceIds
     @ map (padHash blake3) [length evidenceIds..<nextPowerOfTwo (length evidenceIds)]"

definition next_level :: "hash_fun \<Rightarrow> bytes list \<Rightarrow> bytes list" where
  "next_level blake3 cur =
     map (\<lambda>i. internalHash blake3 (cur ! (2 * i)) (cur ! (2 * i + 1))) [0..<length cur div 2]"

function merkle_levels :: "hash_fun \<Rightarrow> bytes list \<Rightarrow> bytes list list" where
  "merkle_levels blake3 cur =
     (if 1 < length cur then cur # merkle_levels blake3 (next_level blake3 cur) else [cur])"
  by pat_completeness auto
termination
  by (relation "measure (\<lambda>(h, cur). length cur)") (auto simp: next_level_def)

declare merkle_levels.simps [simp del]

definition buildMerkleTree :: "hash_fun \<Rightarrow> string list \<Rightarrow> MerkleTree result" where
  "buildMerkleTree blake3 evidenceIds =
     (if evidenceIds = [] then Inl (Thrown ''buildMerkleTree: empty evidence set'')
      else let levels = merkle_levels blake3 (leaf_level blake3 evidenceIds)
           in Inr \<lparr>mt_root = bytesToHex (last levels ! 0), mt_levels = levels\<rparr>)"

text \<open>
  The loop of \<^verbatim>\<open>proveInclusion\<close> visits every level but the last; the hash of a sibling that does
  not exist throws.
\<close>

fun prove_steps :: "bytes list list \<Rightarrow> nat \<Rightarrow> MerkleProofStep list result" where
  "prove_steps (nodes # upper # levels) idx =
     (let isLeft = (idx mod 2 \<noteq> 0); sib = (if isLeft then int idx - 1 else int idx + 1)
      in case js_index nodes sib of
           None \<Rightarrow> Inl TypeError
         | Some h \<Rightarrow> (case prove_steps (upper # levels) (idx div 2) of
               Inl e \<Rightarrow> Inl e
             | Inr steps \<Rightarrow> Inr (\<lparr>ms_hash = bytesToHex h, ms_isLeft = isLeft\<rparr> # steps)))"
| "prove_steps _ idx = Inr []"

definition proveInclusion :: "MerkleTree \<Rightarrow> nat \<Rightarrow> InclusionProof result" where
  "proveInclusion tree leafIndex =
     (case prove_steps (mt_levels tree) leafIndex of
        Inl e \<Rightarrow> Inl e
      | Inr steps \<Rightarrow> Inr \<lparr>ip_leafIndex = leafIndex, ip_steps = steps,
          ip_root = bytesToHex (last (mt_levels tree) ! 0)\<rparr>)"

definition step_input :: "bytes \<Rightarrow> MerkleProofStep \<Rightarrow> bytes" where
  "step_input h step =
     (let sibling = hexToBytes (ms_hash step)
      in if ms_isLeft step then internal_input sibling h else internal_input h sibling)"

definition verify_step :: "hash_fun \<Rightarrow> bytes \<Rightarrow> MerkleProofStep \<Rightarrow> bytes" where
  "verify_step blake3 h step =
     (let sibling = hexToBytes (ms_hash step)
      in if ms_isLeft step then internalHash blake3 sibling h else internalHash blake3 h sibling)"

definition verifyInclusion :: "hash_fun \<Rightarrow> string \<Rightarrow> InclusionProof \<Rightarrow> bool" where
  "verifyInclusion blake3 evidenceId proof \<longleftrightarrow>
     bytesToHex (foldl (verify_step blake3) (leafHash blake3 evidenceId) (ip_steps proof)) = ip_root proof"

section \<open>Encodings are faithful\<close>

lemma hex_digit_facts:
  assumes "d < 16"
  shows "hex_digit_value (digit_char d) = Some d" and "\<not> js_space (digit_char d)"
    and "digit_char d \<noteq> CHR ''-''" and "digit_char d \<noteq> CHR ''+''"
    and "digit_char d \<noteq> CHR ''x''" and "digit_char d \<noteq> CHR ''X''"
proof -
  let ?P = "\<lambda>d. hex_digit_value (digit_char d) = Some d \<and> \<not> js_space (digit_char d) \<and>
    digit_char d \<noteq> CHR ''-'' \<and> digit_char d \<noteq> CHR ''+'' \<and>
    digit_char d \<noteq> CHR ''x'' \<and> digit_char d \<noteq> CHR ''X''"
  have "list_all ?P [0..<16]" by code_simp
  then have "?P d" using assms by (simp add: list_all_iff)
  then show "hex_digit_value (digit_char d) = Some d" and "\<not> js_space (digit_char d)"
    and "digit_char d \<noteq> CHR ''-''" and "digit_char d \<noteq> CHR ''+''"
    and "digit_char d \<noteq> CHR ''x''" and "digit_char d \<noteq> CHR ''X''"
    by blast+
qed

lemma byte_hex_digits: "byte_hex b = [digit_char (unat b div 16), digit_char (unat b mod 16)]"
proof -
  have b: "unat b < 256" using unsigned_less [of b] by simp
  have z: "digit_char 0 = CHR ''0''" by (simp add: digit_char_def digit_chars_def)
  show ?thesis
  proof (cases "unat b < 16")
    case True
    then show ?thesis
      by (simp add: byte_hex_def to_radix_def radix_digits.simps [of 16 "unat b"] pad_start_def z)
  next
    case False
    with b have "unat b div 16 < 16" by simp
    with False show ?thesis
      by (simp add: byte_hex_def to_radix_def radix_digits.simps [of 16 "unat b"]
          radix_digits.simps [of 16 "unat b div 16"] pad_start_def)
  qed
qed

lemma length_byte_hex [simp]: "length (byte_hex b) = 2"
  by (simp add: byte_hex_digits)

lemma hex_byte_byte_hex: "hex_byte (byte_hex b) = b"
proof -
  have b: "unat b < 256" using unsigned_less [of b] by simp
  then have d: "unat b div 16 < 16" "unat b mod 16 < 16" by simp_all
  have "parseInt16 (byte_hex b) = Some (int (unat b))"
    using hex_digit_facts [OF d(1)] hex_digit_facts [OF d(2)]
    by (simp add: parseInt16_def byte_hex_digits radix_value_def Let_def)
  then show ?thesis by (simp add: hex_byte_def)
qed

lemma bytesToHex_Cons: "bytesToHex (b # bs) = byte_hex b @ bytesToHex bs"
  by (simp add: bytesToHex_def)

lemma length_bytesToHex: "length (bytesToHex bs) = 2 * length bs"
  by (induction bs) (simp_all add: bytesToHex_Cons, simp add: bytesToHex_def)

lemma take_bytesToHex:
  "i < length bs \<Longrightarrow> take 2 (drop (i * 2) (bytesToHex bs)) = byte_hex (bs ! i)"
proof (induction bs arbitrary: i)
  case (Cons b bs)
  then show ?case by (cases i) (simp_all add: bytesToHex_Cons)
qed simp

lemma hexToBytes_bytesToHex [simp]: "hexToBytes (bytesToHex bs) = bs"
  by (rule nth_equalityI)
     (simp_all add: hexToBytes_def length_bytesToHex take_bytesToHex hex_byte_byte_hex)

lemma bytesToHex_inject [simp]: "bytesToHex a = bytesToHex b \<longleftrightarrow> a = b"
  by (metis hexToBytes_bytesToHex)

lemma of_nat_byte_inject: "m < 256 \<Longrightarrow> n < 256 \<Longrightarrow> (of_nat m :: byte) = of_nat n \<longleftrightarrow> m = n"
proof -
  have "unat (of_nat k :: byte) = k" if "k < 256" for k
    using that by (simp add: unat_of_nat)
  then show "m < 256 \<Longrightarrow> n < 256 \<Longrightarrow> (of_nat m :: byte) = of_nat n \<longleftrightarrow> m = n" by metis
qed

lemma utf8_char_small: "(of_char c :: nat) < 128 \<Longrightarrow> utf8_char c = [of_nat (of_char c)]"
  by (simp add: utf8_char_def Let_def)

lemma utf8_char_large: "\<not> (of_char c :: nat) < 128 \<Longrightarrow>
    utf8_char c = [of_nat (192 + of_char c div 64), of_nat (128 + of_char c mod 64)]"
  by (simp add: utf8_char_def Let_def)

lemma utf8_char_prefix_free:
  assumes "utf8_char c @ xs = utf8_char d @ ys"
  shows "c = d \<and> xs = ys"
proof -
  define m n where "m = (of_char c :: nat)" and "n = (of_char d :: nat)"
  have lt: "m < 256" "n < 256" by (simp_all add: m_def n_def)
  have small: "192 + m div 64 < 256" "192 + n div 64 < 256" "128 + m mod 64 < 256" "128 + n mod 64 < 256"
    using lt by simp_all
  note defs = utf8_char_small [of c] utf8_char_small [of d] utf8_char_large [of c] utf8_char_large [of d]
  note enc = defs [folded m_def n_def]
  have "m = n \<and> xs = ys"
  proof (cases "m < 128"; cases "n < 128")
    assume "m < 128" "n < 128"
    with assms lt show ?thesis by (simp add: enc of_nat_byte_inject)
  next
    assume a: "m < 128" "\<not> n < 128"
    with assms have "(of_nat m :: byte) = of_nat (192 + n div 64)"
      by (simp only: simp_thms enc append_Cons list.inject)
    with a lt small show ?thesis by (auto simp only: of_nat_byte_inject)
  next
    assume a: "\<not> m < 128" "n < 128"
    with assms have "(of_nat (192 + m div 64) :: byte) = of_nat n"
      by (simp only: simp_thms enc append_Cons list.inject)
    with a lt small show ?thesis by (auto simp only: of_nat_byte_inject)
  next
    assume a: "\<not> m < 128" "\<not> n < 128"
    with assms have "(of_nat (192 + m div 64) :: byte) = of_nat (192 + n div 64)"
      and "(of_nat (128 + m mod 64) :: byte) = of_nat (128 + n mod 64)" and "xs = ys"
      by (simp_all only: simp_thms enc append_Cons append_Nil list.inject)
    then have "192 + m div 64 = 192 + n div 64" and "128 + m mod 64 = 128 + n mod 64" and "xs = ys"
      using small by (simp_all only: of_nat_byte_inject)
    then show ?thesis by (metis add_left_cancel div_mult_mod_eq)
  qed
  then show ?thesis by (simp add: m_def n_def)
qed

lemma utf8_char_nonempty [simp]: "utf8_char c \<noteq> []"
  by (simp add: utf8_char_def Let_def)

lemma utf8_inject [simp]: "utf8 a = utf8 b \<longleftrightarrow> a = b"
proof
  assume "utf8 a = utf8 b"
  then show "a = b"
  proof (induction a arbitrary: b)
    case Nil
    then show ?case by (cases b) (simp_all add: utf8_def)
  next
    case (Cons c a)
    then obtain d b' where b: "b = d # b'" by (cases b) (auto simp: utf8_def)
    with Cons.prems have "utf8_char c @ utf8 a = utf8_char d @ utf8 b'" by (simp add: utf8_def)
    then have "c = d \<and> utf8 a = utf8 b'" by (rule utf8_char_prefix_free)
    with Cons.IH b show ?case by simp
  qed
qed simp

section \<open>The tree as a function of its leaves\<close>

text \<open>The node at height \<open>k\<close> and position \<open>j\<close> above a leaf level.\<close>

fun node :: "hash_fun \<Rightarrow> bytes list \<Rightarrow> nat \<Rightarrow> nat \<Rightarrow> bytes" where
  "node h lv 0 j = lv ! j"
| "node h lv (Suc k) j = internalHash h (node h lv k (2 * j)) (node h lv k (2 * j + 1))"

lemma next_power_from_power: "\<exists>k. next_power_from (2 ^ e) n = 2 ^ (e + k)"
proof (induction "n - 2 ^ e" arbitrary: e rule: less_induct)
  case less
  show ?case
  proof (cases "2 ^ e < n")
    case True
    then have "n - 2 ^ Suc e < n - 2 ^ e" 
      using zero_less_power [of "2 :: nat" e] unfolding power_Suc by arith
    from less [OF this] obtain k where "next_power_from (2 ^ Suc e) n = 2 ^ (e + Suc k)" by auto
    with True show ?thesis
      by (metis next_power_from.simps power_Suc mult.commute zero_less_numeral zero_less_power)
  next
    case False
    then show ?thesis by (intro exI [of _ 0]) (simp add: next_power_from.simps)
  qed
qed

lemma next_power_from_ge: "0 < p \<Longrightarrow> n \<le> next_power_from p n"
proof (induction p n rule: next_power_from.induct)
  case (1 p n)
  then show ?case by (subst next_power_from.simps) auto
qed

lemma next_power_from_least: "0 < p \<Longrightarrow> next_power_from p n = p \<or> next_power_from p n < 2 * n"
proof (induction p n rule: next_power_from.induct)
  case (1 p n)
  then show ?case by (subst (1 2) next_power_from.simps) auto
qed

lemma nextPowerOfTwo_power: "\<exists>d. nextPowerOfTwo n = 2 ^ d"
  using next_power_from_power [of 0 n] by (auto simp: nextPowerOfTwo_def)

lemma nextPowerOfTwo_ge: "n \<le> nextPowerOfTwo n"
  by (simp add: nextPowerOfTwo_def next_power_from_ge)

lemma length_leaf_level [simp]: "length (leaf_level h ids) = nextPowerOfTwo (length ids)"
  using nextPowerOfTwo_ge [of "length ids"] by (simp add: leaf_level_def)

lemma nth_leaf_level:
  "j < nextPowerOfTwo (length ids) \<Longrightarrow> leaf_level h ids ! j =
     (if j < length ids then leafHash h (ids ! j) else padHash h j)"
  by (simp add: leaf_level_def nth_append)

lemma length_next_level [simp]: "length (next_level h cur) = length cur div 2"
  by (simp add: next_level_def)

lemma nth_next_level: "j < length cur div 2 \<Longrightarrow>
    next_level h cur ! j = internalHash h (cur ! (2 * j)) (cur ! (2 * j + 1))"
  by (simp add: next_level_def)

lemma node_next_level:
  "j * 2 ^ k + 2 ^ k \<le> length cur div 2 \<Longrightarrow> node h (next_level h cur) k j = node h cur (Suc k) j"
proof (induction k arbitrary: j)
  case 0
  then show ?case by (simp add: nth_next_level)
next
  case (Suc k)
  then have "2 * j * 2 ^ k + 2 ^ k \<le> length cur div 2" "(2 * j + 1) * 2 ^ k + 2 ^ k \<le> length cur div 2"
    by (simp_all add: algebra_simps)
  with Suc.IH [of "2 * j"] Suc.IH [of "2 * j + 1"] show ?case by simp
qed

lemma merkle_levels_single: "length cur = 1 \<Longrightarrow> merkle_levels h cur = [cur]"
  by (subst merkle_levels.simps) simp

lemma merkle_levels_step:
  "1 < length cur \<Longrightarrow> merkle_levels h cur = cur # merkle_levels h (next_level h cur)"
  by (subst merkle_levels.simps) simp

lemma merkle_levels_Cons: "\<exists>rest. merkle_levels h cur = cur # rest"
  by (subst merkle_levels.simps) simp

lemma merkle_levels_nonempty [simp]: "merkle_levels h cur \<noteq> []"
  using merkle_levels_Cons [of h cur] by auto

lemma merkle_levels_shape:
  "length cur = 2 ^ d \<Longrightarrow> map length (merkle_levels h cur) = map (\<lambda>k. 2 ^ (d - k)) [0..<Suc d] \<and>
     last (merkle_levels h cur) = [node h cur d 0]"
proof (induction d arbitrary: cur)
  case 0
  then show ?case by (simp add: merkle_levels_single) (cases cur; simp)
next
  case (Suc d)
  then have l: "length (next_level h cur) = 2 ^ d" by simp
  have "1 < length cur" using Suc.prems one_less_power [of "2 :: nat" "Suc d"] by simp
  with Suc.IH [OF l] show ?case
    by (simp add: merkle_levels_step node_next_level Suc.prems upt_conv_Cons
        map_Suc_upt [symmetric] comp_def del: upt_Suc)
qed

section \<open>Completeness of inclusion proofs\<close>

fun path_index :: "MerkleProofStep list \<Rightarrow> nat" where
  "path_index [] = 0"
| "path_index (s # ss) = (if ms_isLeft s then 1 else 0) + 2 * path_index ss"

fun path_inputs :: "hash_fun \<Rightarrow> bytes \<Rightarrow> MerkleProofStep list \<Rightarrow> bytes list" where
  "path_inputs h x [] = []"
| "path_inputs h x (s # ss) = step_input x s # path_inputs h (verify_step h x s) ss"

definition level_inputs :: "bytes list \<Rightarrow> bytes list" where
  "level_inputs cur = map (\<lambda>i. internal_input (cur ! (2 * i)) (cur ! (2 * i + 1))) [0..<length cur div 2]"

text \<open>Every byte string hashed while building the tree over \<open>ids\<close>.\<close>

definition tree_inputs :: "hash_fun \<Rightarrow> string list \<Rightarrow> bytes list" where
  "tree_inputs h ids =
     map leaf_input ids @ map pad_input [length ids..<nextPowerOfTwo (length ids)]
     @ concat (map level_inputs (merkle_levels h (leaf_level h ids)))"

text \<open>Every byte string hashed while checking \<open>proof\<close> for \<open>evidenceId\<close>.\<close>

definition proof_inputs :: "hash_fun \<Rightarrow> string \<Rightarrow> InclusionProof \<Rightarrow> bytes list" where
  "proof_inputs h evidenceId proof =
     leaf_input evidenceId # path_inputs h (leafHash h evidenceId) (ip_steps proof)"

lemma verify_step_input: "verify_step h x s = h (step_input x s)"
  by (simp add: verify_step_def step_input_def internalHash_def Let_def)

lemma prove_steps_levels:
  "prove_steps (cur # merkle_levels h up) idx =
     (let isLeft = (idx mod 2 \<noteq> 0); sib = (if isLeft then int idx - 1 else int idx + 1)
      in case js_index cur sib of
           None \<Rightarrow> Inl TypeError
         | Some s \<Rightarrow> (case prove_steps (merkle_levels h up) (idx div 2) of
               Inl e \<Rightarrow> Inl e
             | Inr steps \<Rightarrow> Inr (\<lparr>ms_hash = bytesToHex s, ms_isLeft = isLeft\<rparr> # steps)))"
proof -
  obtain rest where r: "merkle_levels h up = up # rest" using merkle_levels_Cons by blast
  show ?thesis unfolding r by (rule prove_steps.simps)
qed

definition honest_step :: "bytes list \<Rightarrow> nat \<Rightarrow> MerkleProofStep" where
  "honest_step cur idx =
     \<lparr>ms_hash = bytesToHex (cur ! (if odd idx then idx - 1 else idx + 1)), ms_isLeft = odd idx\<rparr>"

lemma honest_step_input:
  "step_input (cur ! idx) (honest_step cur idx) =
     internal_input (cur ! (2 * (idx div 2))) (cur ! (2 * (idx div 2) + 1))"
  by (cases "odd idx") (auto simp: honest_step_def step_input_def Let_def elim!: oddE evenE)

lemma js_index_int: "i < length xs \<Longrightarrow> js_index xs (int i) = Some (xs ! i)"
  by (simp add: js_index_def)

lemma prove_steps_honest:
  assumes "length cur = 2 ^ Suc d" "idx < length cur"
    and "prove_steps (merkle_levels h (next_level h cur)) (idx div 2) = Inr steps"
  shows "prove_steps (merkle_levels h cur) idx = Inr (honest_step cur idx # steps)"
proof -
  have one: "1 < length cur" using assms(1) one_less_power [of "2 :: nat" "Suc d"] by simp
  have ev: "even (length cur)" using assms(1) by simp
  show ?thesis
  proof (cases "odd idx")
    case True
    then have "int idx - 1 = int (idx - 1)" by (auto elim: oddE)
    moreover have "js_index cur (int (idx - 1)) = Some (cur ! (idx - 1))"
      using assms(2) by (intro js_index_int) simp
    ultimately have "js_index cur (int idx - 1) = Some (cur ! (idx - 1))" by (simp only:)
    with True assms(3) one show ?thesis
      by (simp add: merkle_levels_step prove_steps_levels honest_step_def mod2_eq_if)
  next
    case False
    then have "idx + 1 < length cur" using ev assms(2) by presburger
    from js_index_int [OF this] have "js_index cur (int idx + 1) = Some (cur ! (idx + 1))"
      by (simp add: add.commute)
    with False assms(3) one show ?thesis
      by (simp add: merkle_levels_step prove_steps_levels honest_step_def mod2_eq_if)
  qed
qed

lemma prove_steps_complete:
  "length cur = 2 ^ d \<Longrightarrow> idx < length cur \<Longrightarrow>
   \<exists>steps. prove_steps (merkle_levels h cur) idx = Inr steps \<and> length steps = d \<and>
     path_index steps = idx \<and>
     foldl (verify_step h) (cur ! idx) steps = node h cur d 0 \<and>
     set (path_inputs h (cur ! idx) steps) \<subseteq> set (concat (map level_inputs (merkle_levels h cur)))"
proof (induction d arbitrary: cur idx)
  case 0
  then show ?case by (simp add: merkle_levels_single)
next
  case (Suc d)
  let ?up = "next_level h cur"
  have one: "1 < length cur" using Suc.prems(1) one_less_power [of "2 :: nat" "Suc d"] by simp
  have up: "length ?up = 2 ^ d" "idx div 2 < length ?up" using Suc.prems by auto
  from Suc.IH [OF up] obtain steps where
    st: "prove_steps (merkle_levels h ?up) (idx div 2) = Inr steps" and
    ih: "length steps = d" "path_index steps = idx div 2"
      "foldl (verify_step h) (?up ! (idx div 2)) steps = node h ?up d 0"
      "set (path_inputs h (?up ! (idx div 2)) steps) \<subseteq> set (concat (map level_inputs (merkle_levels h ?up)))"
    by blast
  have half: "idx div 2 < length cur div 2" using up by simp
  have vs: "verify_step h (cur ! idx) (honest_step cur idx) = ?up ! (idx div 2)"
    by (simp add: verify_step_input honest_step_input nth_next_level [OF half] internalHash_def)
  have inp: "step_input (cur ! idx) (honest_step cur idx) \<in> set (level_inputs cur)"
    unfolding honest_step_input level_inputs_def using half by auto
  have nd: "node h ?up d 0 = node h cur (Suc d) 0" using up(1) by (intro node_next_level) simp
  have "path_index (honest_step cur idx # steps) = idx"
    using ih(2) by (cases "odd idx") (simp_all add: honest_step_def)
  with prove_steps_honest [OF Suc.prems st] show ?case
    using ih inp nd one vs by (intro exI [of _ "honest_step cur idx # steps"]) (auto simp: merkle_levels_step)
qed

section \<open>Soundness of inclusion proofs\<close>

text \<open>What the theorems rely on of BLAKE3: 32-byte digests and no collision among the inputs at hand.\<close>

definition digest_length :: "hash_fun \<Rightarrow> bool" where
  "digest_length h \<longleftrightarrow> (\<forall>bs. length (h bs) = 32)"

definition collision_free :: "hash_fun \<Rightarrow> bytes list \<Rightarrow> bool" where
  "collision_free h inputs \<longleftrightarrow> inj_on h (set inputs)"

lemma collision_freeD:
  "collision_free h inputs \<Longrightarrow> h a = h b \<Longrightarrow> a \<in> set inputs \<Longrightarrow> b \<in> set inputs \<Longrightarrow> a = b"
  by (auto simp: collision_free_def dest: inj_onD)

lemma collision_free_mono: "collision_free h b \<Longrightarrow> set a \<subseteq> set b \<Longrightarrow> collision_free h a"
  by (auto simp: collision_free_def intro: inj_on_subset)

lemma domains_differ [simp]:
  "leaf_input i \<noteq> internal_input a b" "internal_input a b \<noteq> leaf_input i"
  "leaf_input i \<noteq> pad_input n" "internal_input a b \<noteq> pad_input n"
  by (simp_all add: leaf_input_def internal_input_def pad_input_def concat_bytes_def
      DOMAIN_LEAF_def DOMAIN_INTERNAL_def DOMAIN_PAD_def)

lemma leaf_input_inject [simp]: "leaf_input a = leaf_input b \<longleftrightarrow> a = b"
  by (simp add: leaf_input_def concat_bytes_def)

lemma internal_input_inject:
  "length a = length c \<or> length b = length d \<Longrightarrow>
   internal_input a b = internal_input c d \<longleftrightarrow> a = c \<and> b = d"
  by (auto simp: internal_input_def concat_bytes_def)

lemma step_input_internal:
  "step_input x s =
     (if ms_isLeft s then internal_input (hexToBytes (ms_hash s)) x else internal_input x (hexToBytes (ms_hash s)))"
  by (simp add: step_input_def Let_def)

lemma path_inputs_snoc:
  "path_inputs h x (ss @ [s]) = path_inputs h x ss @ [step_input (foldl (verify_step h) x ss) s]"
  by (induction ss arbitrary: x) simp_all

lemma path_index_snoc:
  "path_index (ss @ [s]) = path_index ss + (if ms_isLeft s then 2 ^ length ss else 0)"
  by (induction ss) simp_all

lemma length_verify_fold:
  "digest_length h \<Longrightarrow> length (foldl (verify_step h) (leafHash h i) ss) = 32"
  by (cases ss rule: rev_cases) (simp_all add: digest_length_def leafHash_def verify_step_input)

lemma node_level_input:
  "length cur = 2 ^ d \<Longrightarrow> k < d \<Longrightarrow> j < 2 ^ (d - Suc k) \<Longrightarrow>
   internal_input (node h cur k (2 * j)) (node h cur k (2 * j + 1))
     \<in> set (concat (map level_inputs (merkle_levels h cur)))"
proof (induction d arbitrary: cur k)
  case (Suc d)
  have one: "1 < length cur" using Suc.prems(1) one_less_power [of "2 :: nat" "Suc d"] by simp
  have up: "length (next_level h cur) = 2 ^ d" using Suc.prems(1) by simp
  show ?case
  proof (cases k)
    case 0
    with Suc.prems one show ?thesis by (auto simp: merkle_levels_step level_inputs_def)
  next
    case (Suc k')
    have "(2 * j + 1) * 2 ^ k' + 2 ^ k' = Suc j * 2 ^ Suc k'" by (simp add: algebra_simps)
    also have "\<dots> \<le> 2 ^ (d - Suc k') * 2 ^ Suc k'"
      using Suc Suc.prems by (intro mult_right_mono) simp_all
    also have "\<dots> = 2 ^ d" using Suc Suc.prems by (simp flip: power_add del: power_Suc)
    finally have b: "(2 * j + 1) * 2 ^ k' + 2 ^ k' \<le> length cur div 2" using Suc.prems(1) up by simp
    then have "2 * j * 2 ^ k' + 2 ^ k' \<le> length cur div 2" by (simp add: algebra_simps)
    with b have nd: "node h (next_level h cur) k' (2 * j) = node h cur k (2 * j)"
      "node h (next_level h cur) k' (2 * j + 1) = node h cur k (2 * j + 1)"
      unfolding Suc by (simp_all only: node_next_level)
    from Suc.IH [OF up, of k'] Suc Suc.prems one show ?thesis
      by (simp add: merkle_levels_step nd [unfolded One_nat_def add_Suc_right add_0_right])
  qed
qed simp

text \<open>The byte string whose digest is the node at height \<open>k\<close> and position \<open>j\<close> of the tree over \<open>ids\<close>.\<close>

fun node_input :: "hash_fun \<Rightarrow> string list \<Rightarrow> nat \<Rightarrow> nat \<Rightarrow> bytes" where
  "node_input h ids 0 j = (if j < length ids then leaf_input (ids ! j) else pad_input j)"
| "node_input h ids (Suc k) j =
     internal_input (node h (leaf_level h ids) k (2 * j)) (node h (leaf_level h ids) k (2 * j + 1))"

lemma node_hash:
  "nextPowerOfTwo (length ids) = 2 ^ d \<Longrightarrow> k \<le> d \<Longrightarrow> j < 2 ^ (d - k) \<Longrightarrow>
   node h (leaf_level h ids) k j = h (node_input h ids k j)"
  by (cases k) (simp_all add: nth_leaf_level leafHash_def padHash_def internalHash_def)

lemma node_input_hashed:
  "nextPowerOfTwo (length ids) = 2 ^ d \<Longrightarrow> k \<le> d \<Longrightarrow> j < 2 ^ (d - k) \<Longrightarrow>
   node_input h ids k j \<in> set (tree_inputs h ids)"
  using node_level_input [of "leaf_level h ids" d "k - 1" j h]
  by (cases k) (auto simp: tree_inputs_def)

lemma length_node:
  assumes "digest_length h" "nextPowerOfTwo (length ids) = 2 ^ d" "k \<le> d" "j < 2 ^ (d - k)"
  shows "length (node h (leaf_level h ids) k j) = 32"
  using assms by (simp add: node_hash digest_length_def)

lemma hash_is_node:
  assumes "collision_free h (tree_inputs h ids @ xs)" "x \<in> set xs"
    and "nextPowerOfTwo (length ids) = 2 ^ d" "k \<le> d" "j < 2 ^ (d - k)"
    and "h x = node h (leaf_level h ids) k j"
  shows "x = node_input h ids k j"
proof (rule collision_freeD [OF assms(1)])
  show "h x = h (node_input h ids k j)" using assms(6) node_hash [OF assms(3-5)] by metis
  show "node_input h ids k j \<in> set (tree_inputs h ids @ xs)"
    using node_input_hashed [OF assms(3-5)] by (simp only: set_append Un_iff simp_thms)
qed (simp add: assms(2))

lemma step_reaches_child:
  assumes dl: "digest_length h" and n: "nextPowerOfTwo (length ids) = 2 ^ d"
    and k: "k < d" "j < 2 ^ (d - Suc k)" and x: "length x = 32"
    and eq: "step_input x s = node_input h ids (Suc k) j"
  shows "x = node h (leaf_level h ids) k (2 * j + (if ms_isLeft s then 1 else 0)) \<and>
     2 * j + (if ms_isLeft s then 1 else 0) < 2 ^ (d - k) \<and>
     hexToBytes (ms_hash s) = node h (leaf_level h ids) k (2 * j + (if ms_isLeft s then 0 else 1))"
proof -
  have "d - k = Suc (d - Suc k)" using k by simp
  then have "2 ^ (d - k) = 2 * (2 :: nat) ^ (d - Suc k)" by simp
  with k have b: "2 * j < 2 ^ (d - k)" "2 * j + 1 < 2 ^ (d - k)" by linarith+
  have "length (node h (leaf_level h ids) k (2 * j)) = 32"
    and "length (node h (leaf_level h ids) k (2 * j + 1)) = 32"
    using b k by (intro length_node [OF dl n]; simp)+
  with eq x b show ?thesis
    by (cases "ms_isLeft s") (simp_all add: step_input_internal internal_input_inject)
qed

text \<open>
  A chain of steps whose recomputed hash is the node at height \<open>k\<close> and position \<open>j\<close> starts at a leaf
  below that node, has exactly \<open>k\<close> steps and names the leaf's position by its left/right flags.
\<close>

lemma fold_reaches_leaf:
  assumes dl: "digest_length h" and n: "nextPowerOfTwo (length ids) = 2 ^ d"
    and cf: "collision_free h (tree_inputs h ids @ leaf_input i # path_inputs h (leafHash h i) ss)"
    and k: "k \<le> d" "j < 2 ^ (d - k)"
    and eq: "foldl (verify_step h) (leafHash h i) ss = node h (leaf_level h ids) k j"
  shows "length ss = k \<and> j * 2 ^ k + path_index ss < length ids \<and> ids ! (j * 2 ^ k + path_index ss) = i"
  using cf k eq
proof (induction ss arbitrary: k j rule: rev_induct)
  case Nil
  then have "leaf_input i = node_input h ids k j"
    by (intro hash_is_node [OF Nil(1) _ n]) (simp_all add: leafHash_def)
  then show ?case by (cases k) (auto split: if_splits)
next
  case (snoc s ss)
  let ?x = "foldl (verify_step h) (leafHash h i) ss"
  have cf': "collision_free h (tree_inputs h ids @ leaf_input i # path_inputs h (leafHash h i) ss)"
    using snoc.prems(1) by (rule collision_free_mono) (auto simp: path_inputs_snoc)
  have inp: "step_input ?x s = node_input h ids k j"
    using snoc.prems by (intro hash_is_node [OF snoc.prems(1) _ n]) (simp_all add: path_inputs_snoc flip: verify_step_input)
  show ?case
  proof (cases k)
    case 0
    with inp show ?thesis by (auto simp: step_input_internal split: if_splits)
  next
    case (Suc k')
    with snoc.prems have k': "k' < d" "j < 2 ^ (d - Suc k')" by simp_all
    note child = step_reaches_child [OF dl n k' length_verify_fold [OF dl] inp [unfolded Suc]]
    from snoc.IH [OF cf' less_imp_le [OF k'(1)] child [THEN conjunct2, THEN conjunct1] child [THEN conjunct1]] Suc
    show ?thesis by (cases "ms_isLeft s") (simp_all add: path_index_snoc algebra_simps)
  qed
qed

lemma path_index_less: "path_index ss < 2 ^ length ss"
  by (induction ss) auto

definition sibling_index :: "nat \<Rightarrow> nat" where
  "sibling_index n = (if odd n then n - 1 else n + 1)"

text \<open>The hashes such a chain carries are the siblings along the leaf's path.\<close>

lemma fold_siblings:
  assumes dl: "digest_length h" and n: "nextPowerOfTwo (length ids) = 2 ^ d"
    and cf: "collision_free h (tree_inputs h ids @ leaf_input i # path_inputs h (leafHash h i) ss)"
    and k: "k \<le> d" "j < 2 ^ (d - k)"
    and eq: "foldl (verify_step h) (leafHash h i) ss = node h (leaf_level h ids) k j"
  shows "map (\<lambda>s. hexToBytes (ms_hash s)) ss =
    map (\<lambda>m. node h (leaf_level h ids) m (sibling_index ((j * 2 ^ k + path_index ss) div 2 ^ m))) [0..<k]"
  using cf k eq
proof (induction ss arbitrary: k j rule: rev_induct)
  case Nil
  then show ?case using fold_reaches_leaf [OF dl n Nil(1-4)] by auto
next
  case (snoc s ss)
  let ?x = "foldl (verify_step h) (leafHash h i) ss"
  have cf': "collision_free h (tree_inputs h ids @ leaf_input i # path_inputs h (leafHash h i) ss)"
    using snoc.prems(1) by (rule collision_free_mono) (auto simp: path_inputs_snoc)
  have inp: "step_input ?x s = node_input h ids k j"
    using snoc.prems by (intro hash_is_node [OF snoc.prems(1) _ n]) (simp_all add: path_inputs_snoc flip: verify_step_input)
  obtain k' where Suc: "k = Suc k'" and len: "length ss = k'"
    using fold_reaches_leaf [OF dl n snoc.prems] by (cases k) auto
  with snoc.prems have k': "k' < d" "j < 2 ^ (d - Suc k')" by simp_all
  note child = step_reaches_child [OF dl n k' length_verify_fold [OF dl] inp [unfolded Suc]]
  note ih = snoc.IH [OF cf' less_imp_le [OF k'(1)] child [THEN conjunct2, THEN conjunct1] child [THEN conjunct1]]
  have same: "(2 * j + (if ms_isLeft s then 1 else 0)) * 2 ^ k' + path_index ss = j * 2 ^ k + path_index (ss @ [s])"
    by (simp add: Suc path_index_snoc len algebra_simps)
  have "path_index ss < 2 ^ k'" using path_index_less [of ss] len by simp
  then have "(j * 2 ^ k + path_index (ss @ [s])) div 2 ^ k' = 2 * j + (if ms_isLeft s then 1 else 0)"
    unfolding same [symmetric] by simp
  with ih [unfolded same] child show ?case by (simp add: Suc sibling_index_def)
qed

section \<open>The interface the ledger uses\<close>

text \<open>
  A commitment to a list with positional proofs: a proof made for a position is accepted for the
  element there, and, where the hash is safe, an accepted proof names the position of its element.
\<close>

locale inclusion_scheme =
  fixes commit :: "'x list \<Rightarrow> 'c"
    and prove :: "'x list \<Rightarrow> nat \<Rightarrow> 'p option"
    and check :: "'c \<Rightarrow> 'x \<Rightarrow> 'p \<Rightarrow> bool"
    and pos :: "'p \<Rightarrow> nat"
    and safe :: "'x list \<Rightarrow> 'x \<Rightarrow> 'p \<Rightarrow> bool"
  assumes complete: "i < length xs \<Longrightarrow> \<exists>p. prove xs i = Some p \<and> check (commit xs) (xs ! i) p \<and> pos p = i"
    and sound: "safe xs x p \<Longrightarrow> check (commit xs) x p \<Longrightarrow> pos p < length xs \<and> xs ! pos p = x"
begin

definition safe_proofs :: "'x list \<Rightarrow> 'x list \<Rightarrow> bool" where
  "safe_proofs xs ys \<longleftrightarrow> (\<forall>i < length xs. \<forall>p. prove xs i = Some p \<longrightarrow> safe ys (xs ! i) p)"

lemma substituted_rejected:
  assumes "prove xs i = Some p" "i < length xs" "safe xs x p" "x \<noteq> xs ! i"
  shows "\<not> check (commit xs) x p"
proof
  assume "check (commit xs) x p"
  with assms(3) have "xs ! pos p = x" by (simp add: sound)
  moreover have "pos p = i" using complete [OF assms(2)] assms(1) by auto
  ultimately show False using assms(4) by simp
qed

lemma accepted_prefix:
  assumes "commit xs = commit ys" "safe_proofs xs ys" "i < length xs"
  shows "i < length ys \<and> ys ! i = xs ! i"
proof -
  obtain p where p: "prove xs i = Some p" "check (commit xs) (xs ! i) p" "pos p = i"
    using complete [OF assms(3)] by blast
  with assms have "safe ys (xs ! i) p" "check (commit ys) (xs ! i) p" by (auto simp: safe_proofs_def)
  from sound [OF this] p(3) show ?thesis by simp
qed

lemma binding:
  assumes "commit xs = commit ys" "safe_proofs xs ys" "safe_proofs ys xs"
  shows "xs = ys"
proof (rule nth_equalityI)
  show "length xs = length ys"
  proof (rule ccontr)
    assume "length xs \<noteq> length ys"
    then consider "length xs < length ys" | "length ys < length xs" by linarith
    then show False
      using accepted_prefix [OF assms(1,2)] accepted_prefix [OF assms(1) [symmetric] assms(3)]
      by cases (metis less_irrefl)+
  qed
qed (use accepted_prefix [OF assms(1,2)] in auto)

end

text \<open>The root and the proofs as \<^verbatim>\<open>ledger.ts\<close> takes them from one tree.\<close>

definition root_of :: "hash_fun \<Rightarrow> string list \<Rightarrow> string" where
  "root_of h ids = (case buildMerkleTree h ids of Inl _ \<Rightarrow> '''' | Inr t \<Rightarrow> mt_root t)"

definition inclusion_of :: "hash_fun \<Rightarrow> string list \<Rightarrow> nat \<Rightarrow> InclusionProof option" where
  "inclusion_of h ids i =
     (case buildMerkleTree h ids of
        Inl _ \<Rightarrow> None
      | Inr t \<Rightarrow> (case proveInclusion t i of Inl _ \<Rightarrow> None | Inr p \<Rightarrow> Some p))"

definition accepts :: "hash_fun \<Rightarrow> string \<Rightarrow> string \<Rightarrow> InclusionProof \<Rightarrow> bool" where
  "accepts h r evidenceId p \<longleftrightarrow> ip_root p = r \<and> verifyInclusion h evidenceId p"

definition hash_safe :: "hash_fun \<Rightarrow> string list \<Rightarrow> string \<Rightarrow> InclusionProof \<Rightarrow> bool" where
  "hash_safe h ids evidenceId p \<longleftrightarrow>
     ids \<noteq> [] \<and> digest_length h \<and> collision_free h (tree_inputs h ids @ proof_inputs h evidenceId p)"

lemma built_tree:
  assumes "ids \<noteq> []" "nextPowerOfTwo (length ids) = 2 ^ d"
  shows "buildMerkleTree h ids =
    Inr \<lparr>mt_root = bytesToHex (node h (leaf_level h ids) d 0), mt_levels = merkle_levels h (leaf_level h ids)\<rparr>"
  using assms merkle_levels_shape [of "leaf_level h ids" d h] by (simp add: buildMerkleTree_def Let_def)

lemma inclusion_complete:
  assumes "i < length ids" "nextPowerOfTwo (length ids) = 2 ^ d"
  shows "\<exists>t p. buildMerkleTree h ids = Inr t \<and> proveInclusion t i = Inr p \<and>
    ip_root p = mt_root t \<and> length (ip_steps p) = d \<and> path_index (ip_steps p) = i \<and>
    verifyInclusion h (ids ! i) p \<and>
    set (path_inputs h (leafHash h (ids ! i)) (ip_steps p)) \<subseteq> set (tree_inputs h ids)"
proof -
  have "ids \<noteq> []" using assms(1) by auto
  note t = built_tree [OF this assms(2), of h]
  have i: "i < length (leaf_level h ids)" using assms(1) nextPowerOfTwo_ge [of "length ids"] by simp
  have lv: "leaf_level h ids ! i = leafHash h (ids ! i)" using assms(1) i by (simp add: nth_leaf_level)
  have l: "length (leaf_level h ids) = 2 ^ d" using assms(2) by simp
  have rt: "last (merkle_levels h (leaf_level h ids)) ! 0 = node h (leaf_level h ids) d 0"
    using merkle_levels_shape [OF l] by simp
  obtain steps where "prove_steps (merkle_levels h (leaf_level h ids)) i = Inr steps"
    "length steps = d" "path_index steps = i"
    "foldl (verify_step h) (leafHash h (ids ! i)) steps = node h (leaf_level h ids) d 0"
    "set (path_inputs h (leafHash h (ids ! i)) steps)
      \<subseteq> set (concat (map level_inputs (merkle_levels h (leaf_level h ids))))"
    using prove_steps_complete [OF l i, of h] unfolding lv by blast
  then show ?thesis
    by (auto simp: t proveInclusion_def rt verifyInclusion_def tree_inputs_def)
qed

lemma accepted_sound:
  assumes "hash_safe h ids evidenceId p" "accepts h (root_of h ids) evidenceId p"
  shows "path_index (ip_steps p) < length ids \<and> ids ! path_index (ip_steps p) = evidenceId"
proof -
  obtain d where d: "nextPowerOfTwo (length ids) = 2 ^ d" using nextPowerOfTwo_power by blast
  have "foldl (verify_step h) (leafHash h evidenceId) (ip_steps p) = node h (leaf_level h ids) d 0"
    using assms built_tree [OF _ d, of h]
    by (auto simp: hash_safe_def accepts_def root_of_def verifyInclusion_def)
  from fold_reaches_leaf [OF _ d _ _ _ this] assms(1) show ?thesis
    by (simp add: hash_safe_def proof_inputs_def)
qed

interpretation merkle: inclusion_scheme "root_of h" "inclusion_of h" "accepts h"
  "\<lambda>p. path_index (ip_steps p)" "hash_safe h" for h
proof
  fix i and xs :: "string list"
  assume "i < length xs"
  moreover obtain d where "nextPowerOfTwo (length xs) = 2 ^ d" using nextPowerOfTwo_power by blast
  ultimately obtain t p where "buildMerkleTree h xs = Inr t" "proveInclusion t i = Inr p"
    "ip_root p = mt_root t" "path_index (ip_steps p) = i" "verifyInclusion h (xs ! i) p"
    using inclusion_complete [of i xs d h] by blast
  then show "\<exists>p. inclusion_of h xs i = Some p \<and> accepts h (root_of h xs) (xs ! i) p \<and>
      path_index (ip_steps p) = i"
    by (simp add: inclusion_of_def accepts_def root_of_def)
qed (rule accepted_sound)

text \<open>
  The proof services of the ledger and of the evidence graph: \<^verbatim>\<open>evidenceIds.indexOf(evidenceId)\<close>,
  then null or a proof for that position.
\<close>

definition prove_listed :: "MerkleTree \<Rightarrow> string list \<Rightarrow> string \<Rightarrow> InclusionProof option result" where
  "prove_listed tree evidenceIds evidenceId =
     (case index_of evidenceIds evidenceId of
        None \<Rightarrow> Inr None
      | Some index \<Rightarrow> (case proveInclusion tree index of Inl e \<Rightarrow> Inl e | Inr p \<Rightarrow> Inr (Some p)))"

lemma prove_listed_member:
  assumes "buildMerkleTree h ids = Inr t" "e \<in> set ids"
  shows "\<exists>p. prove_listed t ids e = Inr (Some p) \<and> verifyInclusion h e p \<and> ip_root p = mt_root t"
proof -
  obtain i where i: "index_of ids e = Some i"
    using assms(2) by (cases "index_of ids e") (auto simp: index_of_None)
  then have l: "i < length ids" "ids ! i = e" by (auto dest: index_of_Some)
  obtain n where "nextPowerOfTwo (length ids) = 2 ^ n" using nextPowerOfTwo_power by blast
  from inclusion_complete [OF l(1) this, of h] assms(1) l(2) i show ?thesis
    by (auto simp: prove_listed_def)
qed

lemma prove_listed_other: "e \<notin> set ids \<Longrightarrow> prove_listed t ids e = Inr None"
  by (simp add: prove_listed_def flip: index_of_None)

section \<open>Properties\<close>

lemma collision_free_distinct: "distinct (map h (remdups inputs)) \<Longrightarrow> collision_free h inputs"
  by (simp add: collision_free_def distinct_map)

text \<open>Safety of the honest proofs is safety of the tree.\<close>

lemma honest_proof_safe:
  assumes "digest_length h" "collision_free h (tree_inputs h ids)"
    and "i < length ids" "inclusion_of h ids i = Some p"
  shows "hash_safe h ids (ids ! i) p"
proof -
  obtain d where "nextPowerOfTwo (length ids) = 2 ^ d" using nextPowerOfTwo_power by blast
  from inclusion_complete [OF assms(3) this, of h] assms(4)
  have "set (path_inputs h (leafHash h (ids ! i)) (ip_steps p)) \<subseteq> set (tree_inputs h ids)"
    by (auto simp: inclusion_of_def)
  moreover have "leaf_input (ids ! i) \<in> set (tree_inputs h ids)"
    using assms(3) by (simp add: tree_inputs_def)
  ultimately have "collision_free h (tree_inputs h ids @ proof_inputs h (ids ! i) p)"
    by (intro collision_free_mono [OF assms(2)]) (simp add: proof_inputs_def)
  with assms show ?thesis by (auto simp: hash_safe_def)
qed

text \<open>A function with 32-byte results to evaluate the definitions with.\<close>

definition sample_hash :: hash_fun where
  "sample_hash bs = take 32 (bs @ replicate 32 0)"

lemma sample_hash_digest: "digest_length sample_hash"
  by (auto simp: digest_length_def sample_hash_def min_def)

definition sample_ids :: "string list" where
  "sample_ids = [''e1'', ''e2'', ''e3'']"

lemma sample_free: "collision_free sample_hash (tree_inputs sample_hash sample_ids)"
  by (rule collision_free_distinct) code_simp

lemma accepted_path:
  assumes "hash_safe h ids evidenceId p" "accepts h (root_of h ids) evidenceId p"
    and d: "nextPowerOfTwo (length ids) = 2 ^ d"
  shows "length (ip_steps p) = d \<and> map (\<lambda>s. hexToBytes (ms_hash s)) (ip_steps p) =
    map (\<lambda>m. node h (leaf_level h ids) m (sibling_index (path_index (ip_steps p) div 2 ^ m))) [0..<d]"
proof -
  have f: "foldl (verify_step h) (leafHash h evidenceId) (ip_steps p) = node h (leaf_level h ids) d 0"
    using assms(1,2) built_tree [OF _ d, of h]
    by (auto simp: hash_safe_def accepts_def root_of_def verifyInclusion_def)
  from fold_reaches_leaf [OF _ d _ _ _ f] fold_siblings [OF _ d _ _ _ f] assms(1) show ?thesis
    by (simp add: hash_safe_def proof_inputs_def)
qed

lemma path_flags:
  "length ss = length ts \<Longrightarrow> path_index ss = path_index ts \<Longrightarrow> map ms_isLeft ss = map ms_isLeft ts"
proof (induction ss ts rule: list_induct2)
  case (Cons s ss t ts)
  then have "ms_isLeft s = ms_isLeft t \<and> path_index ss = path_index ts"
    by (auto split: if_splits) presburger+
  with Cons.IH show ?case by simp
qed simp

text \<open>
  C21: completeness. For every position of a non-empty evidence list the tree is built, a proof is
  produced without an exception, it carries the tree's root and one step per level below the root,
  and \<^verbatim>\<open>verifyInclusion\<close> accepts it for the identifier at that position; nothing is assumed of the hash.
\<close>

theorem verifyInclusion_complete:
  assumes "i < length ids"
  shows "\<exists>t p. buildMerkleTree blake3 ids = Inr t \<and> proveInclusion t i = Inr p \<and>
    ip_root p = mt_root t \<and> ip_leafIndex p = i \<and> path_index (ip_steps p) = i \<and>
    2 ^ length (ip_steps p) = nextPowerOfTwo (length ids) \<and> verifyInclusion blake3 (ids ! i) p"
proof -
  obtain d where d: "nextPowerOfTwo (length ids) = 2 ^ d" using nextPowerOfTwo_power by blast
  from inclusion_complete [OF assms this, of blake3] show ?thesis
    by (auto simp: d proveInclusion_def split: sum.splits)
qed

theorem verifyInclusion_complete_witness:
  "\<exists>t p. buildMerkleTree sample_hash sample_ids = Inr t \<and> proveInclusion t 2 = Inr p \<and>
    ip_root p = mt_root t \<and> ip_leafIndex p = 2 \<and> path_index (ip_steps p) = 2 \<and>
    2 ^ length (ip_steps p) = nextPowerOfTwo (length sample_ids) \<and> verifyInclusion sample_hash (sample_ids ! 2) p"
  by (rule verifyInclusion_complete) (simp add: sample_ids_def)

text \<open>
  C2: soundness. Where the byte strings hashed for the tree and for the check do not collide, a proof
  of any shape that \<^verbatim>\<open>verifyInclusion\<close> accepts under the root of the tree over \<open>ids\<close> names, by its
  left/right flags, a position below the number of identifiers, not a padding leaf or an inner node,
  and the identifier there is the one that was checked.
\<close>

theorem verifyInclusion_sound:
  assumes "buildMerkleTree blake3 ids = Inr t" "digest_length blake3"
    and "collision_free blake3 (tree_inputs blake3 ids @ proof_inputs blake3 evidenceId p)"
    and "ip_root p = mt_root t" "verifyInclusion blake3 evidenceId p"
  shows "path_index (ip_steps p) < length ids \<and> ids ! path_index (ip_steps p) = evidenceId \<and>
    2 ^ length (ip_steps p) = nextPowerOfTwo (length ids)"
proof -
  have s: "hash_safe blake3 ids evidenceId p"
    using assms by (auto simp: hash_safe_def buildMerkleTree_def)
  have a: "accepts blake3 (root_of blake3 ids) evidenceId p"
    using assms by (simp add: accepts_def root_of_def)
  obtain d where d: "nextPowerOfTwo (length ids) = 2 ^ d" using nextPowerOfTwo_power by blast
  from merkle.sound [OF s a] accepted_path [OF s a d] d show ?thesis by simp
qed

lemma sample_inclusion:
  assumes "i < length sample_ids"
  obtains t p where "buildMerkleTree sample_hash sample_ids = Inr t" "proveInclusion t i = Inr p"
    "ip_root p = mt_root t" "verifyInclusion sample_hash (sample_ids ! i) p"
    "inclusion_of sample_hash sample_ids i = Some p" "hash_safe sample_hash sample_ids (sample_ids ! i) p"
proof -
  obtain d where "nextPowerOfTwo (length sample_ids) = 2 ^ d" using nextPowerOfTwo_power by blast
  from inclusion_complete [OF assms this, of sample_hash] obtain t p where
    "buildMerkleTree sample_hash sample_ids = Inr t" "proveInclusion t i = Inr p"
    "ip_root p = mt_root t" "verifyInclusion sample_hash (sample_ids ! i) p" by blast
  moreover from this have "inclusion_of sample_hash sample_ids i = Some p" by (simp add: inclusion_of_def)
  moreover from this have "hash_safe sample_hash sample_ids (sample_ids ! i) p"
    by (rule honest_proof_safe [OF sample_hash_digest sample_free assms])
  ultimately show thesis by (rule that)
qed

theorem verifyInclusion_sound_witness:
  "\<exists>t p. buildMerkleTree sample_hash sample_ids = Inr t \<and> ip_root p = mt_root t \<and>
    verifyInclusion sample_hash ''e2'' p \<and> path_index (ip_steps p) < length sample_ids \<and>
    sample_ids ! path_index (ip_steps p) = ''e2''"
proof -
  have "1 < length sample_ids" and e: "sample_ids ! 1 = ''e2''" by (simp_all add: sample_ids_def)
  then obtain t p where tp: "buildMerkleTree sample_hash sample_ids = Inr t" "ip_root p = mt_root t"
    "verifyInclusion sample_hash ''e2'' p" and "hash_safe sample_hash sample_ids ''e2'' p"
    using sample_inclusion by metis
  then have "collision_free sample_hash (tree_inputs sample_hash sample_ids @ proof_inputs sample_hash ''e2'' p)"
    by (simp add: hash_safe_def)
  from verifyInclusion_sound [OF tp(1) sample_hash_digest this tp(2,3)] tp show ?thesis by blast
qed

definition decoded_steps :: "InclusionProof \<Rightarrow> (bytes \<times> bool) list" where
  "decoded_steps p = map (\<lambda>s. (hexToBytes (ms_hash s), ms_isLeft s)) (ip_steps p)"

lemma decoded_steps_zip:
  "decoded_steps p = zip (map (\<lambda>s. hexToBytes (ms_hash s)) (ip_steps p)) (map ms_isLeft (ip_steps p))"
  by (simp add: decoded_steps_def zip_map_map zip_same_conv_map comp_def)

text \<open>What \<^verbatim>\<open>verifyInclusion\<close> reads of a proof: the bytes and sides of its steps, and the root.\<close>

lemma fold_decoded:
  "map (\<lambda>s. (hexToBytes (ms_hash s), ms_isLeft s)) ss = map (\<lambda>s. (hexToBytes (ms_hash s), ms_isLeft s)) ts \<Longrightarrow>
     foldl (verify_step h) x ss = foldl (verify_step h) x ts"
proof (induction ss arbitrary: ts x)
  case (Cons s ss)
  then obtain t ts' where "ts = t # ts'" "verify_step h x s = verify_step h x t" by (cases ts) (auto simp: verify_step_def)
  with Cons show ?case by simp
qed simp

lemma verify_decoded:
  "decoded_steps q = decoded_steps p \<Longrightarrow> ip_root q = ip_root p \<Longrightarrow> verifyInclusion h e q \<longleftrightarrow> verifyInclusion h e p"
  using fold_decoded [of "ip_steps q" "ip_steps p" h] by (simp add: decoded_steps_def verifyInclusion_def)

text \<open>
  C19: what is accepted. Under the root of a tree, \<^verbatim>\<open>verifyInclusion\<close> accepts an identifier and a proof
  exactly when they are, in the bytes and the side of every step, the proof \<^verbatim>\<open>proveInclusion\<close> makes for
  some position and the identifier at that position. Any other combination, so every tampered
  identifier, sibling or side that does not happen to give the genuine proof of another position, is
  rejected. The index written in the proof plays no part.
\<close>

theorem only_genuine_proofs:
  assumes "buildMerkleTree blake3 ids = Inr t" and "digest_length blake3"
    and "collision_free blake3 (tree_inputs blake3 ids @ proof_inputs blake3 evidenceId q)"
    and "ip_root q = mt_root t"
  shows "verifyInclusion blake3 evidenceId q \<longleftrightarrow>
    (\<exists>i p. i < length ids \<and> evidenceId = ids ! i \<and> proveInclusion t i = Inr p \<and> decoded_steps q = decoded_steps p)"
proof -
  have ids: "ids \<noteq> []" using assms(1) by (auto simp: buildMerkleTree_def)
  obtain d where d: "nextPowerOfTwo (length ids) = 2 ^ d" using nextPowerOfTwo_power by blast
  have cf: "collision_free blake3 (tree_inputs blake3 ids)"
    using assms(3) by (rule collision_free_mono) auto
  have sq: "hash_safe blake3 ids evidenceId q" using assms ids by (simp add: hash_safe_def)
  show ?thesis
  proof
    assume "verifyInclusion blake3 evidenceId q"
    then have aq: "accepts blake3 (root_of blake3 ids) evidenceId q" using assms by (simp add: accepts_def root_of_def)
    define i where "i = path_index (ip_steps q)"
    have i: "i < length ids" "evidenceId = ids ! i" using merkle.sound [OF sq aq] by (simp_all add: i_def)
    obtain p where inc: "inclusion_of blake3 ids i = Some p"
      and ap: "accepts blake3 (root_of blake3 ids) (ids ! i) p" and pi: "path_index (ip_steps p) = i"
      using merkle.complete [OF i(1), of blake3] by blast
    have sp: "hash_safe blake3 ids (ids ! i) p" by (rule honest_proof_safe [OF assms(2) cf i(1) inc])
    have "decoded_steps q = decoded_steps p"
      using accepted_path [OF sq aq d] accepted_path [OF sp ap d] path_flags [of "ip_steps q" "ip_steps p"]
      by (simp add: decoded_steps_zip i_def pi [unfolded i_def])
    moreover have "proveInclusion t i = Inr p" using inc assms(1) by (simp add: inclusion_of_def split: sum.splits)
    ultimately show "\<exists>i p. i < length ids \<and> evidenceId = ids ! i \<and> proveInclusion t i = Inr p \<and> decoded_steps q = decoded_steps p"
      using i by blast
  next
    assume "\<exists>i p. i < length ids \<and> evidenceId = ids ! i \<and> proveInclusion t i = Inr p \<and> decoded_steps q = decoded_steps p"
    then obtain i p where i: "i < length ids" "evidenceId = ids ! i" "proveInclusion t i = Inr p"
      and eq: "decoded_steps q = decoded_steps p" by blast
    from inclusion_complete [OF i(1) d, of blake3] assms(1) i(3)
    have "ip_root p = mt_root t" "verifyInclusion blake3 (ids ! i) p" by auto
    with eq i(2) assms(4) verify_decoded [OF eq] show "verifyInclusion blake3 evidenceId q" by simp
  qed
qed

lemma tree_proofs_safe:
  assumes "digest_length h" "ys \<noteq> []" "collision_free h (tree_inputs h ys @ tree_inputs h xs)"
  shows "merkle.safe_proofs h xs ys"
  unfolding merkle.safe_proofs_def
proof (intro allI impI)
  fix i p
  assume i: "i < length xs" and inc: "inclusion_of h xs i = Some p"
  obtain d where "nextPowerOfTwo (length xs) = 2 ^ d" using nextPowerOfTwo_power by blast
  from inclusion_complete [OF i this, of h] inc i
  have "set (proof_inputs h (xs ! i) p) \<subseteq> set (tree_inputs h xs)"
    by (auto simp: inclusion_of_def proof_inputs_def tree_inputs_def)
  with assms(1,2) show "hash_safe h ys (xs ! i) p"
    by (auto simp: hash_safe_def intro!: collision_free_mono [OF assms(3)])
qed

text \<open>
  C20: the root binds the evidence. Two non-empty evidence lists with the same Merkle root are the
  same list, in the same order, unless one of the byte strings hashed for the two trees collides.
\<close>

theorem merkle_root_binding:
  assumes "buildMerkleTree blake3 ids = Inr t" "buildMerkleTree blake3 ids' = Inr t'"
    and "digest_length blake3" "collision_free blake3 (tree_inputs blake3 ids @ tree_inputs blake3 ids')"
    and "mt_root t = mt_root t'"
  shows "ids = ids'"
proof (rule merkle.binding [of blake3])
  show "root_of blake3 ids = root_of blake3 ids'" using assms by (simp add: root_of_def)
  have "ids \<noteq> []" "ids' \<noteq> []" using assms(1,2) by (auto simp: buildMerkleTree_def)
  then show "merkle.safe_proofs blake3 ids ids'" "merkle.safe_proofs blake3 ids' ids"
    using assms(3,4) by (auto intro!: tree_proofs_safe elim: collision_free_mono)
qed

definition sample_forged :: "string \<Rightarrow> InclusionProof" where
  "sample_forged r = \<lparr>ip_leafIndex = 0,
     ip_steps = [\<lparr>ms_hash = bytesToHex (leafHash sample_hash ''e2''), ms_isLeft = False\<rparr>], ip_root = r\<rparr>"

lemma sample_forged_inputs:
  "proof_inputs sample_hash ''e9'' (sample_forged r) =
     [leaf_input ''e9'', internal_input (leafHash sample_hash ''e9'') (leafHash sample_hash ''e2'')]"
  by (simp add: proof_inputs_def sample_forged_def step_input_def)

lemma sample_forged_free:
  "collision_free sample_hash (tree_inputs sample_hash [''e1'', ''e2''] @
     proof_inputs sample_hash ''e9'' (sample_forged r))"
  unfolding sample_forged_inputs by (rule collision_free_distinct) code_simp

theorem only_genuine_proofs_witness:
  "\<exists>t. buildMerkleTree sample_hash [''e1'', ''e2''] = Inr t \<and>
     \<not> verifyInclusion sample_hash ''e9'' (sample_forged (mt_root t))"
proof -
  let ?ids = "[''e1'', ''e2'']"
  obtain t where t: "buildMerkleTree sample_hash ?ids = Inr t" by (simp add: buildMerkleTree_def Let_def)
  have "ip_root (sample_forged (mt_root t)) = mt_root t" by (simp add: sample_forged_def)
  moreover have "''e9'' \<noteq> ?ids ! i" if "i < length ?ids" for i using that by (auto simp: less_Suc_eq)
  ultimately have "\<not> verifyInclusion sample_hash ''e9'' (sample_forged (mt_root t))"
    using only_genuine_proofs [OF t sample_hash_digest sample_forged_free] by metis
  with t show ?thesis by blast
qed

lemma sample_swapped_free:
  "collision_free sample_hash (tree_inputs sample_hash sample_ids @ tree_inputs sample_hash [''e2'', ''e1'', ''e3''])"
  by (rule collision_free_distinct) code_simp

theorem merkle_root_binding_witness:
  "root_of sample_hash [''e1'', ''e2'', ''e3''] \<noteq> root_of sample_hash [''e2'', ''e1'', ''e3'']"
proof
  assume eq: "root_of sample_hash [''e1'', ''e2'', ''e3''] = root_of sample_hash [''e2'', ''e1'', ''e3'']"
  obtain t t' where t: "buildMerkleTree sample_hash sample_ids = Inr t"
    "buildMerkleTree sample_hash [''e2'', ''e1'', ''e3''] = Inr t'"
    by (simp add: buildMerkleTree_def sample_ids_def Let_def)
  with eq have "mt_root t = mt_root t'" by (simp add: root_of_def sample_ids_def)
  from merkle_root_binding [OF t sample_hash_digest sample_swapped_free this] show False
    by (simp add: sample_ids_def)
qed

text \<open>The layout the comment above \<^verbatim>\<open>padHash\<close> and \<^verbatim>\<open>ledger/merkle.go\<close> name: the index as 8 big-endian bytes.\<close>

definition big_endian :: "nat \<Rightarrow> nat \<Rightarrow> bytes" where
  "big_endian k n = map (\<lambda>i. of_nat (n div 256 ^ (k - 1 - i))) [0..<k]"

definition pad_input_u64 :: "nat \<Rightarrow> bytes" where
  "pad_input_u64 index = DOMAIN_PAD # big_endian 8 index"

lemma upt_8: "[0..<8] = [0, 1, 2, 3, 4, 5, 6, 7 :: nat]"
  by (simp add: upt_rec)

lemma upt_4: "[0..<4] = [0, 1, 2, 3 :: nat]"
  by (simp add: upt_rec)

lemma shifted_byte:
  assumes "k mod 32 \<le> 24"
  shows "ucast (js_ushr (int n) k AND 0xff) = (of_nat (n div 2 ^ (k mod 32)) :: byte)"
proof -
  have m: "(255 :: 32 word) = mask 8" by (simp add: mask_eq_exp_minus_1)
  show ?thesis using assms unfolding m
    by (auto intro!: bit_word_eqI simp: js_ushr_def bit_simps simp del: mask_numeral simp flip: drop_bit_eq_div)
qed

lemma pad_input_words: "pad_input n = DOMAIN_PAD # big_endian 4 n @ big_endian 4 n"
  by (simp add: pad_input_def upt_8 upt_4 big_endian_def shifted_byte)

lemma big_endian_8: "big_endian 8 n = big_endian 4 (n div 2 ^ 32) @ big_endian 4 n"
  by (simp add: upt_8 upt_4 big_endian_def flip: div_mult2_eq)

lemma of_nat_byte_eq: "(of_nat m :: byte) = of_nat n \<longleftrightarrow> m mod 256 = n mod 256"
  by (simp add: word_of_nat_eq_iff take_bit_eq_mod)

lemma div_mod_256: "m div 256 = n div 256 \<Longrightarrow> m mod 256 = n mod 256 \<Longrightarrow> m = (n :: nat)"
  by (metis div_mult_mod_eq)

lemma big_endian_4_inject:
  assumes "m < 2 ^ 32" "n < 2 ^ 32" "big_endian 4 m = big_endian 4 n"
  shows "m = n"
proof -
  have e: "m mod 256 = n mod 256" "m div 256 mod 256 = n div 256 mod 256"
    "m div 65536 mod 256 = n div 65536 mod 256" "m div 16777216 mod 256 = n div 16777216 mod 256"
    using assms(3) by (simp_all add: big_endian_def upt_4 of_nat_byte_eq)
  have "m div 16777216 < 256" "n div 16777216 < 256" using assms by simp_all
  with e(4) have "m div 16777216 = n div 16777216" by simp
  then have "m div 65536 div 256 = n div 65536 div 256" by (simp flip: div_mult2_eq)
  from div_mod_256 [OF this e(3)] have "m div 256 div 256 = n div 256 div 256" by (simp flip: div_mult2_eq)
  from div_mod_256 [OF div_mod_256 [OF this e(2)] e(1)] show ?thesis .
qed

text \<open>
  The padding leaf. The bytes \<^verbatim>\<open>padHash\<close> hashes are the low 32 bits of the index written twice,
  because \<^verbatim>\<open>>>>\<close> takes its shift count modulo 32; for an index below \<open>2^32\<close> they agree with the
  big-endian 64-bit layout of \<^verbatim>\<open>ledger/merkle.go\<close> only at index 0, which is never a padding index,
  and they still tell any two such indices apart.
\<close>

theorem padHash_layout:
  assumes "m < 2 ^ 32" "n < 2 ^ 32"
  shows "pad_input n = DOMAIN_PAD # big_endian 4 n @ big_endian 4 n \<and>
    (pad_input n = pad_input_u64 n \<longleftrightarrow> n = 0) \<and> (pad_input m = pad_input n \<longleftrightarrow> m = n)"
proof -
  have "length (big_endian 4 k) = 4" for k by (simp add: big_endian_def)
  then show ?thesis
    using assms big_endian_4_inject [of n 0] big_endian_4_inject [of m n]
    by (auto simp: pad_input_words pad_input_u64_def big_endian_8)
qed

theorem padHash_layout_witness:
  "pad_input 3 = [2, 0, 0, 0, 3, 0, 0, 0, 3] \<and> pad_input 3 \<noteq> pad_input_u64 3 \<and> pad_input 5 \<noteq> pad_input 3"
  using padHash_layout [of 5 3] by (auto simp: big_endian_def upt_4 DOMAIN_PAD_def)

end
