(* ===== verification/Kernel_Core.thy ===== *)
theory Kernel_Core
  imports Merkle Data_Types
begin

text \<open>
  The data of the adjudication kernel, \<^verbatim>\<open>kernel/src\<close>: the canonical byte encoding (\<^verbatim>\<open>canon.rs\<close>), claims and their
  identifiers (\<^verbatim>\<open>claim.rs\<close>), tactics (\<^verbatim>\<open>tactic.rs\<close>), policy bundles (\<^verbatim>\<open>policy.rs\<close>) and verdicts (\<^verbatim>\<open>verdict.rs\<close>).

  \<^item> An \<^verbatim>\<open>i64\<close> is an \<^typ>\<open>int\<close> in the range \<open>i64\<close>; the saturating operations clamp to that range.
  \<^item> A \<^verbatim>\<open>String\<close> is a \<^typ>\<open>string\<close> with code points below 256, its bytes are \<^const>\<open>utf8\<close>; strings compare by
    their bytes. A \<^verbatim>\<open>BTreeMap\<close> that is only looked up is a map; a \<^verbatim>\<open>BTreeSet\<close> of strings is the list of its members
    in ascending order.
  \<^item> The kernel's enumerations have the members of the console's (\<^verbatim>\<open>Data_Types\<close>); what a byte of the encoding holds is
    the position in the kernel's own declaration.
  \<^item> A value of a constructor that may fail is a sum, the error on the left; \<^const>\<open>None\<close> is a panic.
\<close>

section \<open>Integers and bytes\<close>

definition i64 :: "int \<Rightarrow> bool" where
  "i64 n \<longleftrightarrow> - (2 ^ 63) \<le> n \<and> n < 2 ^ 63"

definition sat_i64 :: "int \<Rightarrow> int" where
  "sat_i64 n = max (- (2 ^ 63)) (min (2 ^ 63 - 1) n)"

definition saturating_add :: "int \<Rightarrow> int \<Rightarrow> int" where
  "saturating_add a b = sat_i64 (a + b)"

definition saturating_mul :: "int \<Rightarrow> int \<Rightarrow> int" where
  "saturating_mul a b = sat_i64 (a * b)"

text \<open>\<^verbatim>\<open>v.to_be_bytes()\<close> of an integer of \<open>n\<close> bytes, in two's complement.\<close>

definition to_be_bytes :: "nat \<Rightarrow> int \<Rightarrow> bytes" where
  "to_be_bytes n v = map (\<lambda>i. word_of_int (v div 256 ^ i)) (rev [0..<n])"

text \<open>\<^verbatim>\<open>(len as u32).to_be_bytes()\<close>: the cast keeps the low 32 bits.\<close>

definition len_u32 :: "nat \<Rightarrow> bytes" where
  "len_u32 n = to_be_bytes 4 (int n mod 2 ^ 32)"

section \<open>The canonical encoding\<close>

definition write_str :: "bytes \<Rightarrow> string \<Rightarrow> bytes" where
  "write_str buf s = buf @ len_u32 (length (utf8 s)) @ utf8 s"

definition write_opt_str :: "bytes \<Rightarrow> string option \<Rightarrow> bytes" where
  "write_opt_str buf s = (case s of Some v \<Rightarrow> write_str (buf @ [1]) v | None \<Rightarrow> buf @ [0])"

definition write_i64 :: "bytes \<Rightarrow> int \<Rightarrow> bytes" where
  "write_i64 buf v = buf @ to_be_bytes 8 v"

definition write_opt_i64 :: "bytes \<Rightarrow> int option \<Rightarrow> bytes" where
  "write_opt_i64 buf v = (case v of Some n \<Rightarrow> write_i64 (buf @ [1]) n | None \<Rightarrow> buf @ [0])"

definition write_str_list :: "bytes \<Rightarrow> string list \<Rightarrow> bytes" where
  "write_str_list buf items = foldl write_str (buf @ len_u32 (length items)) items"

section \<open>Enumerations\<close>

fun polarity_u8 :: "Polarity \<Rightarrow> byte" where
  "polarity_u8 Supports = 0"
| "polarity_u8 Refutes = 1"

fun Polarity_name :: "Polarity \<Rightarrow> string" where
  "Polarity_name Supports = ''supports''"
| "Polarity_name Refutes = ''refutes''"

definition Polarity_from_name :: "string \<Rightarrow> Polarity option" where
  "Polarity_from_name s = (if s = ''supports'' then Some Supports else if s = ''refutes'' then Some Refutes else None)"

definition Tactic_ALL :: "Tactic list" where
  "Tactic_ALL = [InitialAccess, Execution, Persistence, PrivilegeEscalation, DefenseEvasion, CredentialAccess,
     Discovery, LateralMovement, Collection, CommandAndControl, Exfiltration, Impact]"

fun tactic_u8 :: "Tactic \<Rightarrow> nat" where
  "tactic_u8 InitialAccess = 0"
| "tactic_u8 Execution = 1"
| "tactic_u8 Persistence = 2"
| "tactic_u8 PrivilegeEscalation = 3"
| "tactic_u8 DefenseEvasion = 4"
| "tactic_u8 CredentialAccess = 5"
| "tactic_u8 Discovery = 6"
| "tactic_u8 LateralMovement = 7"
| "tactic_u8 Collection = 8"
| "tactic_u8 CommandAndControl = 9"
| "tactic_u8 Exfiltration = 10"
| "tactic_u8 Impact = 11"

fun Tactic_name :: "Tactic \<Rightarrow> string" where
  "Tactic_name InitialAccess = ''initial-access''"
| "Tactic_name Execution = ''execution''"
| "Tactic_name Persistence = ''persistence''"
| "Tactic_name PrivilegeEscalation = ''privilege-escalation''"
| "Tactic_name DefenseEvasion = ''defense-evasion''"
| "Tactic_name CredentialAccess = ''credential-access''"
| "Tactic_name Discovery = ''discovery''"
| "Tactic_name LateralMovement = ''lateral-movement''"
| "Tactic_name Collection = ''collection''"
| "Tactic_name CommandAndControl = ''command-and-control''"
| "Tactic_name Exfiltration = ''exfiltration''"
| "Tactic_name Impact = ''impact''"

definition Tactic_from_name :: "string \<Rightarrow> Tactic option" where
  "Tactic_from_name s = find (\<lambda>t. Tactic_name t = s) Tactic_ALL"

definition is_adjacent :: "Tactic \<Rightarrow> Tactic \<Rightarrow> bool" where
  "is_adjacent a b \<longleftrightarrow> \<bar>int (tactic_u8 a) - int (tactic_u8 b)\<bar> = 1"

fun severity_u8 :: "Severity \<Rightarrow> byte" where
  "severity_u8 Info = 0"
| "severity_u8 Low = 1"
| "severity_u8 Medium = 2"
| "severity_u8 High = 3"
| "severity_u8 Critical = 4"

fun Severity_name :: "Severity \<Rightarrow> string" where
  "Severity_name Info = ''info''"
| "Severity_name Low = ''low''"
| "Severity_name Medium = ''medium''"
| "Severity_name High = ''high''"
| "Severity_name Critical = ''critical''"

definition Severity_from_name :: "string \<Rightarrow> Severity option" where
  "Severity_from_name s = find (\<lambda>sev. Severity_name sev = s) [Info, Low, Medium, High, Critical]"

fun disposition_u8 :: "Disposition \<Rightarrow> byte" where
  "disposition_u8 Incomplete = 0"
| "disposition_u8 Benign = 1"
| "disposition_u8 Suspicious = 2"
| "disposition_u8 Malicious = 3"

fun Disposition_name :: "Disposition \<Rightarrow> string" where
  "Disposition_name Incomplete = ''incomplete''"
| "Disposition_name Benign = ''benign''"
| "Disposition_name Suspicious = ''suspicious''"
| "Disposition_name Malicious = ''malicious''"

fun disposition_for :: "Severity \<Rightarrow> Disposition" where
  "disposition_for Info = Benign"
| "disposition_for Low = Benign"
| "disposition_for Medium = Suspicious"
| "disposition_for High = Malicious"
| "disposition_for Critical = Malicious"

section \<open>Claims\<close>

record Claim =
  cl_predicate :: string
  cl_subject :: string
  cl_object :: "string option"
  cl_interval_start_ns :: int
  cl_interval_end_ns :: int
  cl_evidence :: "string list"
  cl_extractor_kind :: string
  cl_extractor_id :: string
  cl_extractor_version :: string
  cl_observed_value :: "int option"
  cl_polarity :: Polarity
  cl_hypothesis_ref :: "string option"

datatype EmptyEvidenceError = EmptyEvidenceError

text \<open>The arguments of \<^verbatim>\<open>Claim::new\<close> are the fields of the claim it builds.\<close>

definition Claim_new :: "Claim \<Rightarrow> EmptyEvidenceError + Claim" where
  "Claim_new args = (if cl_evidence args = [] then Inl EmptyEvidenceError else Inr args)"

definition claim_bytes :: "Claim \<Rightarrow> bytes" where
  "claim_bytes c =
     (let buf = write_str [] (cl_predicate c);
          buf = write_str buf (cl_subject c);
          buf = write_opt_str buf (cl_object c);
          buf = write_i64 buf (cl_interval_start_ns c);
          buf = write_i64 buf (cl_interval_end_ns c);
          sorted_evidence = sort_key utf8 (cl_evidence c);
          buf = write_str_list buf sorted_evidence;
          buf = write_str buf (cl_extractor_kind c);
          buf = write_str buf (cl_extractor_id c);
          buf = write_str buf (cl_extractor_version c);
          buf = write_opt_i64 buf (cl_observed_value c);
          buf = buf @ [polarity_u8 (cl_polarity c)]
      in write_opt_str buf (cl_hypothesis_ref c))"

definition claim_id :: "hash_fun \<Rightarrow> Claim \<Rightarrow> bytes" where
  "claim_id blake3 c = blake3 (claim_bytes c)"

section \<open>Policy bundles\<close>

record KPredicateWeight =
  kw_tactic :: Tactic
  kw_weight :: int
  kw_techniques :: "string list"

record KPolicyBundle =
  kp_policy_version :: string
  kp_predicate_weights :: "string \<rightharpoonup> KPredicateWeight"
  kp_chain_multipliers :: "Tactic \<times> Tactic \<rightharpoonup> int"
  kp_severity_thresholds :: "(int \<times> Severity) list"

datatype InvalidPolicyError = InvalidPolicyError string

definition PolicyBundle_new ::
  "string \<Rightarrow> (string \<rightharpoonup> KPredicateWeight) \<Rightarrow> (Tactic \<times> Tactic \<rightharpoonup> int) \<Rightarrow> (int \<times> Severity) list \<Rightarrow>
   InvalidPolicyError + KPolicyBundle" where
  "PolicyBundle_new policy_version predicate_weights chain_multipliers severity_thresholds =
     (if severity_thresholds = [] then Inl (InvalidPolicyError ''severity_thresholds must not be empty'')
      else if list_ex (\<lambda>(w0, w1). fst w1 \<le> fst w0) (zip severity_thresholds (tl severity_thresholds))
      then Inl (InvalidPolicyError ''severity_thresholds must be strictly ascending'')
      else Inr \<lparr>kp_policy_version = policy_version, kp_predicate_weights = predicate_weights,
        kp_chain_multipliers = chain_multipliers, kp_severity_thresholds = severity_thresholds\<rparr>)"

definition kclassify :: "KPolicyBundle \<Rightarrow> int \<Rightarrow> Severity option" where
  "kclassify policy total_score =
     (case kp_severity_thresholds policy of
        [] \<Rightarrow> None
      | t # _ \<Rightarrow> Some (foldl (\<lambda>result (threshold, severity). if threshold \<le> total_score then severity else result)
                       (snd t) (kp_severity_thresholds policy)))"

section \<open>Verdicts\<close>

record ContributingClaim =
  cc_claim_id :: bytes
  cc_predicate :: string
  cc_attributed_weight :: int

record Verdict =
  v_severity :: Severity
  v_confidence :: int
  v_disposition :: Disposition
  v_attack_techniques :: "string list"
  v_contributing_claims :: "ContributingClaim list"
  v_policy_version :: string
  v_kernel_version :: string
  v_verdict_hash :: bytes

definition write_contributing :: "bytes \<Rightarrow> ContributingClaim \<Rightarrow> bytes" where
  "write_contributing buf c = write_i64 (write_str (buf @ cc_claim_id c) (cc_predicate c)) (cc_attributed_weight c)"

definition verdict_bytes :: "Verdict \<Rightarrow> bytes" where
  "verdict_bytes v =
     (let buf = [severity_u8 (v_severity v)];
          buf = write_i64 buf (v_confidence v);
          buf = buf @ [disposition_u8 (v_disposition v)];
          buf = write_str_list buf (v_attack_techniques v);
          buf = foldl write_contributing (buf @ len_u32 (length (v_contributing_claims v))) (v_contributing_claims v);
          buf = write_str buf (v_policy_version v)
      in write_str buf (v_kernel_version v))"

definition compute_verdict_hash :: "hash_fun \<Rightarrow> Verdict \<Rightarrow> bytes" where
  "compute_verdict_hash blake3 v = blake3 (verdict_bytes v)"

section \<open>Facts about integers and bytes\<close>

lemma i64_sat [simp]: "i64 (sat_i64 n)"
  by (simp add: i64_def sat_i64_def)

lemma sat_i64_id: "i64 n \<Longrightarrow> sat_i64 n = n"
  by (simp add: i64_def sat_i64_def)

lemma sat_i64_mono: "m \<le> n \<Longrightarrow> sat_i64 m \<le> sat_i64 n"
  by (simp add: sat_i64_def)

lemma i64_saturating [simp]: "i64 (saturating_add a b)" "i64 (saturating_mul a b)"
  by (simp_all add: saturating_add_def saturating_mul_def)

lemma i64_small: "\<bar>n\<bar> \<le> 10000 \<Longrightarrow> i64 n"
  by (auto simp: i64_def)

lemma length_to_be_bytes [simp]: "length (to_be_bytes n v) = n"
  by (simp add: to_be_bytes_def)

lemma to_be_bytes_Suc: "to_be_bytes (Suc n) v = word_of_int (v div 256 ^ n) # to_be_bytes n v"
  by (simp add: to_be_bytes_def)

lemma byte_of_int_inject: "(word_of_int x :: byte) = word_of_int y \<longleftrightarrow> x mod 256 = y mod 256"
  by (simp add: word_of_int_eq_iff take_bit_eq_mod)

lemma to_be_bytes_inject: "to_be_bytes n a = to_be_bytes n b \<Longrightarrow> a mod 256 ^ n = b mod 256 ^ n"
proof (induction n)
  case (Suc n)
  have "a div 256 ^ n mod 256 = b div 256 ^ n mod 256" "a mod 256 ^ n = b mod 256 ^ n"
    using Suc.prems Suc.IH by (simp_all add: to_be_bytes_Suc byte_of_int_inject)
  then have "a mod (256 ^ n * 256) = b mod (256 ^ n * 256)"
    by (simp only: zmod_zmult2_eq [of 256 a "256 ^ n"] zmod_zmult2_eq [of 256 b "256 ^ n"])
  then show ?case by (simp only: power_Suc mult.commute)
qed simp

lemma length_len_u32 [simp]: "length (len_u32 n) = 4"
  by (simp add: len_u32_def)

lemma len_u32_inject: "m < 2 ^ 32 \<Longrightarrow> n < 2 ^ 32 \<Longrightarrow> len_u32 m = len_u32 n \<Longrightarrow> m = n"
  by (auto simp: len_u32_def dest!: to_be_bytes_inject)

lemma i64_bytes_inject: "i64 a \<Longrightarrow> i64 b \<Longrightarrow> to_be_bytes 8 a = to_be_bytes 8 b \<Longrightarrow> a = b"
proof -
  assume r: "i64 a" "i64 b" and e: "to_be_bytes 8 a = to_be_bytes 8 b"
  have "a mod 2 ^ 64 = b mod 2 ^ 64" using to_be_bytes_inject [OF e] by simp
  then have "(2 ^ 64 :: int) dvd a - b" by (simp only: mod_eq_dvd_iff)
  moreover have "\<bar>a - b\<bar> < 2 ^ 64" using r by (auto simp: i64_def)
  ultimately have "a - b = 0" by (metis dvd_imp_le_int abs_of_nonneg not_less zero_le_numeral zero_le_power)
  then show ?thesis by simp
qed

section \<open>The encoding is prefix-free\<close>

text \<open>
  An encoder whose output tells where it ends: two encodings followed by anything agree only if the values and what
  follows agree. The encoders of options and lists inherit this from the encoder of their elements.
\<close>

definition str_code :: "string \<Rightarrow> bytes" where
  "str_code s = len_u32 (length (utf8 s)) @ utf8 s"

definition i64_code :: "int \<Rightarrow> bytes" where
  "i64_code n = to_be_bytes 8 n"

definition contributing_code :: "ContributingClaim \<Rightarrow> bytes" where
  "contributing_code c = cc_claim_id c @ str_code (cc_predicate c) @ i64_code (cc_attributed_weight c)"

definition opt_code :: "('a \<Rightarrow> bytes) \<Rightarrow> 'a option \<Rightarrow> bytes" where
  "opt_code enc x = (case x of None \<Rightarrow> [0] | Some a \<Rightarrow> 1 # enc a)"

definition list_code :: "('a \<Rightarrow> bytes) \<Rightarrow> 'a list \<Rightarrow> bytes" where
  "list_code enc xs = len_u32 (length xs) @ concat (map enc xs)"

definition short_list :: "('a \<Rightarrow> bool) \<Rightarrow> 'a list \<Rightarrow> bool" where
  "short_list ok xs \<longleftrightarrow> length xs < 2 ^ 32 \<and> list_all ok xs"

locale prefix_code =
  fixes ok :: "'a \<Rightarrow> bool" and enc :: "'a \<Rightarrow> bytes"
  assumes split: "ok x \<Longrightarrow> ok y \<Longrightarrow> enc x @ r = enc y @ s \<Longrightarrow> x = y \<and> r = s"
begin

lemma split_iff: "ok x \<Longrightarrow> ok y \<Longrightarrow> enc x @ r = enc y @ s \<longleftrightarrow> x = y \<and> r = s"
  using split by blast

lemma inject_iff: "ok x \<Longrightarrow> ok y \<Longrightarrow> enc x = enc y \<longleftrightarrow> x = y"
  using split [of x y "[]" "[]"] by auto

lemma opt: "prefix_code (pred_option ok) (opt_code enc)"
  by unfold_locales (auto simp: opt_code_def split_iff split: option.splits)

lemma items: "list_all ok xs \<Longrightarrow> list_all ok ys \<Longrightarrow> length xs = length ys \<Longrightarrow>
    concat (map enc xs) @ r = concat (map enc ys) @ s \<Longrightarrow> xs = ys \<and> r = s"
proof (induction xs arbitrary: ys)
  case (Cons x xs)
  then obtain y zs where "ys = y # zs" by (cases ys) auto
  moreover from this Cons.prems have "x = y \<and> concat (map enc xs) @ r = concat (map enc zs) @ s"
    by (intro split) simp_all
  ultimately show ?case using Cons.IH [of zs] Cons.prems by simp
qed simp

lemma list: "prefix_code (short_list ok) (list_code enc)"
proof
  fix xs ys r s
  assume ok: "short_list ok xs" "short_list ok ys" and "list_code enc xs @ r = list_code enc ys @ s"
  then have l: "len_u32 (length xs) = len_u32 (length ys)" and c: "concat (map enc xs) @ r = concat (map enc ys) @ s"
    by (simp_all add: list_code_def)
  have "length xs = length ys" using l by (rule len_u32_inject [rotated 2]) (use ok in \<open>simp_all add: short_list_def\<close>)
  with ok c show "xs = ys \<and> r = s" by (intro items) (simp_all add: short_list_def)
qed

end

definition short_str :: "string \<Rightarrow> bool" where
  "short_str s \<longleftrightarrow> length (utf8 s) < 2 ^ 32"

lemma length_utf8: "length (utf8 s) \<le> 2 * length s"
  by (induction s) (auto simp: utf8_def utf8_char_def Let_def)

lemma short_str_small: "length s \<le> 1000 \<Longrightarrow> short_str s"
  using length_utf8 [of s] by (simp add: short_str_def)

lemma write_append:
  "write_str buf s = buf @ str_code s"
  "write_opt_str buf os = buf @ opt_code str_code os"
  "write_i64 buf n = buf @ i64_code n"
  "write_opt_i64 buf ns = buf @ opt_code i64_code ns"
  "write_contributing buf c = buf @ contributing_code c"
  by (simp_all add: write_str_def write_opt_str_def write_i64_def write_opt_i64_def write_contributing_def opt_code_def
      str_code_def i64_code_def contributing_code_def split: option.splits)

lemma foldl_write:
  assumes "\<And>buf x. w buf x = buf @ code x"
  shows "foldl w buf xs = buf @ concat (map code xs)"
  by (induction xs arbitrary: buf) (simp_all add: assms)

lemma write_list_append:
  "write_str_list buf items = buf @ list_code str_code items"
  "foldl write_contributing (buf @ len_u32 (length cs)) cs = buf @ list_code contributing_code cs"
  by (simp_all add: write_str_list_def list_code_def foldl_write [OF write_append(1)] foldl_write [OF write_append(5)])

interpretation str: prefix_code short_str str_code
proof
  fix x y r s
  assume "short_str x" "short_str y" and e: "str_code x @ r = str_code y @ s"
  moreover from e have "len_u32 (length (utf8 x)) = len_u32 (length (utf8 y))" by (simp add: str_code_def)
  ultimately have "length (utf8 x) = length (utf8 y)" by (simp add: short_str_def len_u32_inject)
  with e show "x = y \<and> r = s" by (simp add: str_code_def)
qed

interpretation int8: prefix_code i64 i64_code
  by unfold_locales (auto simp: i64_code_def dest: i64_bytes_inject)

interpretation opt_str: prefix_code "pred_option short_str" "opt_code str_code"
  by (rule str.opt)

interpretation opt_int: prefix_code "pred_option i64" "opt_code i64_code"
  by (rule int8.opt)

interpretation strs: prefix_code "short_list short_str" "list_code str_code"
  by (rule str.list)

definition contributing_ok :: "ContributingClaim \<Rightarrow> bool" where
  "contributing_ok c \<longleftrightarrow> length (cc_claim_id c) = 32 \<and> short_str (cc_predicate c) \<and> i64 (cc_attributed_weight c)"

interpretation contributing: prefix_code contributing_ok contributing_code
proof
  fix x y r s
  assume ok: "contributing_ok x" "contributing_ok y" and e: "contributing_code x @ r = contributing_code y @ s"
  then have "cc_claim_id x = cc_claim_id y" by (simp add: contributing_code_def contributing_ok_def)
  with e ok show "x = y \<and> r = s"
    by (cases x; cases y) (simp add: contributing_code_def contributing_ok_def str.split_iff int8.split_iff)
qed

interpretation contributings: prefix_code "short_list contributing_ok" "list_code contributing_code"
  by (rule contributing.list)

section \<open>What identifiers and hashes determine\<close>

text \<open>The claim with its evidence in the order the encoder uses.\<close>

definition canonical_claim :: "Claim \<Rightarrow> Claim" where
  "canonical_claim c = c\<lparr>cl_evidence := sort_key utf8 (cl_evidence c)\<rparr>"

text \<open>What a claim's memory allows: strings and lists shorter than 4 GiB, 64-bit integers.\<close>

definition claim_sized :: "Claim \<Rightarrow> bool" where
  "claim_sized c \<longleftrightarrow> short_str (cl_predicate c) \<and> short_str (cl_subject c) \<and> pred_option short_str (cl_object c) \<and>
     i64 (cl_interval_start_ns c) \<and> i64 (cl_interval_end_ns c) \<and> short_list short_str (cl_evidence c) \<and>
     short_str (cl_extractor_kind c) \<and> short_str (cl_extractor_id c) \<and> short_str (cl_extractor_version c) \<and>
     pred_option i64 (cl_observed_value c) \<and> pred_option short_str (cl_hypothesis_ref c)"

lemma polarity_u8_inject: "polarity_u8 a = polarity_u8 b \<longleftrightarrow> a = b"
  by (cases a; cases b) simp_all

lemma severity_u8_inject: "severity_u8 a = severity_u8 b \<longleftrightarrow> a = b"
  by (cases a; cases b) simp_all

lemma disposition_u8_inject: "disposition_u8 a = disposition_u8 b \<longleftrightarrow> a = b"
  by (cases a; cases b) simp_all

lemma short_sorted_evidence: "short_list P (sort_key f xs) \<longleftrightarrow> short_list P xs"
  by (simp add: short_list_def list_all_iff)

lemma claim_bytes_append:
  "claim_bytes c = str_code (cl_predicate c) @ str_code (cl_subject c) @ opt_code str_code (cl_object c) @
     i64_code (cl_interval_start_ns c) @ i64_code (cl_interval_end_ns c) @
     list_code str_code (sort_key utf8 (cl_evidence c)) @ str_code (cl_extractor_kind c) @
     str_code (cl_extractor_id c) @ str_code (cl_extractor_version c) @
     opt_code i64_code (cl_observed_value c) @ polarity_u8 (cl_polarity c) # opt_code str_code (cl_hypothesis_ref c)"
  by (simp add: claim_bytes_def Let_def write_append write_list_append)

lemma claim_bytes_inject:
  assumes "claim_sized c" "claim_sized d"
  shows "claim_bytes c = claim_bytes d \<longleftrightarrow> canonical_claim c = canonical_claim d"
  using assms unfolding claim_bytes_append
  by (cases c; cases d)
     (auto simp: claim_sized_def canonical_claim_def short_sorted_evidence str.split_iff opt_str.split_iff int8.split_iff
       strs.split_iff opt_int.split_iff polarity_u8_inject opt_str.inject_iff)

lemma sort_key_utf8_eq: "sort_key utf8 xs = sort_key utf8 ys \<longleftrightarrow> mset xs = mset ys"
proof
  assume "sort_key utf8 xs = sort_key utf8 ys"
  then show "mset xs = mset ys" by (metis mset_sort)
next
  assume "mset xs = mset ys"
  then show "sort_key utf8 xs = sort_key utf8 ys"
    by (intro sort_key_inj_key_eq) (simp_all add: inj_on_def)
qed

text \<open>Everything in a verdict but its hash, and what the encoding of it needs.\<close>

definition verdict_sized :: "Verdict \<Rightarrow> bool" where
  "verdict_sized v \<longleftrightarrow> i64 (v_confidence v) \<and> short_list short_str (v_attack_techniques v) \<and>
     short_list contributing_ok (v_contributing_claims v) \<and> short_str (v_policy_version v) \<and> short_str (v_kernel_version v)"

lemma verdict_bytes_append:
  "verdict_bytes v = severity_u8 (v_severity v) # i64_code (v_confidence v) @ disposition_u8 (v_disposition v) #
     list_code str_code (v_attack_techniques v) @ list_code contributing_code (v_contributing_claims v) @
     str_code (v_policy_version v) @ str_code (v_kernel_version v)"
  by (simp add: verdict_bytes_def Let_def write_append write_list_append foldl_write [OF write_append(5)] list_code_def)

lemma verdict_bytes_inject:
  assumes "verdict_sized v" "verdict_sized w"
  shows "verdict_bytes v = verdict_bytes w \<longleftrightarrow> v\<lparr>v_verdict_hash := []\<rparr> = w\<lparr>v_verdict_hash := []\<rparr>"
  using assms unfolding verdict_bytes_append
  by (cases v; cases w)
     (auto simp: verdict_sized_def str.split_iff int8.split_iff strs.split_iff contributings.split_iff str.inject_iff
       severity_u8_inject disposition_u8_inject)

section \<open>Properties\<close>

text \<open>
  C12: a claim identifier is the content address of the claim. The encoding of a claim ends where its fields say it ends,
  so where the two texts hashed do not collide, two claims have the same identifier exactly if they agree in every field,
  the evidence counted as a multiset: the order a caller lists evidence in is irrelevant, everything else is binding.
\<close>

theorem claim_id_content_address:
  assumes "claim_sized c" "claim_sized d" "collision_free blake3 [claim_bytes c, claim_bytes d]"
  shows "claim_id blake3 c = claim_id blake3 d \<longleftrightarrow>
    c\<lparr>cl_evidence := []\<rparr> = d\<lparr>cl_evidence := []\<rparr> \<and> mset (cl_evidence c) = mset (cl_evidence d)"
proof -
  have "claim_id blake3 c = claim_id blake3 d \<longleftrightarrow> claim_bytes c = claim_bytes d"
    using collision_freeD [OF assms(3)] by (auto simp: claim_id_def)
  also have "\<dots> \<longleftrightarrow> canonical_claim c = canonical_claim d" by (rule claim_bytes_inject [OF assms(1,2)])
  also have "\<dots> \<longleftrightarrow> c\<lparr>cl_evidence := []\<rparr> = d\<lparr>cl_evidence := []\<rparr> \<and> mset (cl_evidence c) = mset (cl_evidence d)"
    by (cases c; cases d) (auto simp: canonical_claim_def sort_key_utf8_eq)
  finally show ?thesis .
qed

end
