(* ===== verification/Kernel_Adjudicate.thy ===== *)
theory Kernel_Adjudicate
  imports Kernel_Core
begin

text \<open>
  \<^verbatim>\<open>kernel/src/lib.rs\<close>: the adjudication of a claim set under a policy bundle, and \<^verbatim>\<open>kernel/src/blast_radius.rs\<close>: the
  risk tier of a proposed action. The loop over the claims, ordered by identifier, is a fold over the state it keeps;
  \<^const>\<open>None\<close> is a panic, which only a bundle without thresholds could cause.
\<close>

section \<open>Operations\<close>

text \<open>\<^verbatim>\<open>BTreeSet::insert\<close> on the ascending list of members.\<close>

definition bset_insert :: "string list \<Rightarrow> string \<Rightarrow> string list" where
  "bset_insert xs x = (if x \<in> set xs then xs else insort_key utf8 x xs)"

record Tally =
  ta_tactic_scores :: "Tactic \<rightharpoonup> int"
  ta_contributing :: "ContributingClaim list"
  ta_techniques :: "string list"
  ta_usable_claim_count :: nat

definition tally_start :: Tally where
  "tally_start = \<lparr>ta_tactic_scores = Map.empty, ta_contributing = [], ta_techniques = [], ta_usable_claim_count = 0\<rparr>"

definition contribution :: "KPredicateWeight \<Rightarrow> Polarity \<Rightarrow> int" where
  "contribution pw polarity = saturating_mul (kw_weight pw) (case polarity of Supports \<Rightarrow> 1 | Refutes \<Rightarrow> - 1)"

definition tally_claim :: "KPolicyBundle \<Rightarrow> Tally \<Rightarrow> Claim \<times> bytes \<Rightarrow> Tally" where
  "tally_claim policy st x =
     (case x of (claim, cid) \<Rightarrow>
        if cl_evidence claim = [] then st
        else case kp_predicate_weights policy (cl_predicate claim) of
               None \<Rightarrow> st
             | Some pw \<Rightarrow>
                 (let w = contribution pw (cl_polarity claim);
                      entry = (case ta_tactic_scores st (kw_tactic pw) of None \<Rightarrow> 0 | Some e \<Rightarrow> e)
                  in \<lparr>ta_tactic_scores = (ta_tactic_scores st)(kw_tactic pw \<mapsto> saturating_add entry w),
                      ta_contributing = ta_contributing st @
                        [\<lparr>cc_claim_id = cid, cc_predicate = cl_predicate claim, cc_attributed_weight = w\<rparr>],
                      ta_techniques = foldl bset_insert (ta_techniques st) (kw_techniques pw),
                      ta_usable_claim_count = ta_usable_claim_count st + 1\<rparr>))"

text \<open>A \<^verbatim>\<open>BTreeMap\<close> keyed by tactics iterates in kill-chain order.\<close>

definition present_tactics :: "(Tactic \<rightharpoonup> int) \<Rightarrow> Tactic list" where
  "present_tactics scores = filter (\<lambda>t. scores t \<noteq> None) Tactic_ALL"

definition base_total :: "(Tactic \<rightharpoonup> int) \<Rightarrow> int" where
  "base_total scores = foldl saturating_add 0 (List.map_filter scores Tactic_ALL)"

definition add_bonus :: "KPolicyBundle \<Rightarrow> int \<Rightarrow> Tactic \<times> Tactic \<Rightarrow> int" where
  "add_bonus policy bonus pair =
     (if is_adjacent (fst pair) (snd pair)
      then (case kp_chain_multipliers policy pair of None \<Rightarrow> bonus | Some mul \<Rightarrow> saturating_add bonus mul)
      else bonus)"

definition chain_bonus :: "KPolicyBundle \<Rightarrow> Tactic list \<Rightarrow> int" where
  "chain_bonus policy present = foldl (add_bonus policy) 0 (zip present (tl present))"

definition clamp_confidence :: "int \<Rightarrow> int" where
  "clamp_confidence n = max 0 (min 10000 n)"

definition with_hash :: "hash_fun \<Rightarrow> Verdict \<Rightarrow> Verdict" where
  "with_hash blake3 v = v\<lparr>v_verdict_hash := compute_verdict_hash blake3 v\<rparr>"

definition incomplete_verdict :: "KPolicyBundle \<Rightarrow> string \<Rightarrow> Verdict" where
  "incomplete_verdict policy kernel_version = \<lparr>v_severity = Info, v_confidence = 0, v_disposition = Incomplete,
     v_attack_techniques = [], v_contributing_claims = [], v_policy_version = kp_policy_version policy,
     v_kernel_version = kernel_version, v_verdict_hash = replicate 32 0\<rparr>"

definition ordered_claims :: "hash_fun \<Rightarrow> Claim list \<Rightarrow> (Claim \<times> bytes) list" where
  "ordered_claims blake3 claims = sort_key snd (map (\<lambda>c. (c, claim_id blake3 c)) claims)"

definition adjudicate :: "hash_fun \<Rightarrow> Claim list \<Rightarrow> KPolicyBundle \<Rightarrow> string \<Rightarrow> Verdict option" where
  "adjudicate blake3 claims policy kernel_version =
     (let tally = foldl (tally_claim policy) tally_start (ordered_claims blake3 claims)
      in if ta_usable_claim_count tally = 0 then Some (with_hash blake3 (incomplete_verdict policy kernel_version))
         else let total_score = saturating_add (base_total (ta_tactic_scores tally))
                    (chain_bonus policy (present_tactics (ta_tactic_scores tally)))
              in map_option (\<lambda>severity. with_hash blake3 \<lparr>
                   v_severity = severity,
                   v_confidence = clamp_confidence total_score,
                   v_disposition = disposition_for severity,
                   v_attack_techniques = ta_techniques tally,
                   v_contributing_claims = sort_key cc_claim_id (ta_contributing tally),
                   v_policy_version = kp_policy_version policy,
                   v_kernel_version = kernel_version,
                   v_verdict_hash = replicate 32 0\<rparr>) (kclassify policy total_score))"

section \<open>Blast radius\<close>

record BlastRadiusInput =
  bi_action :: string
  bi_target_principals :: "string list"
  bi_target_hosts :: "string list"
  bi_dependent_services :: "string list"
  bi_critical_assets :: "string list"

datatype RiskTier = LowRisk | MediumRisk | HighRisk | CriticalRisk

record KBlastRadius =
  ra_principal_count :: int
  ra_host_count :: int
  ra_dependent_service_count :: int
  ra_touches_critical_asset :: bool
  ra_risk_tier :: RiskTier

definition evaluate_blast_radius :: "BlastRadiusInput \<Rightarrow> KBlastRadius" where
  "evaluate_blast_radius input =
     (let principal_count = int (length (bi_target_principals input));
          host_count = int (length (bi_target_hosts input));
          dependent_service_count = int (length (bi_dependent_services input));
          touches_critical_asset =
            list_ex (\<lambda>t. t \<in> set (bi_critical_assets input)) (bi_target_principals input @ bi_target_hosts input);
          scope = saturating_add (saturating_add principal_count host_count) dependent_service_count
      in \<lparr>ra_principal_count = principal_count, ra_host_count = host_count,
          ra_dependent_service_count = dependent_service_count, ra_touches_critical_asset = touches_critical_asset,
          ra_risk_tier = (if touches_critical_asset then CriticalRisk else if 50 < scope then HighRisk
            else if 5 < scope then MediumRisk else LowRisk)\<rparr>)"

section \<open>The tally in closed form\<close>

text \<open>What the loop reads of a claim, and which claims it uses.\<close>

definition usable :: "KPolicyBundle \<Rightarrow> Claim \<Rightarrow> bool" where
  "usable policy c \<longleftrightarrow> cl_evidence c \<noteq> [] \<and> kp_predicate_weights policy (cl_predicate c) \<noteq> None"

definition price_of :: "KPolicyBundle \<Rightarrow> Claim \<Rightarrow> KPredicateWeight" where
  "price_of policy c = the (kp_predicate_weights policy (cl_predicate c))"

definition weight_of :: "KPolicyBundle \<Rightarrow> Claim \<Rightarrow> int" where
  "weight_of policy c = contribution (price_of policy c) (cl_polarity c)"

definition contributing_of_claim :: "KPolicyBundle \<Rightarrow> Claim \<times> bytes \<Rightarrow> ContributingClaim" where
  "contributing_of_claim policy x = \<lparr>cc_claim_id = snd x, cc_predicate = cl_predicate (fst x),
     cc_attributed_weight = weight_of policy (fst x)\<rparr>"

definition tactic_weights :: "KPolicyBundle \<Rightarrow> Claim list \<Rightarrow> Tactic \<Rightarrow> int list" where
  "tactic_weights policy cs t = map (weight_of policy) (filter (\<lambda>c. kw_tactic (price_of policy c) = t) cs)"

definition scores_of :: "KPolicyBundle \<Rightarrow> Claim list \<Rightarrow> Tactic \<rightharpoonup> int" where
  "scores_of policy cs t =
     (if tactic_weights policy cs t = [] then None else Some (foldl saturating_add 0 (tactic_weights policy cs t)))"

lemma set_bset_insert [simp]: "set (bset_insert xs x) = insert x (set xs)"
  by (auto simp: bset_insert_def set_insort_key)

definition bset :: "string list \<Rightarrow> bool" where
  "bset xs \<longleftrightarrow> sorted (map utf8 xs) \<and> distinct xs"

lemma bset_insert_sorted: "bset xs \<Longrightarrow> bset (bset_insert xs x)"
  by (simp add: bset_def bset_insert_def sorted_insort_key distinct_insort)

lemma bset_inserts:
  "set (foldl bset_insert xs ys) = set xs \<union> set ys" "bset xs \<Longrightarrow> bset (foldl bset_insert xs ys)"
  by (induction ys arbitrary: xs) (auto simp: bset_insert_sorted)

lemma bset_unique: "bset xs \<Longrightarrow> bset ys \<Longrightarrow> set xs = set ys \<Longrightarrow> xs = ys"
proof -
  assume "bset xs" "bset ys" "set xs = set ys"
  moreover have "inj utf8" by (simp add: inj_def)
  ultimately have "map utf8 xs = map utf8 ys"
    by (intro sorted_distinct_set_unique) (simp_all add: bset_def distinct_map inj_on_def)
  with \<open>inj utf8\<close> show ?thesis by (simp add: inj_map_eq_map)
qed

lemma tally_claim_unusable: "\<not> usable policy (fst x) \<Longrightarrow> tally_claim policy st x = st"
  by (auto simp: tally_claim_def usable_def split: prod.splits option.splits)

lemma tally_claim_usable:
  assumes "usable policy (fst x)"
  shows "ta_tactic_scores (tally_claim policy st x) = (ta_tactic_scores st)(kw_tactic (price_of policy (fst x)) \<mapsto>
        saturating_add (case ta_tactic_scores st (kw_tactic (price_of policy (fst x))) of None \<Rightarrow> 0 | Some e \<Rightarrow> e)
          (weight_of policy (fst x)))"
    "ta_contributing (tally_claim policy st x) = ta_contributing st @ [contributing_of_claim policy x]"
    "ta_techniques (tally_claim policy st x) = foldl bset_insert (ta_techniques st) (kw_techniques (price_of policy (fst x)))"
    "ta_usable_claim_count (tally_claim policy st x) = ta_usable_claim_count st + 1"
  using assms
  by (auto simp: tally_claim_def usable_def price_of_def weight_of_def contributing_of_claim_def Let_def split: prod.splits)

text \<open>Claims the loop skips leave no trace.\<close>

lemma tally_filter:
  "foldl (tally_claim policy) st xs = foldl (tally_claim policy) st (filter (\<lambda>x. usable policy (fst x)) xs)"
  by (induction xs arbitrary: st) (simp_all add: tally_claim_unusable)

lemma tactic_weights_snoc:
  "tactic_weights policy (cs @ [c]) t =
     tactic_weights policy cs t @ (if kw_tactic (price_of policy c) = t then [weight_of policy c] else [])"
  by (simp add: tactic_weights_def)

lemma scores_of_snoc:
  "scores_of policy (cs @ [c]) = (scores_of policy cs)(kw_tactic (price_of policy c) \<mapsto>
     saturating_add (case scores_of policy cs (kw_tactic (price_of policy c)) of None \<Rightarrow> 0 | Some e \<Rightarrow> e) (weight_of policy c))"
  by (rule ext) (simp add: scores_of_def tactic_weights_snoc)

definition techniques_of :: "KPolicyBundle \<Rightarrow> Claim list \<Rightarrow> string list" where
  "techniques_of policy cs = sort_key utf8 (remdups (concat (map (\<lambda>c. kw_techniques (price_of policy c)) cs)))"

lemma bset_techniques_of: "bset (techniques_of policy cs)"
  "set (techniques_of policy cs) = (\<Union>c \<in> set cs. set (kw_techniques (price_of policy c)))"
  by (simp_all add: bset_def techniques_of_def)

lemma tally_usable:
  assumes "list_all (\<lambda>x. usable policy (fst x)) xs"
  shows "ta_tactic_scores (foldl (tally_claim policy) tally_start xs) = scores_of policy (map fst xs) \<and>
    ta_contributing (foldl (tally_claim policy) tally_start xs) = map (contributing_of_claim policy) xs \<and>
    ta_usable_claim_count (foldl (tally_claim policy) tally_start xs) = length xs \<and>
    ta_techniques (foldl (tally_claim policy) tally_start xs) = techniques_of policy (map fst xs)"
  using assms
proof (induction xs rule: rev_induct)
  case Nil
  have "scores_of policy [] = Map.empty" by (rule ext) (simp add: scores_of_def tactic_weights_def)
  then show ?case by (simp add: tally_start_def techniques_of_def)
next
  case (snoc x xs)
  then have u: "usable policy (fst x)" and IH: "list_all (\<lambda>x. usable policy (fst x)) xs" by simp_all
  have "foldl bset_insert (techniques_of policy (map fst xs)) (kw_techniques (price_of policy (fst x))) =
      techniques_of policy (map fst (xs @ [x]))"
    by (rule bset_unique) (auto simp: bset_inserts bset_techniques_of)
  with snoc.IH [OF IH] show ?case by (simp add: tally_claim_usable [OF u] scores_of_snoc contributing_of_claim_def)
qed

text \<open>The claims a verdict rests on, in ascending order of their identifiers.\<close>

definition ranked :: "hash_fun \<Rightarrow> KPolicyBundle \<Rightarrow> Claim list \<Rightarrow> Claim list" where
  "ranked blake3 policy claims = filter (usable policy) (sort_key (claim_id blake3) claims)"

lemma insort_key_map: "insort_key f (g x) (map g xs) = map g (insort_key (\<lambda>y. f (g y)) x xs)"
  by (induction xs) simp_all

lemma sort_key_map: "sort_key f (map g xs) = map g (sort_key (\<lambda>y. f (g y)) xs)"
  by (induction xs) (simp_all add: insort_key_map)

lemma sort_key_sorted: "sorted (map f xs) \<Longrightarrow> sort_key f xs = xs"
  by (induction xs) (simp_all add: insort_is_Cons)

lemma ranked_sorted: "sorted (map (claim_id blake3) (ranked blake3 policy claims))"
  by (simp add: ranked_def sorted_filter)

lemma mset_ranked: "mset (ranked blake3 policy claims) = filter_mset (usable policy) (mset claims)"
  by (simp add: ranked_def mset_filter)

lemma ranked_Nil_iff: "ranked blake3 policy claims = [] \<longleftrightarrow> \<not> list_ex (usable policy) claims"
  by (auto simp: ranked_def list_ex_iff filter_empty_conv)

lemma ordered_claims_eq: "ordered_claims blake3 claims = map (\<lambda>c. (c, claim_id blake3 c)) (sort_key (claim_id blake3) claims)"
  by (simp add: ordered_claims_def sort_key_map)

definition total_score :: "KPolicyBundle \<Rightarrow> Claim list \<Rightarrow> int" where
  "total_score policy us = saturating_add (base_total (scores_of policy us)) (chain_bonus policy (present_tactics (scores_of policy us)))"

definition contributing_claims :: "hash_fun \<Rightarrow> KPolicyBundle \<Rightarrow> Claim list \<Rightarrow> ContributingClaim list" where
  "contributing_claims blake3 policy us = map (\<lambda>c. \<lparr>cc_claim_id = claim_id blake3 c, cc_predicate = cl_predicate c,
     cc_attributed_weight = weight_of policy c\<rparr>) us"

lemma contributing_sorted:
  "sort_key cc_claim_id (contributing_claims blake3 policy (ranked blake3 policy cs)) = contributing_claims blake3 policy (ranked blake3 policy cs)"
  by (simp add: contributing_claims_def sort_key_map sort_key_sorted ranked_sorted)

lemma adjudicate_eq:
  "adjudicate blake3 claims policy kernel_version =
     (let us = ranked blake3 policy claims
      in if us = [] then Some (with_hash blake3 (incomplete_verdict policy kernel_version))
         else map_option (\<lambda>severity. with_hash blake3 \<lparr>
                v_severity = severity,
                v_confidence = clamp_confidence (total_score policy us),
                v_disposition = disposition_for severity,
                v_attack_techniques = techniques_of policy us,
                v_contributing_claims = contributing_claims blake3 policy us,
                v_policy_version = kp_policy_version policy,
                v_kernel_version = kernel_version,
                v_verdict_hash = replicate 32 0\<rparr>) (kclassify policy (total_score policy us)))"
proof -
  let ?us = "ranked blake3 policy claims"
  let ?xs = "map (\<lambda>c. (c, claim_id blake3 c)) ?us"
  have f: "filter (\<lambda>x. usable policy (fst x)) (ordered_claims blake3 claims) = ?xs"
    by (simp add: ordered_claims_eq ranked_def filter_map comp_def)
  have u: "list_all (\<lambda>x. usable policy (fst x)) ?xs" by (simp add: ranked_def list_all_iff)
  have c: "map (contributing_of_claim policy) ?xs = contributing_claims blake3 policy ?us"
    by (simp add: contributing_claims_def contributing_of_claim_def)
  have "map fst ?xs = ?us" by (simp add: comp_def)
  with tally_usable [OF u] show ?thesis
    unfolding adjudicate_def tally_filter [of policy tally_start "ordered_claims blake3 claims"] f
    by (simp only: Let_def c contributing_sorted total_score_def length_map length_0_conv)
qed

section \<open>Order does not matter\<close>

lemma canonical_claim_simps [simp]:
  "cl_predicate (canonical_claim c) = cl_predicate c" "cl_polarity (canonical_claim c) = cl_polarity c"
  "cl_evidence (canonical_claim c) = [] \<longleftrightarrow> cl_evidence c = []"
  "claim_bytes (canonical_claim c) = claim_bytes c" "claim_sized (canonical_claim c) = claim_sized c"
  "canonical_claim (canonical_claim c) = canonical_claim c"
  by (simp_all add: canonical_claim_def claim_bytes_append claim_sized_def short_sorted_evidence sort_key_sorted)

lemma canonical_reading [simp]:
  "claim_id blake3 (canonical_claim c) = claim_id blake3 c" "usable policy (canonical_claim c) = usable policy c"
  "price_of policy (canonical_claim c) = price_of policy c" "weight_of policy (canonical_claim c) = weight_of policy c"
  by (simp_all add: claim_id_def usable_def price_of_def weight_of_def)

lemma ranked_canonical: "ranked blake3 policy (map canonical_claim claims) = map canonical_claim (ranked blake3 policy claims)"
  by (simp add: ranked_def sort_key_map filter_map comp_def)

lemma reading_canonical:
  "scores_of policy (map canonical_claim us) = scores_of policy us"
  "techniques_of policy (map canonical_claim us) = techniques_of policy us"
  "contributing_claims blake3 policy (map canonical_claim us) = contributing_claims blake3 policy us"
proof -
  have "tactic_weights policy (map canonical_claim us) t = tactic_weights policy us t" for t
    by (simp add: tactic_weights_def filter_map comp_def)
  then show "scores_of policy (map canonical_claim us) = scores_of policy us" by (simp add: scores_of_def fun_eq_iff)
qed (simp_all add: techniques_of_def contributing_claims_def comp_def)

lemma adjudicate_canonical: "adjudicate blake3 (map canonical_claim claims) policy kv = adjudicate blake3 claims policy kv"
  unfolding adjudicate_eq ranked_canonical by (simp add: total_score_def reading_canonical Let_def)

lemma claim_id_separates:
  assumes "list_all claim_sized cs" "collision_free blake3 (map claim_bytes cs)" "c \<in> set cs" "d \<in> set cs"
    and "claim_id blake3 c = claim_id blake3 d"
  shows "canonical_claim c = canonical_claim d"
proof -
  have "claim_bytes c = claim_bytes d"
    by (rule collision_freeD [OF assms(2)]) (use assms(3-5) in \<open>auto simp: claim_id_def\<close>)
  moreover have "claim_sized c" "claim_sized d" using assms(1,3,4) by (simp_all add: list_all_iff)
  ultimately show ?thesis by (simp only: claim_bytes_inject)
qed

section \<open>Scores without overflow\<close>

lemma saturating_sum:
  assumes "\<bar>a\<bar> + sum_list (map abs xs) < 2 ^ 63"
  shows "foldl saturating_add a xs = a + sum_list xs"
  using assms
proof (induction xs arbitrary: a)
  case (Cons x xs)
  have "0 \<le> sum_list (map abs xs)" by (rule sum_list_nonneg) auto
  with Cons.prems have "saturating_add a x = a + x" by (auto simp: saturating_add_def intro!: sat_i64_id simp: i64_def)
  moreover have "foldl saturating_add (a + x) xs = a + x + sum_list xs"
    using Cons.prems by (intro Cons.IH) auto
  ultimately show ?case by simp
qed simp

text \<open>The bonus of every adjacent pair of tactics that both occur, in kill-chain order.\<close>

definition adjacent_pairs :: "(Tactic \<times> Tactic) list" where
  "adjacent_pairs = zip Tactic_ALL (tl Tactic_ALL)"

definition bonus_of :: "KPolicyBundle \<Rightarrow> Tactic \<times> Tactic \<Rightarrow> int" where
  "bonus_of policy pair = (case kp_chain_multipliers policy pair of None \<Rightarrow> 0 | Some b \<Rightarrow> b)"

definition signed_price :: "KPolicyBundle \<Rightarrow> Claim \<Rightarrow> int" where
  "signed_price policy c = (if cl_polarity c = Supports then kw_weight (price_of policy c) else - kw_weight (price_of policy c))"

definition score_spec :: "KPolicyBundle \<Rightarrow> Claim list \<Rightarrow> int" where
  "score_spec policy us = sum_list (map (signed_price policy) us) +
     sum_list (map (bonus_of policy) (filter (\<lambda>(a, b). \<exists>c \<in> set us. \<exists>d \<in> set us.
       kw_tactic (price_of policy c) = a \<and> kw_tactic (price_of policy d) = b) adjacent_pairs))"

lemma sum_by_tactic:
  fixes f :: "Claim \<Rightarrow> int"
  shows "sum_list (map (\<lambda>t. sum_list (map f (filter (\<lambda>c. g c = t) us))) Tactic_ALL) = sum_list (map f us)"
proof (induction us)
  case (Cons c us)
  have "sum_list (map (\<lambda>t. if g c = t then f c else 0) Tactic_ALL) = f c"
    by (cases "g c") (simp_all add: Tactic_ALL_def)
  moreover have "sum_list (map f (filter (\<lambda>c. g c = t) (c # us))) =
      (if g c = t then f c else 0) + sum_list (map f (filter (\<lambda>c. g c = t) us))" for t
    by simp
  ultimately show ?case using Cons by (simp only: sum_list_addf list.map sum_list.Cons)
qed simp

lemma abs_sum_list: "\<bar>sum_list xs\<bar> \<le> sum_list (map abs xs)" for xs :: "int list"
  by (induction xs) auto

lemma sum_map_filter: "sum_list (List.map_filter f xs) = sum_list (map (\<lambda>x. case f x of None \<Rightarrow> 0 | Some y \<Rightarrow> y) xs)" for f :: "_ \<Rightarrow> int option"
  by (induction xs) (auto simp: map_filter_simps split: option.splits)

lemma map_abs_map_filter: "map abs (List.map_filter f xs) = List.map_filter (\<lambda>x. map_option abs (f x)) xs" for f :: "_ \<Rightarrow> int option"
  by (induction xs) (auto simp: map_filter_simps split: option.splits)

text \<open>No prefix of the sums leaves the range when the absolute values of everything added fit together.\<close>

definition load :: "KPolicyBundle \<Rightarrow> Claim list \<Rightarrow> int" where
  "load policy us = sum_list (map (\<lambda>c. \<bar>kw_weight (price_of policy c)\<bar>) us) + sum_list (map (\<lambda>p. \<bar>bonus_of policy p\<bar>) adjacent_pairs)"

lemma weight_of_price:
  assumes "\<bar>kw_weight (price_of policy c)\<bar> < 2 ^ 63"
  shows "weight_of policy c = signed_price policy c" "\<bar>signed_price policy c\<bar> = \<bar>kw_weight (price_of policy c)\<bar>"
proof -
  show "weight_of policy c = signed_price policy c"
    using assms by (cases "cl_polarity c")
      (auto simp: weight_of_def signed_price_def contribution_def saturating_mul_def intro!: sat_i64_id simp: i64_def)
qed (simp add: signed_price_def)

lemma member_le_abs_sum: "x \<in> set xs \<Longrightarrow> \<bar>f x\<bar> \<le> sum_list (map (\<lambda>x. \<bar>f x\<bar>) xs)" for f :: "_ \<Rightarrow> int"
  by (rule member_le_sum_list) auto

lemma load_weights:
  assumes "load policy us < 2 ^ 63"
  shows "map (weight_of policy) us = map (signed_price policy) us"
    "load policy us = sum_list (map (\<lambda>c. \<bar>weight_of policy c\<bar>) us) + sum_list (map (\<lambda>p. \<bar>bonus_of policy p\<bar>) adjacent_pairs)"
proof -
  have "0 \<le> sum_list (map (\<lambda>p. \<bar>bonus_of policy p\<bar>) adjacent_pairs)" by (rule sum_list_nonneg) auto
  then have s: "sum_list (map (\<lambda>c. \<bar>kw_weight (price_of policy c)\<bar>) us) < 2 ^ 63" using assms by (simp add: load_def)
  have "\<bar>kw_weight (price_of policy c)\<bar> < 2 ^ 63" if "c \<in> set us" for c
    by (rule le_less_trans [OF member_le_abs_sum [OF that] s])
  note w = weight_of_price [OF this]
  show "map (weight_of policy) us = map (signed_price policy) us" using w(1) by simp
  have "map (\<lambda>c. \<bar>weight_of policy c\<bar>) us = map (\<lambda>c. \<bar>kw_weight (price_of policy c)\<bar>) us" using w by simp
  then show "load policy us = sum_list (map (\<lambda>c. \<bar>weight_of policy c\<bar>) us) + sum_list (map (\<lambda>p. \<bar>bonus_of policy p\<bar>) adjacent_pairs)"
    by (simp only: load_def)
qed

lemma score_exact_tactic:
  assumes "sum_list (map (\<lambda>c. \<bar>weight_of policy c\<bar>) us) < 2 ^ 63"
  shows "scores_of policy us t = (if tactic_weights policy us t = [] then None else Some (sum_list (tactic_weights policy us t)))"
proof -
  have "sum_list (map abs (tactic_weights policy us t)) \<le> sum_list (map (\<lambda>c. \<bar>weight_of policy c\<bar>) us)"
    by (induction us) (auto simp: tactic_weights_def)
  with assms show ?thesis by (simp add: scores_of_def saturating_sum)
qed

lemma base_total_exact:
  assumes "sum_list (map (\<lambda>c. \<bar>weight_of policy c\<bar>) us) < 2 ^ 63"
  shows "base_total (scores_of policy us) = sum_list (map (weight_of policy) us)"
proof -
  let ?v = "List.map_filter (scores_of policy us) Tactic_ALL"
  let ?g = "\<lambda>c. kw_tactic (price_of policy c)"
  note e = score_exact_tactic [OF assms]
  have "sum_list (map abs ?v) = sum_list (map (\<lambda>t. \<bar>sum_list (tactic_weights policy us t)\<bar>) Tactic_ALL)"
    unfolding map_abs_map_filter sum_map_filter by (rule arg_cong [where f = sum_list], rule map_cong) (auto simp: e)
  also have "\<dots> \<le> sum_list (map (\<lambda>t. sum_list (map abs (tactic_weights policy us t))) Tactic_ALL)"
    by (rule sum_list_mono) (rule abs_sum_list)
  also have "\<dots> = sum_list (map (\<lambda>c. \<bar>weight_of policy c\<bar>) us)"
    using sum_by_tactic [of "\<lambda>c. \<bar>weight_of policy c\<bar>" ?g us] by (simp add: tactic_weights_def comp_def)
  finally have "base_total (scores_of policy us) = sum_list ?v"
    using assms saturating_sum [of 0 ?v] by (simp add: base_total_def)
  also have "\<dots> = sum_list (map (\<lambda>t. sum_list (tactic_weights policy us t)) Tactic_ALL)"
    unfolding sum_map_filter by (rule arg_cong [where f = sum_list], rule map_cong) (auto simp: e)
  also have "\<dots> = sum_list (map (weight_of policy) us)"
    using sum_by_tactic [of "weight_of policy" ?g us] by (simp add: tactic_weights_def)
  finally show ?thesis .
qed

text \<open>Consecutive present tactics that are adjacent are the adjacent pairs with both members present.\<close>

abbreviation next_tactic :: "Tactic \<Rightarrow> Tactic \<Rightarrow> bool" where
  "next_tactic a b \<equiv> tactic_u8 b = Suc (tactic_u8 a)"

lemma successive_above: "successively next_tactic (x # xs) \<Longrightarrow> z \<in> set xs \<Longrightarrow> tactic_u8 x < tactic_u8 z"
proof (induction xs arbitrary: x)
  case (Cons y xs)
  from Cons.prems(1) have "tactic_u8 x < tactic_u8 y" "successively next_tactic (y # xs)" by simp_all
  with Cons.IH [of y] Cons.prems(2) show ?case by auto
qed simp

lemma adjacent_windows:
  assumes "successively next_tactic xs"
  shows "filter (\<lambda>p. is_adjacent (fst p) (snd p)) (zip (filter P xs) (tl (filter P xs))) =
    filter (\<lambda>(a, b). P a \<and> P b) (zip xs (tl xs))"
  using assms
proof (induction xs rule: induct_list012)
  case (3 x y xs)
  note IH = "3.IH"(2)
  show ?case
  proof (cases "P x \<and> \<not> P y")
    case True
    have "\<not> is_adjacent x z" if "z \<in> set xs" for z
      using that 3 successive_above [of y xs z] by (auto simp: is_adjacent_def)
    moreover have "filter P xs = [] \<or> (\<exists>z zs. filter P xs = z # zs \<and> z \<in> set xs)"
      by (cases "filter P xs") (auto dest: filter_eq_ConsD)
    ultimately show ?thesis using True 3 IH by auto
  next
    case False
    then show ?thesis using 3 IH by (auto simp: is_adjacent_def)
  qed
qed simp_all

lemma add_bonus_eq: "i64 b \<Longrightarrow> add_bonus policy b p =
    (if is_adjacent (fst p) (snd p) then saturating_add b (bonus_of policy p) else b)"
  by (auto simp: add_bonus_def bonus_of_def saturating_add_def sat_i64_id split: option.splits)

lemma chain_bonus_fold:
  "i64 b \<Longrightarrow> foldl (add_bonus policy) b ps =
     foldl saturating_add b (map (bonus_of policy) (filter (\<lambda>p. is_adjacent (fst p) (snd p)) ps))"
  by (induction ps arbitrary: b) (simp_all add: add_bonus_eq)

lemma present_tactics_iff: "scores_of policy us t \<noteq> None \<longleftrightarrow> (\<exists>c \<in> set us. kw_tactic (price_of policy c) = t)"
  by (auto simp: scores_of_def tactic_weights_def filter_empty_conv)

lemma Tactic_ALL_successive: "successively next_tactic Tactic_ALL"
  by (simp add: Tactic_ALL_def)

lemma sum_abs_filter: "sum_list (map (\<lambda>x. \<bar>f x\<bar>) (filter P xs)) \<le> sum_list (map (\<lambda>x. \<bar>f x\<bar>) xs)" for f :: "_ \<Rightarrow> int"
  by (induction xs) auto

lemma total_score_exact:
  assumes "load policy us < 2 ^ 63"
  shows "total_score policy us = score_spec policy us"
proof -
  note load = load_weights [OF assms]
  let ?P = "\<lambda>t. scores_of policy us t \<noteq> None"
  let ?ps = "filter (\<lambda>(a, b). ?P a \<and> ?P b) adjacent_pairs"
  have n: "0 \<le> sum_list (map (\<lambda>c. \<bar>weight_of policy c\<bar>) us)" "0 \<le> sum_list (map (\<lambda>p. \<bar>bonus_of policy p\<bar>) adjacent_pairs)"
    by (rule sum_list_nonneg, auto)+
  have b: "sum_list (map abs (map (bonus_of policy) ?ps)) \<le> sum_list (map (\<lambda>p. \<bar>bonus_of policy p\<bar>) adjacent_pairs)"
    using sum_abs_filter [of "bonus_of policy" "\<lambda>(a, b). ?P a \<and> ?P b" adjacent_pairs] by (simp add: comp_def)
  have "chain_bonus policy (present_tactics (scores_of policy us)) = foldl saturating_add 0 (map (bonus_of policy) ?ps)"
    by (simp only: chain_bonus_def present_tactics_def chain_bonus_fold [OF i64_small] abs_zero zero_le_numeral
        adjacent_windows [OF Tactic_ALL_successive] adjacent_pairs_def)
  also have "\<dots> = sum_list (map (bonus_of policy) ?ps)"
    using b n assms saturating_sum [of 0 "map (bonus_of policy) ?ps"] by (simp add: load(2))
  finally have c: "chain_bonus policy (present_tactics (scores_of policy us)) = sum_list (map (bonus_of policy) ?ps)" .
  have w: "base_total (scores_of policy us) = sum_list (map (weight_of policy) us)"
    using n assms by (intro base_total_exact) (simp add: load(2))
  have "\<bar>sum_list (map (weight_of policy) us)\<bar> \<le> sum_list (map (\<lambda>c. \<bar>weight_of policy c\<bar>) us)"
    using abs_sum_list [of "map (weight_of policy) us"] by (simp add: comp_def)
  moreover have "\<bar>sum_list (map (bonus_of policy) ?ps)\<bar> \<le> sum_list (map (\<lambda>p. \<bar>bonus_of policy p\<bar>) adjacent_pairs)"
    using abs_sum_list [of "map (bonus_of policy) ?ps"] b by simp
  ultimately have "total_score policy us = sum_list (map (weight_of policy) us) + sum_list (map (bonus_of policy) ?ps)"
    using assms unfolding total_score_def c w saturating_add_def by (intro sat_i64_id) (auto simp: load(2) i64_def)
  also have "?ps = filter (\<lambda>(a, b). \<exists>c \<in> set us. \<exists>d \<in> set us.
       kw_tactic (price_of policy c) = a \<and> kw_tactic (price_of policy d) = b) adjacent_pairs"
    unfolding present_tactics_iff by (rule filter_cong) auto
  finally show ?thesis by (simp only: score_spec_def load(1))
qed

section \<open>Properties\<close>

lemma kclassify_Some: "kp_severity_thresholds policy \<noteq> [] \<Longrightarrow> \<exists>s. kclassify policy n = Some s"
  by (auto simp: kclassify_def neq_Nil_conv)

lemma verdict_with_hash [simp]:
  "v_severity (with_hash h v) = v_severity v" "v_confidence (with_hash h v) = v_confidence v"
  "v_disposition (with_hash h v) = v_disposition v" "v_attack_techniques (with_hash h v) = v_attack_techniques v"
  "v_contributing_claims (with_hash h v) = v_contributing_claims v" "v_policy_version (with_hash h v) = v_policy_version v"
  "v_kernel_version (with_hash h v) = v_kernel_version v" "v_verdict_hash (with_hash h v) = compute_verdict_hash h v"
  "verdict_bytes (with_hash h v) = verdict_bytes v"
  by (simp_all add: with_hash_def verdict_bytes_def)

text \<open>
  C6: the verdict does not depend on how the claims arrive. Two claim lists that hold the same claims, in any order and
  with the evidence of each claim listed in any order, get the same verdict, hash included, under every policy: the sums
  saturate, but in an order the identifiers fix.
\<close>

theorem adjudicate_order_independent:
  assumes "mset (map canonical_claim claims) = mset (map canonical_claim claims')"
    and "list_all claim_sized claims" "collision_free blake3 (map claim_bytes claims)"
  shows "adjudicate blake3 claims policy kernel_version = adjudicate blake3 claims' policy kernel_version"
proof -
  let ?cs = "map canonical_claim claims" and ?ds = "map canonical_claim claims'"
  have "inj_on (claim_id blake3) (set ?cs)"
  proof (rule inj_onI)
    fix x y
    assume "x \<in> set ?cs" "y \<in> set ?cs" and e: "claim_id blake3 x = claim_id blake3 y"
    then obtain c d where "x = canonical_claim c" "c \<in> set claims" "y = canonical_claim d" "d \<in> set claims" by auto
    with claim_id_separates [OF assms(2,3), of c d] e show "x = y" by simp
  qed
  then have "sort_key (claim_id blake3) ?cs = sort_key (claim_id blake3) ?ds"
    using assms(1) by (intro sort_key_inj_key_eq) simp_all
  then have "adjudicate blake3 ?cs policy kernel_version = adjudicate blake3 ?ds policy kernel_version"
    by (simp only: adjudicate_eq ranked_def)
  then show ?thesis by (simp only: adjudicate_canonical)
qed

lemma score_exact:
  assumes "list_ex (usable policy) claims" "load policy (filter (usable policy) claims) < 2 ^ 63"
  shows "map_option (\<lambda>v. (v_confidence v, v_severity v)) (adjudicate blake3 claims policy kernel_version) =
    map_option (\<lambda>s. (max 0 (min 10000 (score_spec policy (filter (usable policy) claims))), s))
      (kclassify policy (score_spec policy (filter (usable policy) claims)))"
proof -
  let ?us = "ranked blake3 policy claims" and ?vs = "filter (usable policy) claims"
  have m: "mset ?us = mset ?vs" by (simp add: mset_ranked mset_filter)
  have sums: "sum_list (map f ?us) = sum_list (map f ?vs)" for f :: "Claim \<Rightarrow> int"
    using m by (metis mset_map sum_mset_sum_list)
  have "set ?us = set ?vs" using m by (metis set_mset_mset)
  then have s: "score_spec policy ?us = score_spec policy ?vs" by (simp only: score_spec_def sums)
  have "load policy ?us = load policy ?vs" by (simp only: load_def sums)
  with assms(2) have t: "total_score policy ?us = score_spec policy ?vs" by (simp only: total_score_exact s)
  have "?us \<noteq> []" using assms(1) by (simp add: ranked_Nil_iff)
  then show ?thesis unfolding adjudicate_eq Let_def t by (simp add: option.map_comp comp_def clamp_confidence_def)
qed

text \<open>
  C11: the score is the sum it is documented to be. As long as the weights and bonuses at hand fit into 64 bits together,
  the per-tactic tallies, their saturating sum and the walk over neighbouring tactics amount to adding every usable
  claim's weight, subtracting it for a refuting claim, plus the bonus of each adjacent pair of the kill chain whose two
  tactics both occur; the confidence is that sum cut to 0..10000 and the severity the policy's class for it.
\<close>

theorem score_is_the_sum:
  assumes "list_ex (usable policy) claims" "load policy (filter (usable policy) claims) < 2 ^ 63"
  shows "map_option (\<lambda>v. (v_confidence v, v_severity v)) (adjudicate blake3 claims policy kernel_version) =
    map_option (\<lambda>s. (max 0 (min 10000 (score_spec policy (filter (usable policy) claims))), s))
      (kclassify policy (score_spec policy (filter (usable policy) claims)))"
  using assms by (rule score_exact)

lemma adjudicate_shape:
  assumes "adjudicate blake3 claims policy kernel_version = Some v"
  shows "v_contributing_claims v = contributing_claims blake3 policy (ranked blake3 policy claims)"
    "v_attack_techniques v = techniques_of policy (ranked blake3 policy claims)"
    "0 \<le> v_confidence v" "v_confidence v \<le> 10000"
    "v_policy_version v = kp_policy_version policy" "v_kernel_version v = kernel_version"
    "v_disposition v = (if list_ex (usable policy) claims then disposition_for (v_severity v) else Incomplete)"
    "v_verdict_hash v = compute_verdict_hash blake3 v"
proof -
  have "\<not> list_ex (usable policy) claims \<Longrightarrow> techniques_of policy (ranked blake3 policy claims) = []"
    by (simp add: ranked_Nil_iff [of blake3, symmetric] techniques_of_def)
  with assms show
    "v_contributing_claims v = contributing_claims blake3 policy (ranked blake3 policy claims)"
    "v_attack_techniques v = techniques_of policy (ranked blake3 policy claims)"
    "0 \<le> v_confidence v" "v_confidence v \<le> 10000"
    "v_policy_version v = kp_policy_version policy" "v_kernel_version v = kernel_version"
    "v_disposition v = (if list_ex (usable policy) claims then disposition_for (v_severity v) else Incomplete)"
    "v_verdict_hash v = compute_verdict_hash blake3 v"
    unfolding adjudicate_eq Let_def
    by (auto simp: ranked_Nil_iff incomplete_verdict_def clamp_confidence_def contributing_claims_def compute_verdict_hash_def split: if_splits)
qed

lemma adjudicate_total:
  assumes "kp_severity_thresholds policy \<noteq> []"
  shows "\<exists>v. adjudicate blake3 claims policy kernel_version = Some v"
  using kclassify_Some [OF assms, of "total_score policy (ranked blake3 policy claims)"]
  by (cases "ranked blake3 policy claims = []") (auto simp: adjudicate_eq Let_def)

lemma contributing_claim_facts:
  "map cc_claim_id (contributing_claims blake3 policy us) = map (claim_id blake3) us"
  "list_all (\<lambda>c. i64 (cc_attributed_weight c)) (contributing_claims blake3 policy us)"
  by (simp_all add: contributing_claims_def comp_def list_all_iff weight_of_def contribution_def)

lemma disposition_for_complete: "disposition_for s \<noteq> Incomplete"
  by (cases s) simp_all

lemma policy_new_iff:
  "PolicyBundle_new pv ws ch ths = Inr policy \<longleftrightarrow> ths \<noteq> [] \<and> sorted_wrt (<) (map fst ths) \<and>
     policy = \<lparr>kp_policy_version = pv, kp_predicate_weights = ws, kp_chain_multipliers = ch, kp_severity_thresholds = ths\<rparr>"
proof -
  have "list_ex (\<lambda>(w0, w1). fst w1 \<le> fst w0) (zip ths (tl ths)) \<longleftrightarrow> \<not> sorted_wrt (<) (map fst ths)"
    by (induction ths rule: induct_list012) (auto simp: sorted_wrt2_simps, fastforce)
  then show ?thesis by (auto simp: PolicyBundle_new_def)
qed

text \<open>
  C13: every verdict is well formed, and there always is one. For a bundle the constructor accepts, no claim list makes
  the kernel panic. The verdict names policy and kernel, its confidence is within 0..10000 and every attributed weight a
  64-bit integer; it lists exactly the usable claims, ascending by identifier, and exactly the techniques of their
  predicates, ascending and once each; it is \<^verbatim>\<open>Incomplete\<close> exactly if no claim was usable, and its hash covers all of it.
\<close>

theorem verdict_well_formed:
  assumes "PolicyBundle_new pv ws ch ths = Inr policy"
  shows "\<exists>v. adjudicate blake3 claims policy kernel_version = Some v \<and>
    0 \<le> v_confidence v \<and> v_confidence v \<le> 10000 \<and>
    v_policy_version v = pv \<and> v_kernel_version v = kernel_version \<and>
    list_all (\<lambda>c. i64 (cc_attributed_weight c)) (v_contributing_claims v) \<and>
    sorted (map cc_claim_id (v_contributing_claims v)) \<and>
    mset (map cc_claim_id (v_contributing_claims v)) = mset (map (claim_id blake3) (filter (usable policy) claims)) \<and>
    sorted (map utf8 (v_attack_techniques v)) \<and> distinct (v_attack_techniques v) \<and>
    set (v_attack_techniques v) = (\<Union>c \<in> set (filter (usable policy) claims). set (kw_techniques (price_of policy c))) \<and>
    (v_disposition v = Incomplete \<longleftrightarrow> filter (usable policy) claims = []) \<and>
    v_verdict_hash v = compute_verdict_hash blake3 v"
proof -
  have p: "kp_severity_thresholds policy \<noteq> []" "kp_policy_version policy = pv" using assms by (auto simp: policy_new_iff)
  obtain v where v: "adjudicate blake3 claims policy kernel_version = Some v"
    using adjudicate_total [OF p(1), of blake3 claims kernel_version] by blast
  note shape = adjudicate_shape [OF v]
  have m: "mset (ranked blake3 policy claims) = mset (filter (usable policy) claims)" by (simp add: mset_ranked mset_filter)
  then have "mset (map (claim_id blake3) (ranked blake3 policy claims)) = mset (map (claim_id blake3) (filter (usable policy) claims))"
    by simp
  moreover have "set (ranked blake3 policy claims) = set (filter (usable policy) claims)" using m by (metis set_mset_mset)
  moreover have "v_disposition v = Incomplete \<longleftrightarrow> filter (usable policy) claims = []"
    using shape(7) disposition_for_complete by (auto simp: list_ex_iff filter_empty_conv)
  ultimately show ?thesis
    using v shape p(2) bset_techniques_of [of policy "ranked blake3 policy claims"] ranked_sorted [of blake3 policy claims]
    by (intro exI [of _ v]) (simp add: contributing_claim_facts bset_def)
qed

lemma foldl_above: "list_all (\<lambda>(t, _). n < t) ts \<Longrightarrow> foldl (\<lambda>r (t, s). if t \<le> n then s else r) r ts = r" for n :: int
  by (induction ts) auto

lemma foldl_classify:
  fixes n :: int
  assumes "sorted_wrt (<) (map fst ths)" "i < length ths" "fst (ths ! i) \<le> n" "Suc i < length ths \<longrightarrow> n < fst (ths ! Suc i)"
  shows "foldl (\<lambda>r (t, s). if t \<le> n then s else r) r ths = snd (ths ! i)"
proof -
  have "list_all (\<lambda>(t, _). n < t) (drop (Suc i) ths)"
  proof (clarsimp simp: list_all_length)
    fix j t s
    assume j: "j < length ths - Suc i" and "ths ! (Suc (i + j)) = (t, s)"
    moreover have "fst (ths ! Suc i) \<le> fst (ths ! (Suc i + j))"
      using assms(1) j by (cases "j = 0") (auto simp: sorted_wrt_iff_nth_less less_imp_le)
    ultimately show "n < t" using assms(4) by auto
  qed
  moreover have "ths = take i ths @ ths ! i # drop (Suc i) ths" using assms(2) by (rule id_take_nth_drop)
  then have "foldl (\<lambda>r (t, s). if t \<le> n then s else r) r ths =
      foldl (\<lambda>r (t, s). if t \<le> n then s else r) r (take i ths @ ths ! i # drop (Suc i) ths)" by simp
  ultimately show ?thesis using assms(3) by (simp add: foldl_above case_prod_beta)
qed

text \<open>
  Severity thresholds. The constructor accepts a bundle exactly if it has thresholds and they ascend strictly, and
  then a score is classified by the highest threshold it reaches, a score below all of them by the first.
\<close>

theorem policy_classifies:
  shows "((\<exists>policy. PolicyBundle_new pv ws ch ths = Inr policy) \<longleftrightarrow> ths \<noteq> [] \<and> sorted_wrt (<) (map fst ths)) \<and>
    (\<forall>policy. PolicyBundle_new pv ws ch ths = Inr policy \<longrightarrow>
       (\<forall>i < length ths. fst (ths ! i) \<le> n \<and> (Suc i < length ths \<longrightarrow> n < fst (ths ! Suc i)) \<longrightarrow>
          kclassify policy n = Some (snd (ths ! i))) \<and>
       (n < fst (hd ths) \<longrightarrow> kclassify policy n = Some (snd (hd ths))))"
proof (intro conjI allI impI)
  show "(\<exists>policy. PolicyBundle_new pv ws ch ths = Inr policy) \<longleftrightarrow> ths \<noteq> [] \<and> sorted_wrt (<) (map fst ths)"
    by (simp add: policy_new_iff)
next
  fix policy
  assume "PolicyBundle_new pv ws ch ths = Inr policy"
  then have p: "ths \<noteq> []" "sorted_wrt (<) (map fst ths)" "kp_severity_thresholds policy = ths" by (auto simp: policy_new_iff)
  have k: "kclassify policy n = Some (foldl (\<lambda>r (t, s). if t \<le> n then s else r) (snd (hd ths)) ths)"
    using p by (auto simp: kclassify_def split: list.splits)
  show "kclassify policy n = Some (snd (ths ! i))"
    if "i < length ths" "fst (ths ! i) \<le> n \<and> (Suc i < length ths \<longrightarrow> n < fst (ths ! Suc i))" for i
    using foldl_classify [OF p(2) that(1), of n] that(2) by (simp add: k)
  show "kclassify policy n = Some (snd (hd ths))" if "n < fst (hd ths)"
  proof -
    have "list_all (\<lambda>(t, _). n < t) ths" using that p(1,2) by (cases ths) (auto simp: list_all_iff)
    then show ?thesis by (simp add: k foldl_above)
  qed
qed

lemma ranked_filter: "ranked blake3 policy claims = sort_key (claim_id blake3) (filter (usable policy) claims)"
  by (simp add: ranked_def filter_sort)

text \<open>A claim the policy does not price leaves no trace in the verdict, in its hash least of all.\<close>

lemma unpriced_claim_unbound:
  "\<not> usable policy c \<Longrightarrow> adjudicate blake3 (c # claims) policy kernel_version = adjudicate blake3 claims policy kernel_version"
  by (simp add: adjudicate_eq ranked_filter)

lemma same_identifiers:
  assumes "map (claim_id blake3) us = map (claim_id blake3) vs"
    and "list_all claim_sized (us @ vs)" "collision_free blake3 (map claim_bytes (us @ vs))"
  shows "map canonical_claim us = map canonical_claim vs"
proof (rule nth_equalityI)
  have l: "length us = length vs" using arg_cong [OF assms(1), of length] by simp
  then show "length (map canonical_claim us) = length (map canonical_claim vs)" by simp
  fix i
  assume "i < length (map canonical_claim us)"
  then have i: "i < length us" "i < length vs" using l by simp_all
  then have "claim_id blake3 (us ! i) = claim_id blake3 (vs ! i)" using arg_cong [OF assms(1), of "\<lambda>xs. xs ! i"] by simp
  then have "canonical_claim (us ! i) = canonical_claim (vs ! i)"
    using i by (intro claim_id_separates [OF assms(2,3)]) simp_all
  with i show "map canonical_claim us ! i = map canonical_claim vs ! i" by simp
qed

lemma adjudicate_sized:
  assumes "adjudicate blake3 claims policy kernel_version = Some v" "digest_length blake3"
    and "short_list claim_sized claims" "short_list short_str (v_attack_techniques v)"
    and "short_str (kp_policy_version policy)" "short_str kernel_version"
  shows "verdict_sized v"
proof -
  note shape = adjudicate_shape [OF assms(1)]
  have "short_list contributing_ok (contributing_claims blake3 policy (ranked blake3 policy claims))"
  proof -
    have "length (ranked blake3 policy claims) \<le> length claims"
      unfolding ranked_def by (metis length_filter_le length_sort)
    with assms(2,3) show ?thesis
      by (auto simp: short_list_def contributing_claims_def list_all_iff contributing_ok_def claim_id_def digest_length_def
          ranked_def claim_sized_def weight_of_def contribution_def)
  qed
  with assms(4-6) shape show ?thesis by (simp add: verdict_sized_def i64_small)
qed

lemma verdict_hash_same:
  assumes "adjudicate blake3 claims policy kernel_version = Some v" "adjudicate blake3 claims' policy' kernel_version' = Some w"
    and "v_verdict_hash v = v_verdict_hash w" "verdict_sized v" "verdict_sized w" "list_all claim_sized (claims @ claims')"
    and "collision_free blake3 ([verdict_bytes v, verdict_bytes w] @ map claim_bytes (claims @ claims'))"
  shows "v = w \<and> mset (map canonical_claim (filter (usable policy) claims)) = mset (map canonical_claim (filter (usable policy') claims'))"
proof -
  let ?us = "ranked blake3 policy claims" and ?vs = "ranked blake3 policy' claims'"
  note v = adjudicate_shape [OF assms(1)] and w = adjudicate_shape [OF assms(2)]
  have "verdict_bytes v = verdict_bytes w"
    by (rule collision_freeD [OF assms(7)]) (use assms(3) v(8) w(8) in \<open>auto simp: compute_verdict_hash_def\<close>)
  then have e: "v\<lparr>v_verdict_hash := []\<rparr> = w\<lparr>v_verdict_hash := []\<rparr>" using assms(4,5) by (simp add: verdict_bytes_inject)
  with assms(3) have eq: "v = w" by (cases v; cases w) simp
  then have "map cc_claim_id (contributing_claims blake3 policy ?us) = map cc_claim_id (contributing_claims blake3 policy' ?vs)"
    using v(1) w(1) by simp
  then have "map (claim_id blake3) ?us = map (claim_id blake3) ?vs" by (simp only: contributing_claim_facts)
  then have "map canonical_claim ?us = map canonical_claim ?vs"
  proof (rule same_identifiers)
    show "list_all claim_sized (?us @ ?vs)" using assms(6) by (auto simp: list_all_iff ranked_def)
    show "collision_free blake3 (map claim_bytes (?us @ ?vs))"
      by (rule collision_free_mono [OF assms(7)]) (auto simp: ranked_def)
  qed
  then have "mset (map canonical_claim ?us) = mset (map canonical_claim ?vs)" by simp
  with eq show ?thesis by (simp add: mset_ranked mset_filter)
qed

text \<open>
  C3: the verdict hash binds the verdict and what it rests on. Where the texts hashed do not collide, two adjudications,
  possibly under different policies, end with the same hash only if the verdicts agree in every field and the usable
  claims are the same claims: no field of a priced claim can be altered, and none added or removed, without a new hash.
\<close>

theorem verdict_hash_binds:
  assumes "adjudicate blake3 claims policy kernel_version = Some v" "adjudicate blake3 claims' policy' kernel_version' = Some w"
    and "v_verdict_hash v = v_verdict_hash w" "verdict_sized v" "verdict_sized w" "list_all claim_sized (claims @ claims')"
    and "collision_free blake3 ([verdict_bytes v, verdict_bytes w] @ map claim_bytes (claims @ claims'))"
  shows "v = w \<and> mset (map canonical_claim (filter (usable policy) claims)) = mset (map canonical_claim (filter (usable policy') claims'))"
  using assms by (rule verdict_hash_same)

lemma scope_count:
  assumes "length a + length b + length c < 2 ^ 63"
  shows "saturating_add (saturating_add (int (length a)) (int (length b))) (int (length c)) = int (length a + length b + length c)"
  using assms by (simp add: saturating_add_def sat_i64_def)

text \<open>
  The risk tier of an action: target lists that fit into memory are counted exactly, so the order of the targets does not
  matter. A critical principal or host makes the tier \<^verbatim>\<open>Critical\<close>, not just \<^verbatim>\<open>High\<close> as the comment promises; a critical
  service among the dependent ones does not count.
\<close>

lemma blast_radius_tier:
  assumes "length (bi_target_principals i) + length (bi_target_hosts i) + length (bi_dependent_services i) < 2 ^ 63"
  shows "ra_risk_tier (evaluate_blast_radius i) =
    (if set (bi_target_principals i @ bi_target_hosts i) \<inter> set (bi_critical_assets i) \<noteq> {} then CriticalRisk
     else if 50 < length (bi_target_principals i @ bi_target_hosts i @ bi_dependent_services i) then HighRisk
     else if 5 < length (bi_target_principals i @ bi_target_hosts i @ bi_dependent_services i) then MediumRisk
     else LowRisk)"
  using scope_count [OF assms] by (auto simp: evaluate_blast_radius_def Let_def list_ex_iff)

text \<open>
  A tactic counts as present once a claim of it is used, a refuting one too: here the two claims about persistence cancel
  out, yet the bonus for the pair execution and persistence is paid.
\<close>

lemma refuted_tactic_earns_bonus:
  assumes "kp_predicate_weights policy ''X'' = Some \<lparr>kw_tactic = Execution, kw_weight = a, kw_techniques = []\<rparr>"
    and "kp_predicate_weights policy ''P'' = Some \<lparr>kw_tactic = Persistence, kw_weight = b, kw_techniques = []\<rparr>"
    and "cl_predicate x = ''X''" "cl_polarity x = Supports" "cl_predicate p = ''P''" "cl_polarity p = Supports"
    and "cl_predicate q = ''P''" "cl_polarity q = Refutes"
  shows "score_spec policy [x, p, q] = a + bonus_of policy (Execution, Persistence)"
  using assms
  by (simp add: score_spec_def adjacent_pairs_def Tactic_ALL_def signed_price_def price_of_def)

section \<open>Instances\<close>

text \<open>\<^verbatim>\<open>kernel/src/fixtures.rs\<close>: two adjacent tactics.\<close>

definition adjacent_tactics_policy :: "int \<Rightarrow> InvalidPolicyError + KPolicyBundle" where
  "adjacent_tactics_policy bonus = PolicyBundle_new ''policy.adjacent-test''
     [''INTERPRETER_SPAWNED_BY'' \<mapsto> \<lparr>kw_tactic = Execution, kw_weight = 1000, kw_techniques = []\<rparr>,
      ''PERSISTENCE_INSTALLED'' \<mapsto> \<lparr>kw_tactic = Persistence, kw_weight = 1000, kw_techniques = []\<rparr>]
     [(Execution, Persistence) \<mapsto> bonus] [(0, Info), (1000, Low), (3000, Critical)]"

definition fixture_claim :: "string \<Rightarrow> string \<Rightarrow> Claim" where
  "fixture_claim predicate e = \<lparr>cl_predicate = predicate, cl_subject = ''host:h1'', cl_object = None,
     cl_interval_start_ns = 0, cl_interval_end_ns = 0, cl_evidence = [e], cl_extractor_kind = ''rule'',
     cl_extractor_id = ''x'', cl_extractor_version = ''1'', cl_observed_value = None, cl_polarity = Supports,
     cl_hypothesis_ref = None\<rparr>"

definition adjacent_tactics_scenario :: "Claim list" where
  "adjacent_tactics_scenario =
     [fixture_claim ''INTERPRETER_SPAWNED_BY'' ''blake3:e1'', fixture_claim ''PERSISTENCE_INSTALLED'' ''blake3:e2'']"

definition sample_policy :: "int \<Rightarrow> KPolicyBundle" where
  "sample_policy bonus = (case adjacent_tactics_policy bonus of Inr p \<Rightarrow> p)"

lemma sample_policy: "adjacent_tactics_policy bonus = Inr (sample_policy bonus)"
  by (simp add: sample_policy_def adjacent_tactics_policy_def PolicyBundle_new_def)

lemma scenario_sized: "list_all claim_sized adjacent_tactics_scenario"
  by (simp add: adjacent_tactics_scenario_def fixture_claim_def claim_sized_def short_list_def short_str_small i64_small)

lemma scenario_free: "collision_free sample_hash (map claim_bytes adjacent_tactics_scenario)"
proof -
  have "map (\<lambda>c. sample_hash (claim_bytes c)) adjacent_tactics_scenario ! 0 \<noteq> map (\<lambda>c. sample_hash (claim_bytes c)) adjacent_tactics_scenario ! 1"
    by code_simp
  then show ?thesis by (auto simp: collision_free_def adjacent_tactics_scenario_def)
qed

theorem claim_id_content_address_witness:
  "claim_id sample_hash (adjacent_tactics_scenario ! 0) \<noteq> claim_id sample_hash (adjacent_tactics_scenario ! 1)"
  using claim_id_content_address [of "adjacent_tactics_scenario ! 0" "adjacent_tactics_scenario ! 1" sample_hash]
    scenario_sized scenario_free
  by (simp add: adjacent_tactics_scenario_def) (simp add: fixture_claim_def)

lemma scenario_score:
  "map_option (\<lambda>v. (v_confidence v, v_severity v)) (adjudicate sample_hash adjacent_tactics_scenario (sample_policy 500) ''0.0.0-test'') =
     Some (2500, Low)"
  by code_simp

lemma scenario_bytes:
  "map_option (\<lambda>v. list_all (\<lambda>c. sample_hash (verdict_bytes v) \<noteq> sample_hash (claim_bytes c)) adjacent_tactics_scenario)
     (adjudicate sample_hash adjacent_tactics_scenario (sample_policy 500) ''0.0.0-test'') = Some True"
  by code_simp

theorem adjudicate_order_independent_witness:
  "adjudicate sample_hash (rev adjacent_tactics_scenario) (sample_policy 500) ''0.0.0-test'' =
     adjudicate sample_hash adjacent_tactics_scenario (sample_policy 500) ''0.0.0-test'' \<and>
   map_option v_confidence (adjudicate sample_hash adjacent_tactics_scenario (sample_policy 500) ''0.0.0-test'') = Some 2500"
  using adjudicate_order_independent [of adjacent_tactics_scenario "rev adjacent_tactics_scenario" sample_hash "sample_policy 500" "''0.0.0-test''"]
    scenario_sized scenario_free scenario_score by (auto simp: rev_map [symmetric])

theorem score_is_the_sum_witness:
  "map_option (\<lambda>v. (v_confidence v, v_severity v)) (adjudicate sample_hash adjacent_tactics_scenario (sample_policy 500) ''0.0.0-test'') =
     map_option (\<lambda>s. (max 0 (min 10000 (score_spec (sample_policy 500) (filter (usable (sample_policy 500)) adjacent_tactics_scenario))), s))
       (kclassify (sample_policy 500) (score_spec (sample_policy 500) (filter (usable (sample_policy 500)) adjacent_tactics_scenario))) \<and>
   score_spec (sample_policy 500) (filter (usable (sample_policy 500)) adjacent_tactics_scenario) = 2500"
proof (rule conjI)
  have "list_ex (usable (sample_policy 500)) adjacent_tactics_scenario"
    "load (sample_policy 500) (filter (usable (sample_policy 500)) adjacent_tactics_scenario) < 2 ^ 63"
    by code_simp+
  then show "map_option (\<lambda>v. (v_confidence v, v_severity v)) (adjudicate sample_hash adjacent_tactics_scenario (sample_policy 500) ''0.0.0-test'') =
     map_option (\<lambda>s. (max 0 (min 10000 (score_spec (sample_policy 500) (filter (usable (sample_policy 500)) adjacent_tactics_scenario))), s))
       (kclassify (sample_policy 500) (score_spec (sample_policy 500) (filter (usable (sample_policy 500)) adjacent_tactics_scenario)))"
    by (rule score_is_the_sum)
qed code_simp

theorem verdict_well_formed_witness:
  "\<exists>v. adjudicate sample_hash adjacent_tactics_scenario (sample_policy 500) ''0.0.0-test'' = Some v \<and>
     v_policy_version v = ''policy.adjacent-test'' \<and> v_disposition v \<noteq> Incomplete \<and>
     mset (map cc_claim_id (v_contributing_claims v)) = mset (map (claim_id sample_hash) adjacent_tactics_scenario)"
proof -
  have "filter (usable (sample_policy 500)) adjacent_tactics_scenario = adjacent_tactics_scenario" "adjacent_tactics_scenario \<noteq> []"
    by code_simp+
  then show ?thesis
    using verdict_well_formed [OF sample_policy [of 500, unfolded adjacent_tactics_policy_def], of sample_hash adjacent_tactics_scenario "''0.0.0-test''"]
    by auto
qed

theorem policy_classifies_witness:
  "kclassify (sample_policy 500) 2999 = Some Low \<and> kclassify (sample_policy 500) 3000 = Some Critical \<and>
   kclassify (sample_policy 500) (- 1) = Some Info"
proof -
  note p = policy_classifies [THEN conjunct2, rule_format, OF sample_policy [of 500, unfolded adjacent_tactics_policy_def]]
  show ?thesis
    using conjunct1 [OF p, of 2999, rule_format, of 1] conjunct1 [OF p, of 3000, rule_format, of 2] conjunct2 [OF p, of "- 1"] by simp
qed

text \<open>The last 32 bytes as a digest, which tells the texts of the next instance apart.\<close>

definition tail_hash :: hash_fun where
  "tail_hash bs = drop (length bs) (replicate 32 0 @ bs)"

lemma tail_hash_digest: "digest_length tail_hash"
  by (simp add: digest_length_def tail_hash_def del: drop_append)

definition tamper_claim :: "int option \<Rightarrow> Claim" where
  "tamper_claim observed = \<lparr>cl_predicate = ''P'', cl_subject = ''s'', cl_object = None, cl_interval_start_ns = 0,
     cl_interval_end_ns = 0, cl_evidence = [''e''], cl_extractor_kind = ''rule'', cl_extractor_id = ''x'',
     cl_extractor_version = ''1'', cl_observed_value = observed, cl_polarity = Supports, cl_hypothesis_ref = None\<rparr>"

definition tamper_policy :: KPolicyBundle where
  "tamper_policy = \<lparr>kp_policy_version = ''p'',
     kp_predicate_weights = [''P'' \<mapsto> \<lparr>kw_tactic = Execution, kw_weight = 1000, kw_techniques = []\<rparr>],
     kp_chain_multipliers = Map.empty, kp_severity_thresholds = [(0, Info)]\<rparr>"

definition tamper_verdict :: "int option \<Rightarrow> Verdict" where
  "tamper_verdict observed = the (adjudicate tail_hash [tamper_claim observed] tamper_policy [])"

lemma tamper_verdict: "adjudicate tail_hash [tamper_claim observed] tamper_policy [] = Some (tamper_verdict observed)"
  using adjudicate_total [of tamper_policy tail_hash "[tamper_claim observed]" "[]"]
  by (auto simp: tamper_verdict_def tamper_policy_def)

lemma tamper_free:
  "distinct (map tail_hash ([verdict_bytes (tamper_verdict None), verdict_bytes (tamper_verdict (Some 999999))] @
     map claim_bytes ([tamper_claim None] @ [tamper_claim (Some 999999)])))"
  by code_simp

lemma tamper_sized: "claim_sized (tamper_claim None)" "claim_sized (tamper_claim (Some 999999))"
  by (simp_all add: tamper_claim_def claim_sized_def short_list_def short_str_small i64_small i64_def)

lemma tamper_verdict_sized: "claim_sized (tamper_claim x) \<Longrightarrow> verdict_sized (tamper_verdict x)"
proof (rule adjudicate_sized [OF tamper_verdict tail_hash_digest])
  have "v_attack_techniques (tamper_verdict x) = []"
    using adjudicate_shape(2) [OF tamper_verdict, of x]
    by (simp add: techniques_of_def ranked_filter usable_def tamper_claim_def tamper_policy_def price_of_def)
  then show "short_list short_str (v_attack_techniques (tamper_verdict x))" by (simp add: short_list_def)
qed (simp_all add: short_list_def short_str_small tamper_policy_def)

theorem verdict_hash_binds_witness:
  "v_verdict_hash (tamper_verdict None) \<noteq> v_verdict_hash (tamper_verdict (Some 999999))"
proof
  assume h: "v_verdict_hash (tamper_verdict None) = v_verdict_hash (tamper_verdict (Some 999999))"
  have "collision_free tail_hash ([verdict_bytes (tamper_verdict None), verdict_bytes (tamper_verdict (Some 999999))] @
     map claim_bytes ([tamper_claim None] @ [tamper_claim (Some 999999)]))"
    using tamper_free by (simp only: distinct_map collision_free_def)
  from verdict_hash_binds [OF tamper_verdict tamper_verdict h _ _ _ this] tamper_sized
  have "mset (map canonical_claim (filter (usable tamper_policy) [tamper_claim None])) =
      mset (map canonical_claim (filter (usable tamper_policy) [tamper_claim (Some 999999)]))"
    by (simp add: tamper_verdict_sized)
  then show False by (simp add: usable_def tamper_policy_def tamper_claim_def canonical_claim_def)
qed

end
