(* ===== verification/Json.thy ===== *)
theory Json
  imports Js_Number
begin

text \<open>
  \<^verbatim>\<open>JSON.stringify\<close> and \<^verbatim>\<open>JSON.parse\<close> as far as the console uses them: manifests, kernel requests and
  session payloads are turned into text that is then hashed, signed or decoded again. Strings are
  sequences of code units below 256. Every number in these payloads is an integer; above \<open>2^53\<close>
  (nanosecond timestamps) its text is the shortest decimal that reads back as the same double,
  as \<^verbatim>\<open>Number.prototype.toString\<close> prescribes. A literal with a fraction or an exponent is read and
  kept as its text (\<open>JDec\<close>), the payloads hold none.
\<close>

section \<open>Values and their text\<close>

datatype json =
    JNull
  | JBool bool
  | JNum int
  | JDec string
  | JStr string
  | JArr "json list"
  | JObj "(string \<times> json) list"

definition escape_char :: "char \<Rightarrow> string" where
  "escape_char c =
     (if c = CHR 0x22 then [CHR 0x5C, CHR 0x22]
      else if c = CHR 0x5C then [CHR 0x5C, CHR 0x5C]
      else if c = CHR 0x08 then [CHR 0x5C, CHR ''b'']
      else if c = CHR 0x09 then [CHR 0x5C, CHR ''t'']
      else if c = CHR 0x0A then [CHR 0x5C, CHR ''n'']
      else if c = CHR 0x0C then [CHR 0x5C, CHR ''f'']
      else if c = CHR 0x0D then [CHR 0x5C, CHR ''r'']
      else if (of_char c :: nat) < 32 then
        CHR 0x5C # CHR ''u'' # pad_start 4 CHR ''0'' (to_radix 16 (of_char c))
      else [c])"

definition quote_json :: "string \<Rightarrow> string" where
  "quote_json s = CHR 0x22 # concat (map escape_char s) @ [CHR 0x22]"

text \<open>
  The shortest decimal of an integer double: the first of the roundings of \<open>n\<close> to \<open>k\<close> significant
  digits, \<open>k = 1, 2, \<dots>\<close>, that the nearest double takes back to \<open>n\<close>.
\<close>

definition round_digits :: "int \<Rightarrow> nat \<Rightarrow> int" where
  "round_digits n m = (let p = 10 ^ m in rne (of_int n / of_int p) * p)"

definition shortest_int :: "int \<Rightarrow> int" where
  "shortest_int n =
     (case find (\<lambda>c. fl (of_int c) = of_int n)
             (map (round_digits n) (rev [0..<length (radix_digits 10 (nat \<bar>n\<bar>))])) of
        Some c \<Rightarrow> c | None \<Rightarrow> n)"

definition num_str :: "int \<Rightarrow> string" where
  "num_str n = show_int (shortest_int n)"

fun stringify :: "json \<Rightarrow> string" and stringify_items :: "json list \<Rightarrow> string"
  and stringify_members :: "(string \<times> json) list \<Rightarrow> string" where
  "stringify JNull = ''null''"
| "stringify (JBool b) = (if b then ''true'' else ''false'')"
| "stringify (JNum n) = num_str n"
| "stringify (JDec t) = t"
| "stringify (JStr s) = quote_json s"
| "stringify (JArr js) = CHR ''['' # stringify_items js @ '']''"
| "stringify (JObj kvs) = CHR ''{'' # stringify_members kvs @ ''}''"
| "stringify_items [] = []"
| "stringify_items [j] = stringify j"
| "stringify_items (j # k # js) = stringify j @ '','' @ stringify_items (k # js)"
| "stringify_members [] = []"
| "stringify_members [(k, v)] = quote_json k @ '':'' @ stringify v"
| "stringify_members ((k, v) # kv # kvs) = quote_json k @ '':'' @ stringify v @ '','' @ stringify_members (kv # kvs)"

section \<open>Reading\<close>

definition json_ws :: "char \<Rightarrow> bool" where
  "json_ws c \<longleftrightarrow> c \<in> set [CHR 0x20, CHR 0x09, CHR 0x0A, CHR 0x0D]"

abbreviation skip_ws :: "string \<Rightarrow> string" where
  "skip_ws \<equiv> dropWhile json_ws"

definition is_digit :: "char \<Rightarrow> bool" where
  "is_digit c \<longleftrightarrow> CHR ''0'' \<le> c \<and> c \<le> CHR ''9''"

definition digit_val :: "char \<Rightarrow> nat" where
  "digit_val c = of_char c - 48"

definition hex_val :: "char \<Rightarrow> nat option" where
  "hex_val c =
     (if is_digit c then Some (digit_val c)
      else if CHR ''a'' \<le> c \<and> c \<le> CHR ''f'' then Some (of_char c - 87)
      else if CHR ''A'' \<le> c \<and> c \<le> CHR ''F'' then Some (of_char c - 55)
      else None)"

text \<open>The body of a string after its opening quote.\<close>

fun parse_string :: "string \<Rightarrow> (string \<times> string) option" where
  "parse_string [] = None"
| "parse_string (c # cs) =
     (if c = CHR 0x22 then Some ([], cs)
      else if c = CHR 0x5C then
        (case cs of
           [] \<Rightarrow> None
         | e # cs' \<Rightarrow>
             if e = CHR ''u'' then
               (case cs' of
                  h1 # h2 # h3 # h4 # cs'' \<Rightarrow>
                    (case those (map hex_val [h1, h2, h3, h4]) of
                       Some ds \<Rightarrow>
                         if radix_value 16 ds < 256
                         then map_option (apfst (Cons (char_of (radix_value 16 ds)))) (parse_string cs'')
                         else None
                     | None \<Rightarrow> None)
                | _ \<Rightarrow> None)
             else
               (case map_of [(CHR 0x22, CHR 0x22), (CHR 0x5C, CHR 0x5C), (CHR ''/'', CHR ''/''),
                   (CHR ''b'', CHR 0x08), (CHR ''t'', CHR 0x09), (CHR ''n'', CHR 0x0A),
                   (CHR ''f'', CHR 0x0C), (CHR ''r'', CHR 0x0D)] e of
                  Some x \<Rightarrow> map_option (apfst (Cons x)) (parse_string cs')
                | None \<Rightarrow> None))
      else if (of_char c :: nat) < 32 then None
      else map_option (apfst (Cons c)) (parse_string cs))"

text \<open>
  A number literal: an optional minus, digits without a leading zero, then optionally a fraction
  and an exponent.
\<close>

definition parse_fraction :: "string \<Rightarrow> (string \<times> string) option" where
  "parse_fraction cs =
     (if take 1 cs = ''.'' then
        (let ds = takeWhile is_digit (drop 1 cs)
         in if ds = [] then None else Some (CHR ''.'' # ds, dropWhile is_digit (drop 1 cs)))
      else Some ([], cs))"

definition parse_exponent :: "string \<Rightarrow> (string \<times> string) option" where
  "parse_exponent cs =
     (case cs of
        e # cs' \<Rightarrow>
          if e = CHR ''e'' \<or> e = CHR ''E'' then
            (let sign = takeWhile (\<lambda>c. c = CHR ''+'' \<or> c = CHR ''-'') (take 1 cs');
                 rest = drop (length sign) cs'; ds = takeWhile is_digit rest
             in if ds = [] then None else Some (e # sign @ ds, dropWhile is_digit rest))
          else Some ([], cs)
      | [] \<Rightarrow> Some ([], cs))"

definition parse_number :: "(int \<Rightarrow> json) \<Rightarrow> string \<Rightarrow> (json \<times> string) option" where
  "parse_number rd cs =
     (let neg = (take 1 cs = ''-''); cs1 = (if neg then drop 1 cs else cs);
          ds = takeWhile is_digit cs1; cs2 = dropWhile is_digit cs1
      in if ds = [] \<or> (1 < length ds \<and> hd ds = CHR ''0'') then None
         else case parse_fraction cs2 of
                None \<Rightarrow> None
              | Some (f, cs3) \<Rightarrow>
                  (case parse_exponent cs3 of
                     None \<Rightarrow> None
                   | Some (e, cs4) \<Rightarrow>
                       if f = [] \<and> e = [] then
                         (let n = int (radix_value 10 (map digit_val ds))
                          in Some (rd (if neg then - n else n), cs4))
                       else Some (JDec ((if neg then ''-'' else '''') @ ds @ f @ e), cs4)))"

definition parse_literal :: "string \<Rightarrow> json \<Rightarrow> string \<Rightarrow> (json \<times> string) option" where
  "parse_literal w j cs = (if take (length w) cs = w then Some (j, drop (length w) cs) else None)"

text \<open>
  The parser spends one unit of fuel per nested call and every call reads at least one character,
  so the length of the text plus one is enough.
\<close>

fun parse_value :: "(int \<Rightarrow> json) \<Rightarrow> nat \<Rightarrow> string \<Rightarrow> (json \<times> string) option"
  and parse_items :: "(int \<Rightarrow> json) \<Rightarrow> nat \<Rightarrow> string \<Rightarrow> (json list \<times> string) option"
  and parse_members :: "(int \<Rightarrow> json) \<Rightarrow> nat \<Rightarrow> (string \<times> json) list \<Rightarrow> string \<Rightarrow> ((string \<times> json) list \<times> string) option" where
  "parse_value rd 0 cs = None"
| "parse_value rd (Suc n) cs =
     (case skip_ws cs of
        [] \<Rightarrow> None
      | c # cs' \<Rightarrow>
          if c = CHR 0x22 then map_option (apfst JStr) (parse_string cs')
          else if c = CHR ''['' then
            (if take 1 (skip_ws cs') = '']'' then Some (JArr [], drop 1 (skip_ws cs'))
             else map_option (apfst JArr) (parse_items rd n cs'))
          else if c = CHR ''{'' then
            (if take 1 (skip_ws cs') = ''}'' then Some (JObj [], drop 1 (skip_ws cs'))
             else map_option (apfst JObj) (parse_members rd n [] cs'))
          else if c = CHR ''n'' then parse_literal ''null'' JNull (c # cs')
          else if c = CHR ''t'' then parse_literal ''true'' (JBool True) (c # cs')
          else if c = CHR ''f'' then parse_literal ''false'' (JBool False) (c # cs')
          else parse_number rd (c # cs'))"
| "parse_items rd 0 cs = None"
| "parse_items rd (Suc n) cs =
     (case parse_value rd n cs of
        None \<Rightarrow> None
      | Some (j, cs') \<Rightarrow>
          (case skip_ws cs' of
             c # cs'' \<Rightarrow>
               if c = CHR '','' then map_option (apfst (Cons j)) (parse_items rd n cs'')
               else if c = CHR '']'' then Some ([j], cs'')
               else None
           | [] \<Rightarrow> None))"
| "parse_members rd 0 acc cs = None"
| "parse_members rd (Suc n) acc cs =
     (case skip_ws cs of
        c # cs0 \<Rightarrow>
          if c \<noteq> CHR 0x22 then None
          else (case parse_string cs0 of
                  None \<Rightarrow> None
                | Some (k, cs1) \<Rightarrow>
                    (case skip_ws cs1 of
                       d # cs2 \<Rightarrow>
                         if d \<noteq> CHR '':'' then None
                         else (case parse_value rd n cs2 of
                                 None \<Rightarrow> None
                               | Some (v, cs3) \<Rightarrow>
                                   (case skip_ws cs3 of
                                      e # cs4 \<Rightarrow>
                                        if e = CHR '','' then parse_members rd n (AList.update k v acc) cs4
                                        else if e = CHR ''}'' then Some (AList.update k v acc, cs4)
                                        else None
                                    | [] \<Rightarrow> None))
                     | [] \<Rightarrow> None))
      | [] \<Rightarrow> None)"

definition parse_text :: "(int \<Rightarrow> json) \<Rightarrow> string \<Rightarrow> json option" where
  "parse_text rd s =
     (case parse_value rd (length s + 1) s of
        Some (j, rest) \<Rightarrow> if skip_ws rest = [] then Some j else None
      | None \<Rightarrow> None)"

text \<open>\<^verbatim>\<open>JSON.parse\<close>: an integer literal stands for the nearest double.\<close>

definition js_number :: "int \<Rightarrow> json" where
  "js_number n = JNum \<lfloor>fl (of_int n)\<rfloor>"

definition json_parse :: "string \<Rightarrow> json option" where
  "json_parse s = parse_text js_number s"

text \<open>\<^verbatim>\<open>obj.key\<close> and \<^verbatim>\<open>obj?.key\<close> on a parsed value; \<^const>\<open>None\<close> is \<^verbatim>\<open>undefined\<close>.\<close>

fun json_get :: "string \<Rightarrow> json \<Rightarrow> json option" where
  "json_get k (JObj kvs) = map_of kvs k"
| "json_get k _ = None"

section \<open>What is printed is read back\<close>

fun wf_json :: "json \<Rightarrow> bool" where
  "wf_json JNull = True"
| "wf_json (JBool b) = True"
| "wf_json (JNum n) \<longleftrightarrow> fl (of_int n) = of_int n"
| "wf_json (JDec t) = False"
| "wf_json (JStr s) = True"
| "wf_json (JArr js) = list_all wf_json js"
| "wf_json (JObj kvs) \<longleftrightarrow> distinct (map fst kvs) \<and> list_all (\<lambda>kv. wf_json (snd kv)) kvs"

text \<open>
  The text with the digits of every integer written out in full, as a writer of 64-bit integers prints it;
  \<open>map_nums\<close> replaces the integers of a document and \<open>plain_json\<close> leaves them free.
\<close>

fun json_text :: "json \<Rightarrow> string" and text_items :: "json list \<Rightarrow> string"
  and text_members :: "(string \<times> json) list \<Rightarrow> string" where
  "json_text JNull = ''null''"
| "json_text (JBool b) = (if b then ''true'' else ''false'')"
| "json_text (JNum n) = show_int n"
| "json_text (JDec t) = t"
| "json_text (JStr s) = quote_json s"
| "json_text (JArr js) = CHR ''['' # text_items js @ '']''"
| "json_text (JObj kvs) = CHR ''{'' # text_members kvs @ ''}''"
| "text_items [] = []"
| "text_items [j] = json_text j"
| "text_items (j # k # js) = json_text j @ '','' @ text_items (k # js)"
| "text_members [] = []"
| "text_members [(k, v)] = quote_json k @ '':'' @ json_text v"
| "text_members ((k, v) # kv # kvs) = quote_json k @ '':'' @ json_text v @ '','' @ text_members (kv # kvs)"

fun map_nums :: "(int \<Rightarrow> json) \<Rightarrow> json \<Rightarrow> json" where
  "map_nums f (JNum n) = f n"
| "map_nums f (JArr js) = JArr (map (map_nums f) js)"
| "map_nums f (JObj kvs) = JObj (map (\<lambda>kv. (fst kv, map_nums f (snd kv))) kvs)"
| "map_nums f j = j"

fun plain_json :: "json \<Rightarrow> bool" where
  "plain_json (JDec t) = False"
| "plain_json (JArr js) = list_all plain_json js"
| "plain_json (JObj kvs) \<longleftrightarrow> distinct (map fst kvs) \<and> list_all (\<lambda>kv. plain_json (snd kv)) kvs"
| "plain_json _ = True"

lemma control_hex:
  assumes "n < 32"
  obtains h1 h2 h3 h4 ds where "pad_start 4 CHR ''0'' (to_radix 16 n) = [h1, h2, h3, h4]"
    "those (map hex_val [h1, h2, h3, h4]) = Some ds" "radix_value 16 ds = n"
proof -
  have "list_all (\<lambda>n. length (pad_start 4 CHR ''0'' (to_radix 16 n)) = 4 \<and>
      map_option (radix_value 16) (those (map hex_val (pad_start 4 CHR ''0'' (to_radix 16 n)))) = Some n) [0..<32]"
    by code_simp
  with assms have l: "length (pad_start 4 CHR ''0'' (to_radix 16 n)) = 4"
    and v: "map_option (radix_value 16) (those (map hex_val (pad_start 4 CHR ''0'' (to_radix 16 n)))) = Some n"
    by (simp_all only: list_all_iff set_upt atLeastLessThan_iff) auto
  from l obtain h1 h2 h3 h4 where h: "pad_start 4 CHR ''0'' (to_radix 16 n) = [h1, h2, h3, h4]"
    by (auto simp: eval_nat_numeral length_Suc_conv)
  from v obtain ds where "those (map hex_val [h1, h2, h3, h4]) = Some ds" "radix_value 16 ds = n"
    unfolding h by (auto simp only: map_option_eq_Some)
  with h show thesis by (rule that)
qed

lemma parse_escaped: "parse_string (escape_char c @ xs) = map_option (apfst (Cons c)) (parse_string xs)"
proof (cases "c \<in> set [CHR 0x22, CHR 0x5C, CHR 0x08, CHR 0x09, CHR 0x0A, CHR 0x0C, CHR 0x0D]")
  case True
  then show ?thesis by (auto simp: escape_char_def)
next
  case False
  show ?thesis
  proof (cases "(of_char c :: nat) < 32")
    case True
    then obtain h1 h2 h3 h4 ds where h: "pad_start 4 CHR ''0'' (to_radix 16 (of_char c)) = [h1, h2, h3, h4]"
      "those (map hex_val [h1, h2, h3, h4]) = Some ds" "radix_value 16 ds = of_char c" by (rule control_hex)
    have e: "escape_char c = [CHR 0x5C, CHR ''u'', h1, h2, h3, h4]"
      using False True h by (simp add: escape_char_def)
    show ?thesis using h(2,3) by (simp add: e)
  next
    case n: False
    have "escape_char c = [c]" using False n by (auto simp: escape_char_def)
    with False n show ?thesis by simp
  qed
qed

lemma parse_quoted: "parse_string (concat (map escape_char s) @ CHR 0x22 # rest) = Some (s, rest)"
  by (induction s) (simp_all add: parse_escaped)

lemma shortest_int_double: "fl (of_int n) = of_int n \<Longrightarrow> fl (of_int (shortest_int n)) = of_int n"
  by (auto simp: shortest_int_def find_Some_iff split: option.splits)

lemma digit_char_facts:
  assumes "d < 10"
  shows "is_digit (digit_char d)" "digit_val (digit_char d) = d" "digit_char d = CHR ''0'' \<longleftrightarrow> d = 0"
    "\<not> json_ws (digit_char d)" "digit_char d \<notin> set [CHR 0x22, CHR ''['', CHR ''{'', CHR ''n'', CHR ''t'', CHR ''f'', CHR ''-'', CHR '']'', CHR ''}'']"
proof -
  have "list_all (\<lambda>d. is_digit (digit_char d) \<and> digit_val (digit_char d) = d \<and> (digit_char d = CHR ''0'' \<longleftrightarrow> d = 0) \<and>
    \<not> json_ws (digit_char d) \<and> digit_char d \<notin> set [CHR 0x22, CHR ''['', CHR ''{'', CHR ''n'', CHR ''t'', CHR ''f'', CHR ''-'', CHR '']'', CHR ''}''])
    [0..<10]" by code_simp
  then show "is_digit (digit_char d)" "digit_val (digit_char d) = d" "digit_char d = CHR ''0'' \<longleftrightarrow> d = 0"
    "\<not> json_ws (digit_char d)" "digit_char d \<notin> set [CHR 0x22, CHR ''['', CHR ''{'', CHR ''n'', CHR ''t'', CHR ''f'', CHR ''-'', CHR '']'', CHR ''}'']"
    using assms by (simp_all add: list_all_iff)
qed

lemma radix_digits_leading: "1 < b \<Longrightarrow> 1 < length (radix_digits b n) \<Longrightarrow> hd (radix_digits b n) \<noteq> 0"
proof (induction b n rule: radix_digits.induct)
  case (1 b n)
  have split: "radix_digits b n = (if n < b then [n] else radix_digits b (n div b) @ [n mod b])"
    using 1(2) by (subst radix_digits.simps) simp
  show ?case
  proof (cases "n div b < b")
    case True
    then have "radix_digits b (n div b) = [n div b]" by (subst radix_digits.simps) simp
    with 1 split show ?thesis by (auto split: if_splits simp: div_greater_zero_iff)
  next
    case False
    then have l: "radix_digits b (n div b) = radix_digits b (n div b div b) @ [n div b mod b]"
      using 1(2) by (subst radix_digits.simps) simp
    moreover have "radix_digits b (n div b div b) \<noteq> []" by (subst radix_digits.simps) simp
    ultimately have "1 < length (radix_digits b (n div b))" by (simp add: Suc_lessI)
    with 1 split show ?thesis by (auto split: if_splits simp: hd_append)
  qed
qed

lemma radix_digits_nonempty [simp]: "radix_digits b n \<noteq> []"
  by (subst radix_digits.simps) simp

lemma to_radix_10:
  shows "list_all is_digit (to_radix 10 n)" "to_radix 10 n \<noteq> []"
    "radix_value 10 (map digit_val (to_radix 10 n)) = n"
    "\<not> (1 < length (to_radix 10 n) \<and> hd (to_radix 10 n) = CHR ''0'')"
proof -
  have b: "d < 10" if "d \<in> set (radix_digits 10 n)" for d using that radix_digits_bound [of 10] by simp
  have ne: "radix_digits 10 n \<noteq> []" by (subst radix_digits.simps) simp
  show "list_all is_digit (to_radix 10 n)" using b by (auto simp: to_radix_def list_all_iff digit_char_facts)
  show "to_radix 10 n \<noteq> []" using ne by (simp add: to_radix_def)
  have "map digit_val (to_radix 10 n) = radix_digits 10 n"
    using b by (simp add: to_radix_def map_idI digit_char_facts)
  then show "radix_value 10 (map digit_val (to_radix 10 n)) = n" by (simp add: radix_value_digits)
  show "\<not> (1 < length (to_radix 10 n) \<and> hd (to_radix 10 n) = CHR ''0'')"
    using radix_digits_leading [of 10 n] b [OF hd_in_set [OF ne]] ne
    by (auto simp: to_radix_def hd_map digit_char_facts)
qed

text \<open>What may follow a value inside a document.\<close>

definition delim :: "string \<Rightarrow> bool" where
  "delim rest \<longleftrightarrow> (case rest of [] \<Rightarrow> True | c # _ \<Rightarrow> c \<in> set [CHR '','', CHR '']'', CHR ''}''])"

lemma delim_no_digit:
  assumes "delim rest"
  shows "takeWhile is_digit rest = []" "dropWhile is_digit rest = rest"
    "parse_fraction rest = Some ([], rest)" "parse_exponent rest = Some ([], rest)"
  using assms by (auto simp: delim_def is_digit_def parse_fraction_def parse_exponent_def less_eq_char_def
      split: list.splits)

lemma takeWhile_digits:
  assumes "list_all is_digit ds" "delim rest"
  shows "takeWhile is_digit (ds @ rest) = ds" "dropWhile is_digit (ds @ rest) = rest"
  using assms by (simp_all add: list_all_iff delim_no_digit takeWhile_append2 dropWhile_append2)

lemma parse_number_digits:
  assumes "delim rest"
  shows "parse_number rd ((if neg then ''-'' else '''') @ to_radix 10 n @ rest) = Some (rd (if neg then - int n else int n), rest)"
proof -
  note r = to_radix_10 [of n]
  obtain d ds where d: "to_radix 10 n = d # ds" using r(2) by (cases "to_radix 10 n") auto
  have "d \<noteq> CHR ''-''" using r(1) d by (auto simp: is_digit_def less_eq_char_def)
  then have neg: "take 1 (to_radix 10 n @ rest) \<noteq> ''-''" by (simp add: d)
  have "(if take 1 ((if neg then ''-'' else '''') @ to_radix 10 n @ rest) = ''-'' then
      drop 1 ((if neg then ''-'' else '''') @ to_radix 10 n @ rest) else
      (if neg then ''-'' else '''') @ to_radix 10 n @ rest) = to_radix 10 n @ rest"
    "take 1 ((if neg then ''-'' else '''') @ to_radix 10 n @ rest) = ''-'' \<longleftrightarrow> neg"
    using neg by (auto simp del: One_nat_def)
  then show ?thesis
    using r assms
    by (simp add: parse_number_def takeWhile_digits [OF r(1) assms(1)] delim_no_digit [OF assms(1)] Let_def
        del: One_nat_def)
qed

lemma parse_show_int:
  assumes "delim rest"
  shows "parse_number rd (show_int n @ rest) = Some (rd n, rest)"
  using parse_number_digits [OF assms, of rd "n < 0" "nat \<bar>n\<bar>"] by (cases "n < 0") (simp_all add: show_int_def)

text \<open>The first character of a printed value tells the parser what to read.\<close>

lemma show_int_first:
  obtains c cs where "show_int n = c # cs"
    "\<not> json_ws c" "c \<notin> set [CHR 0x22, CHR ''['', CHR ''{'', CHR ''n'', CHR ''t'', CHR ''f'', CHR '']'', CHR ''}'']"
proof -
  let ?d = "to_radix 10 (nat \<bar>n\<bar>)"
  obtain c cs where d: "?d = c # cs" using to_radix_10(2) by (cases ?d) auto
  have "hd (radix_digits 10 (nat \<bar>n\<bar>)) < 10"
    by (rule radix_digits_bound [OF _ hd_in_set]) simp_all
  moreover have "c = digit_char (hd (radix_digits 10 (nat \<bar>n\<bar>)))"
    using d by (auto simp: to_radix_def)
  ultimately have "\<not> json_ws c" "c \<notin> set [CHR 0x22, CHR ''['', CHR ''{'', CHR ''n'', CHR ''t'', CHR ''f'', CHR '']'', CHR ''}'']"
    using digit_char_facts by auto
  with d that show thesis
    by (cases "n < 0") (auto simp: show_int_def json_ws_def)
qed

lemma json_text_first:
  assumes "plain_json j"
  obtains c cs where "json_text j = c # cs" "\<not> json_ws c" "c \<noteq> CHR '']''" "c \<noteq> CHR ''}''"
proof (cases j)
  case (JNum n)
  show ?thesis by (rule show_int_first [of n]) (use that JNum in auto)
next
  case (JBool b)
  then show ?thesis using that by (cases b) (auto simp: json_ws_def)
qed (use assms that in \<open>auto simp: quote_json_def json_ws_def split: if_splits\<close>)

lemma skip_ws_nonws: "\<not> json_ws c \<Longrightarrow> skip_ws (c # cs) = c # cs"
  by simp

lemma parse_value_num:
  assumes "delim rest"
  shows "parse_value rd (Suc k) (show_int n @ rest) = Some (rd n, rest)"
proof -
  obtain c cs where c: "show_int n = c # cs" "\<not> json_ws c"
    "c \<notin> set [CHR 0x22, CHR ''['', CHR ''{'', CHR ''n'', CHR ''t'', CHR ''f'', CHR '']'', CHR ''}'']"
    by (rule show_int_first)
  from parse_show_int [OF assms, of rd n] c show ?thesis by simp
qed

lemma update_fresh: "k \<notin> set (map fst m) \<Longrightarrow> AList.update k v m = m @ [(k, v)]"
  by (induction m) auto

lemma json_text_length_pos: "plain_json j \<Longrightarrow> 0 < length (json_text j)"
  by (auto elim!: json_text_first)

lemma skip_ws_delim: "delim (c # cs) \<Longrightarrow> skip_ws (c # cs) = c # cs"
  by (auto simp: delim_def json_ws_def)

lemma delim_simps [simp]: "delim (CHR '','' # cs)" "delim (CHR '']'' # cs)" "delim (CHR ''}'' # cs)" "delim []"
  by (simp_all add: delim_def)

lemma parse_value_array:
  assumes "parse_items rd n (text_items js @ CHR '']'' # rest) = Some (js', rest)" "js \<noteq> []" "list_all plain_json js"
  shows "parse_value rd (Suc n) (json_text (JArr js) @ rest) = Some (JArr js', rest)"
proof -
  obtain j js'' where js: "js = j # js''" using assms(2) by (cases js) auto
  then obtain c cs where c: "json_text j = c # cs" "\<not> json_ws c" "c \<noteq> CHR '']''"
    using assms(3) by (auto elim!: json_text_first [of j])
  then obtain cs' where i: "text_items js = c # cs'" unfolding js by (cases js'') auto
  have "skip_ws (text_items js @ CHR '']'' # rest) = c # cs' @ CHR '']'' # rest"
    using c by (simp add: i)
  with assms(1) c show ?thesis by (auto simp: json_ws_def i)
qed

lemma members_first: "kvs \<noteq> [] \<Longrightarrow> \<exists>cs. text_members kvs = CHR 0x22 # cs"
  by (cases kvs rule: text_members.cases) (auto simp: quote_json_def)

lemma parse_value_object:
  assumes "parse_members rd n [] (text_members kvs @ CHR ''}'' # rest) = Some (kvs', rest)" "kvs \<noteq> []"
  shows "parse_value rd (Suc n) (json_text (JObj kvs) @ rest) = Some (JObj kvs', rest)"
  using assms members_first [OF assms(2)] by (auto simp: json_ws_def)

lemma parse_members_step:
  assumes "parse_value rd n (t @ rest) = Some (v, rest)" "rest = c # cs" "c = CHR '','' \<or> c = CHR ''}''"
  shows "parse_members rd (Suc n) acc (quote_json k @ '':'' @ t @ rest) =
    (if c = CHR '','' then parse_members rd n (AList.update k v acc) cs else Some (AList.update k v acc, cs))"
proof -
  have "quote_json k @ '':'' @ t @ rest =
      CHR 0x22 # concat (map escape_char k) @ CHR 0x22 # CHR '':'' # t @ rest"
    by (simp add: quote_json_def)
  with assms show ?thesis by (auto simp: json_ws_def parse_quoted)
qed

text \<open>Whatever integers are read as, the reader takes the written document back.\<close>

lemma parse_json_text:
  "plain_json j \<Longrightarrow> length (json_text j) < n \<Longrightarrow> delim rest \<Longrightarrow>
     parse_value rd n (json_text j @ rest) = Some (map_nums rd j, rest)"
  "list_all plain_json js \<Longrightarrow> js \<noteq> [] \<Longrightarrow> length (text_items js) + 2 \<le> n \<Longrightarrow>
     parse_items rd n (text_items js @ CHR '']'' # rest) = Some (map (map_nums rd) js, rest)"
  "list_all (\<lambda>kv. plain_json (snd kv)) kvs \<Longrightarrow> kvs \<noteq> [] \<Longrightarrow> distinct (map fst acc @ map fst kvs) \<Longrightarrow>
     length (text_members kvs) + 2 \<le> n \<Longrightarrow>
     parse_members rd n acc (text_members kvs @ CHR ''}'' # rest) =
       Some (acc @ map (\<lambda>kv. (fst kv, map_nums rd (snd kv))) kvs, rest)"
proof (induction j and js and kvs arbitrary: n rest and n rest and n rest acc
    rule: json_text_text_items_text_members.induct)
  case (5 s)
  then show ?case by (cases n) (auto simp: quote_json_def json_ws_def parse_quoted)
next
  case (3 m)
  then show ?case by (cases n) (auto intro: parse_value_num simp del: parse_value.simps)
next
  case (6 js)
  then obtain n' where n: "n = Suc n'" by (cases n) auto
  show ?case
  proof (cases "js = []")
    case True
    then show ?thesis by (simp add: n json_ws_def)
  next
    case False
    with 6 n have "parse_items rd n' (text_items js @ CHR '']'' # rest) = Some (map (map_nums rd) js, rest)" by simp
    with False 6 n show ?thesis by (auto intro!: parse_value_array simp del: json_text.simps parse_value.simps)
  qed
next
  case (7 kvs)
  then obtain n' where n: "n = Suc n'" by (cases n) auto
  show ?case
  proof (cases "kvs = []")
    case True
    then show ?thesis by (simp add: n json_ws_def)
  next
    case False
    with 7 n have "parse_members rd n' [] (text_members kvs @ CHR ''}'' # rest) =
        Some ([] @ map (\<lambda>kv. (fst kv, map_nums rd (snd kv))) kvs, rest)" by simp
    with False n show ?thesis by (auto intro!: parse_value_object simp del: json_text.simps parse_value.simps)
  qed
next
  case (9 j)
  then obtain n' where n: "n = Suc n'" by (cases n) auto
  with 9 show ?case by (simp add: json_ws_def)
next
  case (10 j k js)
  then obtain n' where n: "n = Suc n'" by (cases n) auto
  have "parse_value rd n' (json_text j @ CHR '','' # text_items (k # js) @ CHR '']'' # rest) =
      Some (map_nums rd j, CHR '','' # text_items (k # js) @ CHR '']'' # rest)"
    using 10 n by simp
  moreover have "parse_items rd n' (text_items (k # js) @ CHR '']'' # rest) = Some (map (map_nums rd) (k # js), rest)"
    using 10 n json_text_length_pos [of j] by simp
  ultimately show ?case by (simp add: n json_ws_def del: text_items.simps(2))
next
  case (12 k v)
  then obtain n' where n: "n = Suc n'" by (cases n) auto
  have v: "parse_value rd n' (json_text v @ CHR ''}'' # rest) = Some (map_nums rd v, CHR ''}'' # rest)" using 12 n by simp
  from parse_members_step [OF v refl, of acc k] 12 show ?case
    by (simp add: n update_fresh del: parse_members.simps)
next
  case (13 k v kv kvs)
  then obtain n' where n: "n = Suc n'" by (cases n) auto
  let ?rest = "CHR '','' # text_members (kv # kvs) @ CHR ''}'' # rest"
  have v: "parse_value rd n' (json_text v @ ?rest) = Some (map_nums rd v, ?rest)" using 13 n by simp
  have "parse_members rd n' (acc @ [(k, map_nums rd v)]) (text_members (kv # kvs) @ CHR ''}'' # rest) =
      Some ((acc @ [(k, map_nums rd v)]) @ map (\<lambda>kv. (fst kv, map_nums rd (snd kv))) (kv # kvs), rest)"
    using 13 n by (intro "13.IH") auto
  with parse_members_step [OF v refl, of acc k] 13 show ?case by (simp add: n update_fresh del: parse_members.simps)
next
  case 1
  then show ?case by (cases n) (simp_all add: parse_literal_def json_ws_def)
next
  case (2 b)
  then show ?case by (cases n; cases b) (simp_all add: parse_literal_def json_ws_def)
qed simp_all

lemma parse_text_json: "plain_json j \<Longrightarrow> parse_text rd (json_text j) = Some (map_nums rd j)"
  using parse_json_text(1) [of j "length (json_text j) + 1" "[]" rd] by (simp add: parse_text_def)

text \<open>\<^verbatim>\<open>JSON.stringify\<close> writes the shortest decimals.\<close>

abbreviation js_decimals :: "json \<Rightarrow> json" where
  "js_decimals \<equiv> map_nums (\<lambda>n. JNum (shortest_int n))"

lemma stringify_text:
  "stringify j = json_text (js_decimals j)"
  "stringify_items js = text_items (map js_decimals js)"
  "stringify_members kvs = text_members (map (\<lambda>kv. (fst kv, js_decimals (snd kv))) kvs)"
  by (induction j and js and kvs rule: stringify_stringify_items_stringify_members.induct) (simp_all add: num_str_def)

lemma plain_map_nums: "plain_json j \<Longrightarrow> (\<And>n. plain_json (f n)) \<Longrightarrow> plain_json (map_nums f j)"
  by (induction f j rule: map_nums.induct) (auto simp: list_all_iff comp_def)

lemma wf_json_plain: "wf_json j \<Longrightarrow> plain_json j"
  by (induction j rule: wf_json.induct) (auto simp: list_all_iff)

lemma map_nums_map_nums: "map_nums f (map_nums (\<lambda>n. JNum (g n)) j) = map_nums (\<lambda>n. f (g n)) j"
  by (induction "\<lambda>n. JNum (g n)" j rule: map_nums.induct) auto

lemma js_number_shortest: "wf_json j \<Longrightarrow> map_nums (\<lambda>n. js_number (shortest_int n)) j = j"
  by (induction j rule: wf_json.induct)
     (auto simp: list_all_iff js_number_def shortest_int_double map_idI)

lemma stringify_length_pos: "wf_json j \<Longrightarrow> 0 < length (stringify j)"
  by (simp add: stringify_text json_text_length_pos plain_map_nums wf_json_plain del: length_greater_0_conv)

lemma json_parse_stringify: "wf_json j \<Longrightarrow> json_parse (stringify j) = Some j"
  using parse_text_json [of "js_decimals j" js_number]
  by (simp add: json_parse_def stringify_text plain_map_nums wf_json_plain map_nums_map_nums js_number_shortest)

text \<open>
  \<^verbatim>\<open>JSON.parse(JSON.stringify(v))\<close> is \<open>v\<close> for every value whose numbers are integers a double holds
  and whose objects have different keys; the text determines the value.
\<close>

theorem json_roundtrip:
  assumes "wf_json j"
  shows "json_parse (stringify j) = Some j"
  using assms by (rule json_parse_stringify)

lemma stringify_inject: "wf_json j \<Longrightarrow> wf_json k \<Longrightarrow> stringify j = stringify k \<Longrightarrow> j = k"
  by (metis json_parse_stringify option.inject)

theorem json_roundtrip_witness:
  "json_parse (stringify (JObj [(''a'', JArr [JNum (- 12), JStr [CHR 0x0A, CHR 0x22], JNull]), (''b'', JBool True)])) =
     Some (JObj [(''a'', JArr [JNum (- 12), JStr [CHR 0x0A, CHR 0x22], JNull]), (''b'', JBool True)])"
proof -
  have "wf_json (JObj [(''a'', JArr [JNum (- 12), JStr [CHR 0x0A, CHR 0x22], JNull]), (''b'', JBool True)])"
    using fl_int [of "- 12"] by simp
  then show ?thesis by (rule json_roundtrip)
qed

end
