(* ===== verification/Kernel_Wasm.thy ===== *)
theory Kernel_Wasm
  imports Json Merkle Seed
begin

text \<open>
  \<^verbatim>\<open>web/src/lib/kernel/kernel-wasm.ts\<close> and \<^verbatim>\<open>kernel-wasm-server.ts\<close>: the loader of the compiled
  adjudication kernel, in the browser and on the server, and \<^verbatim>\<open>web/src/lib/data/policy.ts\<close>: the policy
  bundle every request carries.

  The module \<^verbatim>\<open>kernel-verify.wasm\<close> is an argument here, and \<^verbatim>\<open>Kernel_Bridge\<close> provides the one its source describes: it maps
  the bytes of a request to the bytes left in the result buffer, \<^const>\<open>None\<close> when the export returned something
  other than 1. Allocation in linear memory and the copies in and out are not modelled: they carry
  these bytes unchanged. A claim inside a request is its JSON object, because the ledger's claims
  carry a \<^verbatim>\<open>claim_id\<close> besides the fields the kernel reads.
\<close>

section \<open>Requests and verdicts\<close>

record PredicateWeight =
  pw_tactic :: string
  pw_weight :: int
  pw_techniques :: "string list"

record ChainMultiplier =
  cm_from :: string
  cm_to :: string
  cm_bonus :: int

record PolicyBundle =
  pb_policy_version :: string
  pb_predicate_weights :: "(string \<times> PredicateWeight) list"
  pb_chain_multipliers :: "ChainMultiplier list"
  pb_severity_thresholds :: "(int \<times> string) list"

record KernelRequest =
  kr_kernel_version :: string
  kr_policy :: PolicyBundle
  kr_claims :: "json list"

record KernelVerdict =
  kv_severity :: string
  kv_confidence :: int
  kv_disposition :: string
  kv_attack_techniques :: "string list"
  kv_contributing_claims :: "AttributedClaim list"
  kv_policy_version :: string
  kv_kernel_version :: string
  kv_verdict_hash :: string
  kv_submitted_claim_ids :: "string list"

datatype KernelResult = KernelOk KernelVerdict | KernelError string

section \<open>The synthetic policy\<close>

definition POLICY_VERSION :: string where
  "POLICY_VERSION = ''policy-2026.09.0''"

definition TECHNIQUE_BY_PREDICATE :: "(string \<times> string list) list" where
  "TECHNIQUE_BY_PREDICATE =
    [(''AUTH_FAILED_BURST'', [''T1110'']),
     (''AUTH_FROM_NEW_ASN'', [''T1078'']),
     (''INTERPRETER_SPAWNED_BY'', [''T1059'']),
     (''ENCODED_COMMAND'', [''T1027'', ''T1059.001'']),
     (''PERSISTENCE_REGISTRY_RUN_KEY'', [''T1547.001'']),
     (''PRIVILEGE_ESCALATION_ATTEMPT'', [''T1068'']),
     (''DEFENSE_EVASION_ATTEMPT'', [''T1562'']),
     (''AUTH_SUCCEEDED_AFTER_FAILURES'', [''T1110'']),
     (''TOKEN_REPLAYED'', [''T1550'']),
     (''RDP_INTERNAL_FIRST_TIME'', [''T1021.001'']),
     (''LATERAL_MOVEMENT_DETECTED'', [''T1021'']),
     (''DATA_STAGING_DETECTED'', [''T1074'']),
     (''INTERPRETER_NETWORK_EGRESS'', [''T1071'']),
     (''CONNECTED_TO_INDICATOR'', [''T1071'']),
     (''DATA_EXFILTRATED'', [''T1041'']),
     (''IMPACT_DETECTED'', [''T1485''])]"

definition weight_entry :: "Tactic \<Rightarrow> string \<Rightarrow> PredicateWeight" where
  "weight_entry tac predicate = \<lparr>
     pw_tactic = tactic_name tac,
     pw_weight = 1200 + int (length predicate mod 5) * 300,
     pw_techniques = (case map_of TECHNIQUE_BY_PREDICATE predicate of Some ts \<Rightarrow> ts | None \<Rightarrow> [])\<rparr>"

definition policy_weights :: "(string \<times> PredicateWeight) list" where
  "policy_weights =
     foldl (\<lambda>m tac. foldl (\<lambda>m p. AList.update p (weight_entry tac p) m) m
              (case map_of PREDICATES_BY_TACTIC tac of Some ps \<Rightarrow> ps | None \<Rightarrow> []))
       [] TACTICS"

definition buildSyntheticPolicy :: PolicyBundle where
  "buildSyntheticPolicy = \<lparr>
     pb_policy_version = POLICY_VERSION,
     pb_predicate_weights = policy_weights,
     pb_chain_multipliers =
       [\<lparr>cm_from = ''initial-access'', cm_to = ''execution'', cm_bonus = 500\<rparr>,
        \<lparr>cm_from = ''execution'', cm_to = ''persistence'', cm_bonus = 400\<rparr>,
        \<lparr>cm_from = ''credential-access'', cm_to = ''lateral-movement'', cm_bonus = 600\<rparr>,
        \<lparr>cm_from = ''collection'', cm_to = ''exfiltration'', cm_bonus = 700\<rparr>,
        \<lparr>cm_from = ''command-and-control'', cm_to = ''exfiltration'', cm_bonus = 500\<rparr>],
     pb_severity_thresholds =
       [(0, ''info''), (1500, ''low''), (3500, ''medium''), (6000, ''high''), (8500, ''critical'')]\<rparr>"

section \<open>The text of a request\<close>

definition opt_json :: "('a \<Rightarrow> json) \<Rightarrow> 'a option \<Rightarrow> json" where
  "opt_json f x = (case x of None \<Rightarrow> JNull | Some a \<Rightarrow> f a)"

fun polarity_name :: "Polarity \<Rightarrow> string" where
  "polarity_name Supports = ''supports''"
| "polarity_name Refutes = ''refutes''"

definition claim_fields :: "('a RawClaim_scheme) \<Rightarrow> (string \<times> json) list" where
  "claim_fields c =
    [(''predicate'', JStr (lc_predicate c)),
     (''subject'', JStr (lc_subject c)),
     (''object'', opt_json JStr (lc_object c)),
     (''interval_start_ns'', JNum (lc_interval_start_ns c)),
     (''interval_end_ns'', JNum (lc_interval_end_ns c)),
     (''evidence'', JArr (map JStr (lc_evidence c))),
     (''extractor_kind'', JStr (lc_extractor_kind c)),
     (''extractor_id'', JStr (lc_extractor_id c)),
     (''extractor_version'', JStr (lc_extractor_version c)),
     (''observed_value'', opt_json JNum (lc_observed_value c)),
     (''polarity'', JStr (polarity_name (lc_polarity c))),
     (''hypothesis_ref'', opt_json JStr (lc_hypothesis_ref c))]"

definition raw_claim_json :: "RawClaim \<Rightarrow> json" where
  "raw_claim_json c = JObj (claim_fields c)"

definition ledger_claim_json :: "LedgerClaim \<Rightarrow> json" where
  "ledger_claim_json c = JObj (claim_fields c @ [(''claim_id'', JStr (lc_claim_id c))])"

definition weight_json :: "PredicateWeight \<Rightarrow> json" where
  "weight_json w = JObj [(''tactic'', JStr (pw_tactic w)), (''weight'', JNum (pw_weight w)),
     (''techniques'', JArr (map JStr (pw_techniques w)))]"

definition policy_json :: "PolicyBundle \<Rightarrow> json" where
  "policy_json p = JObj
    [(''policy_version'', JStr (pb_policy_version p)),
     (''predicate_weights'', JObj (map (apsnd weight_json) (pb_predicate_weights p))),
     (''chain_multipliers'', JArr (map (\<lambda>m. JObj [(''from'', JStr (cm_from m)), (''to'', JStr (cm_to m)),
        (''bonus'', JNum (cm_bonus m))]) (pb_chain_multipliers p))),
     (''severity_thresholds'', JArr (map (\<lambda>(n, s). JArr [JNum n, JStr s]) (pb_severity_thresholds p)))]"

definition request_json :: "KernelRequest \<Rightarrow> json" where
  "request_json r = JObj
    [(''kernel_version'', JStr (kr_kernel_version r)),
     (''policy'', policy_json (kr_policy r)),
     (''claims'', JArr (kr_claims r))]"

section \<open>The response\<close>

text \<open>
  \<^verbatim>\<open>new TextDecoder().decode(bytes)\<close> on text with code points below 256; \<^const>\<open>None\<close> is text outside
  that range.
\<close>

fun utf8_decode :: "bytes \<Rightarrow> string option" where
  "utf8_decode [] = Some []"
| "utf8_decode (b # bs) =
     (if unat b < 128 then map_option (Cons (char_of (unat b))) (utf8_decode bs)
      else case bs of
             [] \<Rightarrow> None
           | b' # bs' \<Rightarrow>
               if (unat b = 194 \<or> unat b = 195) \<and> 128 \<le> unat b' \<and> unat b' < 192
               then map_option (Cons (char_of ((unat b - 192) * 64 + (unat b' - 128)))) (utf8_decode bs')
               else None)"

fun json_string :: "json \<Rightarrow> string option" where
  "json_string (JStr s) = Some s"
| "json_string _ = None"

fun json_int :: "json \<Rightarrow> int option" where
  "json_int (JNum n) = Some n"
| "json_int _ = None"

fun json_list :: "json \<Rightarrow> json list option" where
  "json_list (JArr js) = Some js"
| "json_list _ = None"

definition str_field :: "string \<Rightarrow> json \<Rightarrow> string option" where
  "str_field k j = Option.bind (json_get k j) json_string"

definition int_field :: "string \<Rightarrow> json \<Rightarrow> int option" where
  "int_field k j = Option.bind (json_get k j) json_int"

definition list_field :: "string \<Rightarrow> (json \<Rightarrow> 'a option) \<Rightarrow> json \<Rightarrow> 'a list option" where
  "list_field k f j = Option.bind (Option.bind (json_get k j) json_list) (\<lambda>js. those (map f js))"

definition contributing_of :: "json \<Rightarrow> AttributedClaim option" where
  "contributing_of j =
     Option.bind (str_field ''claim_id'' j) (\<lambda>i.
     Option.bind (str_field ''predicate'' j) (\<lambda>p.
     Option.bind (int_field ''attributed_weight'' j) (\<lambda>w.
     Some \<lparr>ac_claim_id = i, ac_predicate = p, ac_attributed_weight = w\<rparr>)))"

text \<open>The fields of a verdict object; the code casts without a check, the model has no value for a
  document that lacks one of them.\<close>

definition verdict_of :: "json \<Rightarrow> KernelVerdict option" where
  "verdict_of j =
     Option.bind (str_field ''severity'' j) (\<lambda>severity.
     Option.bind (int_field ''confidence'' j) (\<lambda>confidence.
     Option.bind (str_field ''disposition'' j) (\<lambda>disposition.
     Option.bind (list_field ''attack_techniques'' json_string j) (\<lambda>techniques.
     Option.bind (list_field ''contributing_claims'' contributing_of j) (\<lambda>contributing.
     Option.bind (str_field ''policy_version'' j) (\<lambda>policy_version.
     Option.bind (str_field ''kernel_version'' j) (\<lambda>kernel_version.
     Option.bind (str_field ''verdict_hash'' j) (\<lambda>verdict_hash.
     Option.bind (list_field ''submitted_claim_ids'' json_string j) (\<lambda>ids.
     Some \<lparr>kv_severity = severity, kv_confidence = confidence, kv_disposition = disposition,
       kv_attack_techniques = techniques, kv_contributing_claims = contributing,
       kv_policy_version = policy_version, kv_kernel_version = kernel_version,
       kv_verdict_hash = verdict_hash, kv_submitted_claim_ids = ids\<rparr>)))))))))"

definition parsed_result :: "json \<Rightarrow> KernelResult result" where
  "parsed_result parsed =
     (case parsed of
        JObj kvs \<Rightarrow>
          (case map_of kvs ''error'' of
             Some e \<Rightarrow> (case json_string e of Some s \<Rightarrow> Inr (KernelError s) | None \<Rightarrow> Inl PickUndefined)
           | None \<Rightarrow> (case verdict_of parsed of Some v \<Rightarrow> Inr (KernelOk v) | None \<Rightarrow> Inl PickUndefined))
      | _ \<Rightarrow> Inl TypeError)"

type_synonym kernel_module = "bytes \<Rightarrow> bytes option"

definition request_bytes :: "KernelRequest \<Rightarrow> bytes" where
  "request_bytes request = utf8 (stringify (request_json request))"

definition run_kernel :: "kernel_module \<Rightarrow> KernelRequest \<Rightarrow> KernelResult result" where
  "run_kernel adjudicate request =
     (case adjudicate (request_bytes request) of
        None \<Rightarrow> Inl (Thrown ''kernel-verify.wasm: request bytes were not valid UTF-8'')
      | Some resultBytes \<Rightarrow>
          (case Option.bind (utf8_decode resultBytes) json_parse of
             None \<Rightarrow> Inl (Thrown ''SyntaxError'')
           | Some parsed \<Rightarrow> parsed_result parsed))"

section \<open>Loading the module\<close>

text \<open>
  \<^verbatim>\<open>instancePromise\<close>: the outcome of the first load, kept for the life of the page, a failure too.
  \<open>fetched\<close> is the answer to the request for \<^verbatim>\<open>/kernel-verify.wasm\<close>: an HTTP status and, when it is
  2xx, the instantiated module.
\<close>

definition load_module :: "nat \<times> kernel_module \<Rightarrow> kernel_module result" where
  "load_module fetched =
     (case fetched of (status, k) \<Rightarrow>
        if 200 \<le> status \<and> status < 300 then Inr k
        else Inl (Thrown (''fetching /kernel-verify.wasm: HTTP '' @ show_int (int status))))"

definition getInstance ::
  "nat \<times> kernel_module \<Rightarrow> kernel_module result option \<Rightarrow> kernel_module result \<times> kernel_module result option" where
  "getInstance fetched instancePromise =
     (case instancePromise of
        Some p \<Rightarrow> (p, instancePromise)
      | None \<Rightarrow> (let p = load_module fetched in (p, Some p)))"

definition verifyClaimSet ::
  "nat \<times> kernel_module \<Rightarrow> kernel_module result option \<Rightarrow> KernelRequest \<Rightarrow>
   KernelResult result \<times> kernel_module result option" where
  "verifyClaimSet fetched instancePromise request =
     (case getInstance fetched instancePromise of
        (Inl e, p) \<Rightarrow> (Inl e, p)
      | (Inr k, p) \<Rightarrow> (run_kernel k request, p))"

text \<open>On the server the module is read from disk; \<open>file\<close> is \<^const>\<open>None\<close> when it is missing.\<close>

definition verifyClaimSetServer :: "kernel_module option \<Rightarrow> KernelRequest \<Rightarrow> KernelResult result" where
  "verifyClaimSetServer file request =
     (case file of
        None \<Rightarrow> Inl (Thrown ''ENOENT'')
      | Some k \<Rightarrow> run_kernel k request)"

section \<open>Facts about the policy\<close>

lemma policy_weights_entry:
  "list_all (\<lambda>(tac, ps). list_all (\<lambda>p. map_of policy_weights p = Some (weight_entry tac p)) ps) PREDICATES_BY_TACTIC"
  by code_simp

lemma policy_weights_keys: "distinct (map fst policy_weights) \<and> length policy_weights = 16"
  by code_simp

text \<open>The severity a list of ascending thresholds gives a score: the last one not above it.\<close>

definition classify :: "(int \<times> string) list \<Rightarrow> int \<Rightarrow> string option" where
  "classify thresholds score = map_option snd (find (\<lambda>(t, _). t \<le> score) (rev thresholds))"

text \<open>
  The policy bundle is a valid one and agrees with the rest of the console: each predicate a
  detector can fire is priced once, under the tactic it is registered for and with a weight between
  1200 and 2400; the thresholds are strictly ascending from 0; and the severity they give to a
  score is the one \<^verbatim>\<open>severityForScore\<close> shows for it.
\<close>

theorem policy_agrees_with_corpus:
  "distinct (map fst (pb_predicate_weights buildSyntheticPolicy)) \<and>
   list_all (\<lambda>(tac, ps). list_all (\<lambda>p. case map_of (pb_predicate_weights buildSyntheticPolicy) p of
       None \<Rightarrow> False
     | Some w \<Rightarrow> pw_tactic w = tactic_name tac \<and> 1200 \<le> pw_weight w \<and> pw_weight w \<le> 2400) ps) PREDICATES_BY_TACTIC \<and>
   sorted_wrt (<) (map fst (pb_severity_thresholds buildSyntheticPolicy)) \<and>
   classify (pb_severity_thresholds buildSyntheticPolicy) (max 0 score) = Some (severity_name (severityForScore (max 0 score)))"
proof (intro conjI)
  show "distinct (map fst (pb_predicate_weights buildSyntheticPolicy))"
    using policy_weights_keys by (simp add: buildSyntheticPolicy_def)
  show "list_all (\<lambda>(tac, ps). list_all (\<lambda>p. case map_of (pb_predicate_weights buildSyntheticPolicy) p of
       None \<Rightarrow> False
     | Some w \<Rightarrow> pw_tactic w = tactic_name tac \<and> 1200 \<le> pw_weight w \<and> pw_weight w \<le> 2400) ps) PREDICATES_BY_TACTIC"
    using policy_weights_entry
    by (rule list.pred_mono_strong) (auto simp: buildSyntheticPolicy_def weight_entry_def list_all_iff)
  show "sorted_wrt (<) (map fst (pb_severity_thresholds buildSyntheticPolicy))"
    by (simp add: buildSyntheticPolicy_def)
  show "classify (pb_severity_thresholds buildSyntheticPolicy) (max 0 score) = Some (severity_name (severityForScore (max 0 score)))"
    by (auto simp: classify_def buildSyntheticPolicy_def severityForScore_def max_def)
qed

section \<open>Facts about requests and responses\<close>

lemma utf8_decode_char: "utf8_decode (utf8_char c @ bs) = map_option (Cons c) (utf8_decode bs)"
proof (cases "(of_char c :: nat) < 128")
  case True
  then show ?thesis by (simp add: utf8_char_small unat_of_nat)
next
  case False
  define n where "n = (of_char c :: nat)"
  have n: "n < 256" "128 \<le> n" using False by (simp_all add: n_def)
  have "2 \<le> n div 64" using div_le_mono [OF n(2), of 64] by simp
  moreover have "n div 64 < 4" using n(1) by (simp add: div_less_iff_less_mult)
  ultimately have q: "n div 64 = 2 \<or> n div 64 = 3" by linarith
  have "unat (of_nat (192 + n div 64) :: byte) = 192 + n div 64" "unat (of_nat (128 + n mod 64) :: byte) = 128 + n mod 64"
    using q by (auto simp: unat_of_nat simp del: of_nat_add)
  moreover have "n div 64 * 64 + n mod 64 = n" by simp
  moreover have "char_of n = c" by (simp add: n_def)
  ultimately show ?thesis
    using q by (auto simp: utf8_char_large [OF False] n_def [symmetric] simp del: of_nat_add)
qed

lemma utf8_decode_utf8 [simp]: "utf8_decode (utf8 s) = Some s"
proof (induction s)
  case (Cons c s)
  have "utf8 (c # s) = utf8_char c @ utf8 s" by (simp add: utf8_def)
  with Cons show ?case by (simp add: utf8_decode_char)
qed (simp add: utf8_def)

lemma request_bytes_inject:
  "wf_json (request_json r) \<Longrightarrow> wf_json (request_json r') \<Longrightarrow> request_bytes r = request_bytes r' \<Longrightarrow>
   request_json r = request_json r'"
  by (simp add: request_bytes_def stringify_inject)

text \<open>
  What the loader returns. The document the kernel left in its result buffer is what the
  caller gets: an object with an \<^verbatim>\<open>error\<close> member becomes a rejection with that text, any other verdict
  object the verdict with exactly its fields; the browser and the server compute the same function
  of the same module; and once a load has failed, every later verification of that page fails with
  the same error, whatever the server would answer by then.
\<close>

theorem kernel_loader:
  assumes "wf_json doc" "k (request_bytes request) = Some (utf8 (stringify doc))"
  shows "verifyClaimSetServer (Some k) request = parsed_result doc \<and>
    verifyClaimSet (200, k) None request = (verifyClaimSetServer (Some k) request, Some (Inr k)) \<and>
    (case verifyClaimSet (404, k) None request of
       (r, p) \<Rightarrow> r = Inl (Thrown ''fetching /kernel-verify.wasm: HTTP 404'') \<and> verifyClaimSet (200, k) p request = (r, p))"
proof -
  have "json_parse (stringify doc) = Some doc"
    using assms(1) by (rule json_parse_stringify)
  then have "run_kernel k request = parsed_result doc"
    using assms(2) by (simp add: run_kernel_def)
  then show ?thesis
    by (simp add: verifyClaimSetServer_def verifyClaimSet_def getInstance_def load_module_def Let_def
        show_int_def to_radix_def radix_digits.simps digit_char_def digit_chars_def)
qed

definition sample_kernel :: kernel_module where
  "sample_kernel bs = Some (utf8 (stringify (JObj [(''error'', JStr ''empty evidence'')])))"

theorem kernel_loader_witness:
  "verifyClaimSetServer (Some sample_kernel) \<lparr>kr_kernel_version = ''1'', kr_policy = buildSyntheticPolicy, kr_claims = []\<rparr> =
     Inr (KernelError ''empty evidence'')"
proof -
  let ?doc = "JObj [(''error'', JStr ''empty evidence'')]"
  have "wf_json ?doc" by simp
  moreover have "sample_kernel (request_bytes \<lparr>kr_kernel_version = ''1'', kr_policy = buildSyntheticPolicy, kr_claims = []\<rparr>) =
      Some (utf8 (stringify ?doc))" by (simp only: sample_kernel_def)
  ultimately show ?thesis using kernel_loader [of ?doc sample_kernel] by (simp add: parsed_result_def)
qed

end
