(* ===== verification/Kernel_Bridge.thy ===== *)
theory Kernel_Bridge
  imports Kernel_Adjudicate Kernel_Wasm
begin

text \<open>
  \<^verbatim>\<open>kernel/wasm_bridge/src/lib.rs\<close>: the module the console loads. A request arrives as the UTF-8 bytes of a JSON text, is
  turned into a policy bundle and claims, adjudicated, and the verdict (or an error object) is left as JSON text in the
  result buffer.

  The JSON library \<^verbatim>\<open>serde_json\<close> is a parameter: \<open>from_str\<close> reads a request, on the left the text of its error, and
  \<open>to_string\<close> writes a document. The locale \<open>serde\<close> states what its documentation says of both: a well-formed object is
  read field by field as the derived readers prescribe (\<open>request_input_of\<close>), integers are exact 64-bit integers, and a
  document is written compactly with every digit.
\<close>

section \<open>Request shapes\<close>

record ClaimInput =
  ci_predicate :: string
  ci_subject :: string
  ci_object :: "string option"
  ci_interval_start_ns :: int
  ci_interval_end_ns :: int
  ci_evidence :: "string list"
  ci_extractor_kind :: string
  ci_extractor_id :: string
  ci_extractor_version :: string
  ci_observed_value :: "int option"
  ci_polarity :: string
  ci_hypothesis_ref :: "string option"

record PredicateWeightInput =
  pwi_tactic :: string
  pwi_weight :: int
  pwi_techniques :: "string list"

record ChainMultiplierInput =
  cmi_from :: string
  cmi_to :: string
  cmi_bonus :: int

text \<open>\<^verbatim>\<open>predicate_weights\<close> is a \<^verbatim>\<open>BTreeMap\<close>: the list of its entries, ascending by key.\<close>

record PolicyInput =
  pi_policy_version :: string
  pi_predicate_weights :: "(string \<times> PredicateWeightInput) list"
  pi_chain_multipliers :: "ChainMultiplierInput list"
  pi_severity_thresholds :: "(int \<times> string) list"

record RequestInput =
  ri_kernel_version :: string
  ri_policy :: PolicyInput
  ri_claims :: "ClaimInput list"

section \<open>Building the kernel's arguments\<close>

text \<open>\<^verbatim>\<open>format!("{s:?}")\<close> of a string: quoted, with control and other unprintable characters escaped.\<close>

definition debug_char :: "char \<Rightarrow> string" where
  "debug_char c =
     (let n = of_char c :: nat in
      if c = CHR 0x22 then [CHR 0x5C, CHR 0x22]
      else if c = CHR 0x5C then [CHR 0x5C, CHR 0x5C]
      else if n = 0 then [CHR 0x5C, CHR ''0'']
      else if n = 9 then [CHR 0x5C, CHR ''t'']
      else if n = 10 then [CHR 0x5C, CHR ''n'']
      else if n = 13 then [CHR 0x5C, CHR ''r'']
      else if n < 32 \<or> 127 \<le> n \<and> n \<le> 160 \<or> n = 173 then CHR 0x5C # ''u{'' @ to_radix 16 n @ ''}''
      else [c])"

definition debug_str :: "string \<Rightarrow> string" where
  "debug_str s = CHR 0x22 # concat (map debug_char s) @ [CHR 0x22]"

text \<open>A loop whose body may return early with an error: the first error wins.\<close>

fun try_map :: "('a \<Rightarrow> 'e + 'b) \<Rightarrow> 'a list \<Rightarrow> 'e + 'b list" where
  "try_map f [] = Inr []"
| "try_map f (x # xs) =
     (case f x of
        Inl e \<Rightarrow> Inl e
      | Inr y \<Rightarrow> (case try_map f xs of Inl e \<Rightarrow> Inl e | Inr ys \<Rightarrow> Inr (y # ys)))"

definition tactic_named :: "string \<Rightarrow> string + Tactic" where
  "tactic_named s = (case Tactic_from_name s of None \<Rightarrow> Inl (''unknown tactic '' @ debug_str s) | Some t \<Rightarrow> Inr t)"

definition build_weight :: "string \<times> PredicateWeightInput \<Rightarrow> string + (string \<times> KPredicateWeight)" where
  "build_weight x =
     (case tactic_named (pwi_tactic (snd x)) of
        Inl e \<Rightarrow> Inl e
      | Inr t \<Rightarrow> Inr (fst x, \<lparr>kw_tactic = t, kw_weight = pwi_weight (snd x), kw_techniques = pwi_techniques (snd x)\<rparr>))"

definition build_chain :: "ChainMultiplierInput \<Rightarrow> string + ((Tactic \<times> Tactic) \<times> int)" where
  "build_chain cm =
     (case tactic_named (cmi_from cm) of
        Inl e \<Rightarrow> Inl e
      | Inr from \<Rightarrow> (case tactic_named (cmi_to cm) of
            Inl e \<Rightarrow> Inl e
          | Inr to \<Rightarrow> Inr ((from, to), cmi_bonus cm)))"

definition build_threshold :: "int \<times> string \<Rightarrow> string + (int \<times> Severity)" where
  "build_threshold t =
     (case Severity_from_name (snd t) of
        None \<Rightarrow> Inl (''unknown severity '' @ debug_str (snd t))
      | Some sev \<Rightarrow> Inr (fst t, sev))"

text \<open>Later entries of a map replace earlier ones with the same key.\<close>

definition build_policy :: "PolicyInput \<Rightarrow> string + KPolicyBundle" where
  "build_policy inp =
     (case try_map build_weight (pi_predicate_weights inp) of
        Inl e \<Rightarrow> Inl e
      | Inr weights \<Rightarrow>
          (case try_map build_chain (pi_chain_multipliers inp) of
             Inl e \<Rightarrow> Inl e
           | Inr chain \<Rightarrow>
               (case try_map build_threshold (pi_severity_thresholds inp) of
                  Inl e \<Rightarrow> Inl e
                | Inr thresholds \<Rightarrow>
                    (case PolicyBundle_new (pi_policy_version inp) (map_of (rev weights)) (map_of (rev chain)) thresholds of
                       Inl (InvalidPolicyError msg) \<Rightarrow> Inl (''InvalidPolicyError('' @ debug_str msg @ '')'')
                     | Inr policy \<Rightarrow> Inr policy))))"

definition build_claim :: "ClaimInput \<Rightarrow> string + Claim" where
  "build_claim inp =
     (case Polarity_from_name (ci_polarity inp) of
        None \<Rightarrow> Inl (''unknown polarity '' @ debug_str (ci_polarity inp))
      | Some polarity \<Rightarrow>
          (case Claim_new \<lparr>cl_predicate = ci_predicate inp, cl_subject = ci_subject inp, cl_object = ci_object inp,
                  cl_interval_start_ns = ci_interval_start_ns inp, cl_interval_end_ns = ci_interval_end_ns inp,
                  cl_evidence = ci_evidence inp, cl_extractor_kind = ci_extractor_kind inp,
                  cl_extractor_id = ci_extractor_id inp, cl_extractor_version = ci_extractor_version inp,
                  cl_observed_value = ci_observed_value inp, cl_polarity = polarity,
                  cl_hypothesis_ref = ci_hypothesis_ref inp\<rparr> of
             Inl EmptyEvidenceError \<Rightarrow> Inl ''empty evidence list''
           | Inr c \<Rightarrow> Inr c))"

definition build_claims :: "ClaimInput list \<Rightarrow> string + Claim list" where
  "build_claims inputs =
     try_map (\<lambda>(i, c). case build_claim c of
         Inl e \<Rightarrow> Inl (''claim '' @ show_int (int i) @ '': '' @ e)
       | Inr claim \<Rightarrow> Inr claim) (List.enumerate 0 inputs)"

section \<open>The response\<close>

text \<open>\<^verbatim>\<open>hex_encode\<close>: two lower-case digits per byte.\<close>

definition hex_encode :: "bytes \<Rightarrow> string" where
  "hex_encode bs = concat (map byte_hex bs)"

definition contributing_output :: "ContributingClaim \<Rightarrow> json" where
  "contributing_output c = JObj [(''claim_id'', JStr (hex_encode (cc_claim_id c))), (''predicate'', JStr (cc_predicate c)),
     (''attributed_weight'', JNum (cc_attributed_weight c))]"

definition verdict_output :: "Verdict \<Rightarrow> string list \<Rightarrow> json" where
  "verdict_output verdict submitted_claim_ids = JObj
    [(''severity'', JStr (Severity_name (v_severity verdict))),
     (''confidence'', JNum (v_confidence verdict)),
     (''disposition'', JStr (Disposition_name (v_disposition verdict))),
     (''attack_techniques'', JArr (map JStr (v_attack_techniques verdict))),
     (''contributing_claims'', JArr (map contributing_output (v_contributing_claims verdict))),
     (''policy_version'', JStr (v_policy_version verdict)),
     (''kernel_version'', JStr (v_kernel_version verdict)),
     (''verdict_hash'', JStr (hex_encode (v_verdict_hash verdict))),
     (''submitted_claim_ids'', JArr (map JStr submitted_claim_ids))]"

type_synonym json_reader = "string \<Rightarrow> string + RequestInput"
type_synonym json_writer = "json \<Rightarrow> string + string"

definition err_json :: "json_writer \<Rightarrow> string \<Rightarrow> string" where
  "err_json to_string msg =
     (case to_string (JObj [(''error'', JStr msg)]) of
        Inl _ \<Rightarrow> [CHR ''{'', CHR 0x22] @ ''error'' @ [CHR 0x22, CHR '':'', CHR 0x22] @ ''internal: could not encode error'' @ [CHR 0x22, CHR ''}'']
      | Inr s \<Rightarrow> s)"

text \<open>\<^const>\<open>None\<close> is a trap: a panic inside the kernel.\<close>

definition adjudicate_json :: "json_reader \<Rightarrow> json_writer \<Rightarrow> hash_fun \<Rightarrow> string \<Rightarrow> string option" where
  "adjudicate_json from_str to_string blake3 request_text =
     (case from_str request_text of
        Inl e \<Rightarrow> Some (err_json to_string (''parsing input JSON: '' @ e))
      | Inr request \<Rightarrow>
          (case build_policy (ri_policy request) of
             Inl e \<Rightarrow> Some (err_json to_string (''building policy: '' @ e))
           | Inr policy \<Rightarrow>
               (case build_claims (ri_claims request) of
                  Inl e \<Rightarrow> Some (err_json to_string e)
                | Inr claims \<Rightarrow>
                    map_option (\<lambda>verdict.
                        case to_string (verdict_output verdict (map (\<lambda>c. hex_encode (claim_id blake3 c)) claims)) of
                          Inl e \<Rightarrow> err_json to_string (''serializing output: '' @ e)
                        | Inr s \<Rightarrow> s)
                      (adjudicate blake3 claims policy (ri_kernel_version request)))))"

section \<open>The exported functions\<close>

text \<open>
  \<^verbatim>\<open>RESULT\<close> is the state of the module. \<^verbatim>\<open>std::str::from_utf8\<close> is \<^const>\<open>utf8_decode\<close>, on text with code points below 256.
\<close>

definition wasm_adjudicate ::
  "json_reader \<Rightarrow> json_writer \<Rightarrow> hash_fun \<Rightarrow> bytes \<Rightarrow> bytes \<Rightarrow> (nat \<times> bytes) option" where
  "wasm_adjudicate from_str to_string blake3 request RESULT =
     (case utf8_decode request of
        None \<Rightarrow> Some (0, utf8 (err_json to_string ''request bytes are not valid UTF-8''))
      | Some request_text \<Rightarrow>
          map_option (\<lambda>response. (1, utf8 response)) (adjudicate_json from_str to_string blake3 request_text))"

text \<open>
  What the loader gets out of one call on a fresh module: the buffer when the export returned 1. The buffer is replaced
  on every call, so its previous content does not matter.
\<close>

definition kernel_wasm :: "json_reader \<Rightarrow> json_writer \<Rightarrow> hash_fun \<Rightarrow> kernel_module" where
  "kernel_wasm from_str to_string blake3 request =
     (case wasm_adjudicate from_str to_string blake3 request [] of
        Some (code, result) \<Rightarrow> if code = 1 then Some result else None
      | None \<Rightarrow> None)"

section \<open>The JSON library\<close>

text \<open>
  What the derived readers make of a document. A structure is an object, members it does not name are ignored, or an array
  of its fields in order; a missing \<^verbatim>\<open>Option\<close> member is \<^verbatim>\<open>None\<close>, a missing member marked \<^verbatim>\<open>serde(default)\<close> is empty.
\<close>

definition de_struct :: "string list \<Rightarrow> nat \<Rightarrow> json \<Rightarrow> (string \<rightharpoonup> json) option" where
  "de_struct names defaults j =
     (case j of
        JObj kvs \<Rightarrow> Some (map_of kvs)
      | JArr js \<Rightarrow> if length js \<le> length names \<and> length names \<le> length js + defaults then Some (map_of (zip names js)) else None
      | _ \<Rightarrow> None)"

fun de_i64 :: "json \<Rightarrow> int option" where
  "de_i64 (JNum n) = (if i64 n then Some n else None)"
| "de_i64 _ = None"

definition de_field :: "(string \<rightharpoonup> json) \<Rightarrow> string \<Rightarrow> (json \<Rightarrow> 'a option) \<Rightarrow> 'a option" where
  "de_field m k f = Option.bind (m k) f"

definition de_opt :: "(string \<rightharpoonup> json) \<Rightarrow> string \<Rightarrow> (json \<Rightarrow> 'a option) \<Rightarrow> 'a option option" where
  "de_opt m k f = (case m k of None \<Rightarrow> Some None | Some JNull \<Rightarrow> Some None | Some j \<Rightarrow> map_option Some (f j))"

definition de_default :: "(string \<rightharpoonup> json) \<Rightarrow> string \<Rightarrow> (json \<Rightarrow> 'a list option) \<Rightarrow> 'a list option" where
  "de_default m k f = (case m k of None \<Rightarrow> Some [] | Some j \<Rightarrow> f j)"

definition de_vec :: "(json \<Rightarrow> 'a option) \<Rightarrow> json \<Rightarrow> 'a list option" where
  "de_vec f j = Option.bind (json_list j) (\<lambda>js. those (map f js))"

definition de_btree :: "(json \<Rightarrow> 'a option) \<Rightarrow> json \<Rightarrow> (string \<times> 'a) list option" where
  "de_btree f j =
     (case j of
        JObj kvs \<Rightarrow> map_option (sort_key (\<lambda>kv. utf8 (fst kv))) (those (map (\<lambda>kv. map_option (Pair (fst kv)) (f (snd kv))) kvs))
      | _ \<Rightarrow> None)"

definition claim_input_of :: "json \<Rightarrow> ClaimInput option" where
  "claim_input_of j =
     Option.bind (de_struct [''predicate'', ''subject'', ''object'', ''interval_start_ns'', ''interval_end_ns'', ''evidence'',
       ''extractor_kind'', ''extractor_id'', ''extractor_version'', ''observed_value'', ''polarity'', ''hypothesis_ref''] 0 j) (\<lambda>m.
     Option.bind (de_field m ''predicate'' json_string) (\<lambda>predicate.
     Option.bind (de_field m ''subject'' json_string) (\<lambda>subject.
     Option.bind (de_opt m ''object'' json_string) (\<lambda>obj.
     Option.bind (de_field m ''interval_start_ns'' de_i64) (\<lambda>start.
     Option.bind (de_field m ''interval_end_ns'' de_i64) (\<lambda>stop.
     Option.bind (de_field m ''evidence'' (de_vec json_string)) (\<lambda>evidence.
     Option.bind (de_field m ''extractor_kind'' json_string) (\<lambda>kind.
     Option.bind (de_field m ''extractor_id'' json_string) (\<lambda>eid.
     Option.bind (de_field m ''extractor_version'' json_string) (\<lambda>version.
     Option.bind (de_opt m ''observed_value'' de_i64) (\<lambda>observed.
     Option.bind (de_field m ''polarity'' json_string) (\<lambda>polarity.
     Option.bind (de_opt m ''hypothesis_ref'' json_string) (\<lambda>hypothesis.
     Some \<lparr>ci_predicate = predicate, ci_subject = subject, ci_object = obj, ci_interval_start_ns = start,
       ci_interval_end_ns = stop, ci_evidence = evidence, ci_extractor_kind = kind, ci_extractor_id = eid,
       ci_extractor_version = version, ci_observed_value = observed, ci_polarity = polarity,
       ci_hypothesis_ref = hypothesis\<rparr>)))))))))))))"

definition weight_input_of :: "json \<Rightarrow> PredicateWeightInput option" where
  "weight_input_of j =
     Option.bind (de_struct [''tactic'', ''weight'', ''techniques''] 1 j) (\<lambda>m.
     Option.bind (de_field m ''tactic'' json_string) (\<lambda>tac.
     Option.bind (de_field m ''weight'' de_i64) (\<lambda>weight.
     Option.bind (de_default m ''techniques'' (de_vec json_string)) (\<lambda>techniques.
     Some \<lparr>pwi_tactic = tac, pwi_weight = weight, pwi_techniques = techniques\<rparr>))))"

definition chain_input_of :: "json \<Rightarrow> ChainMultiplierInput option" where
  "chain_input_of j =
     Option.bind (de_struct [''from'', ''to'', ''bonus''] 0 j) (\<lambda>m.
     Option.bind (de_field m ''from'' json_string) (\<lambda>a.
     Option.bind (de_field m ''to'' json_string) (\<lambda>b.
     Option.bind (de_field m ''bonus'' de_i64) (\<lambda>bonus.
     Some \<lparr>cmi_from = a, cmi_to = b, cmi_bonus = bonus\<rparr>))))"

fun threshold_input_of :: "json \<Rightarrow> (int \<times> string) option" where
  "threshold_input_of (JArr [n, s]) = Option.bind (de_i64 n) (\<lambda>n. map_option (Pair n) (json_string s))"
| "threshold_input_of _ = None"

definition policy_input_of :: "json \<Rightarrow> PolicyInput option" where
  "policy_input_of j =
     Option.bind (de_struct [''policy_version'', ''predicate_weights'', ''chain_multipliers'', ''severity_thresholds''] 0 j) (\<lambda>m.
     Option.bind (de_field m ''policy_version'' json_string) (\<lambda>version.
     Option.bind (de_field m ''predicate_weights'' (de_btree weight_input_of)) (\<lambda>weights.
     Option.bind (de_default m ''chain_multipliers'' (de_vec chain_input_of)) (\<lambda>chain.
     Option.bind (de_field m ''severity_thresholds'' (de_vec threshold_input_of)) (\<lambda>thresholds.
     Some \<lparr>pi_policy_version = version, pi_predicate_weights = weights, pi_chain_multipliers = chain,
       pi_severity_thresholds = thresholds\<rparr>)))))"

definition request_input_of :: "json \<Rightarrow> RequestInput option" where
  "request_input_of j =
     Option.bind (de_struct [''kernel_version'', ''policy'', ''claims''] 0 j) (\<lambda>m.
     Option.bind (de_field m ''kernel_version'' json_string) (\<lambda>version.
     Option.bind (de_field m ''policy'' policy_input_of) (\<lambda>policy.
     Option.bind (de_field m ''claims'' (de_vec claim_input_of)) (\<lambda>claims.
     Some \<lparr>ri_kernel_version = version, ri_policy = policy, ri_claims = claims\<rparr>))))"

text \<open>The reader gives up beyond 127 nested arrays and objects.\<close>

fun shallow :: "nat \<Rightarrow> json \<Rightarrow> bool" where
  "shallow n (JArr js) \<longleftrightarrow> 0 < n \<and> list_all (shallow (n - 1)) js"
| "shallow n (JObj kvs) \<longleftrightarrow> 0 < n \<and> list_all (\<lambda>kv. shallow (n - 1) (snd kv)) kvs"
| "shallow n _ = True"

locale serde =
  fixes from_str :: json_reader and to_string :: json_writer
  assumes reads: "plain_json j \<Longrightarrow> shallow 127 j \<Longrightarrow> request_input_of j = Some r \<Longrightarrow> from_str (json_text j) = Inr r"
    and rejects: "plain_json j \<Longrightarrow> shallow 127 j \<Longrightarrow> request_input_of j = None \<Longrightarrow> \<exists>e. from_str (json_text j) = Inl e"
    and writes: "plain_json j \<Longrightarrow> shallow 127 j \<Longrightarrow> to_string j = Inr (json_text j)"

text \<open>A reader and a writer that do so: the parser of \<^verbatim>\<open>Json\<close> with exact integers, and the printer.\<close>

definition exact_from_str :: json_reader where
  "exact_from_str s =
     (case parse_text JNum s of
        None \<Rightarrow> Inl ''expected value''
      | Some j \<Rightarrow> (case request_input_of j of None \<Rightarrow> Inl ''invalid type'' | Some r \<Rightarrow> Inr r))"

definition exact_to_string :: json_writer where
  "exact_to_string j = Inr (json_text j)"

lemma map_nums_JNum [simp]: "map_nums JNum j = j"
  by (induction JNum j rule: map_nums.induct) (auto simp: map_idI)

interpretation exact: serde exact_from_str exact_to_string
  by unfold_locales (simp_all add: exact_from_str_def exact_to_string_def parse_text_json)

section \<open>What the loader gets\<close>

text \<open>The verdict as the console reads it: integers have become doubles.\<close>

definition js_int :: "int \<Rightarrow> int" where
  "js_int n = \<lfloor>fl (of_int n)\<rfloor>"

definition kernel_verdict :: "Verdict \<Rightarrow> string list \<Rightarrow> KernelVerdict" where
  "kernel_verdict v ids = \<lparr>kv_severity = Severity_name (v_severity v), kv_confidence = js_int (v_confidence v),
     kv_disposition = Disposition_name (v_disposition v), kv_attack_techniques = v_attack_techniques v,
     kv_contributing_claims = map (\<lambda>c. \<lparr>ac_claim_id = hex_encode (cc_claim_id c), ac_predicate = cc_predicate c,
       ac_attributed_weight = js_int (cc_attributed_weight c)\<rparr>) (v_contributing_claims v),
     kv_policy_version = v_policy_version v, kv_kernel_version = v_kernel_version v,
     kv_verdict_hash = hex_encode (v_verdict_hash v), kv_submitted_claim_ids = ids\<rparr>"

lemma those_map_all: "(\<And>x. x \<in> set xs \<Longrightarrow> f x = Some (g x)) \<Longrightarrow> those (map f xs) = Some (map g xs)"
  by (induction xs) auto

lemma those_length: "those xs = Some ys \<Longrightarrow> length ys = length xs"
  by (induction xs arbitrary: ys) (auto split: option.splits)

lemma output_wf:
  "plain_json (verdict_output v ids)" "shallow 127 (verdict_output v ids)"
  "plain_json (JObj [(''error'', JStr msg)])" "shallow 127 (JObj [(''error'', JStr msg)])"
  by (simp_all add: verdict_output_def contributing_output_def list_all_iff)

lemma parsed_verdict: "parsed_result (map_nums js_number (verdict_output v ids)) = Inr (KernelOk (kernel_verdict v ids))"
proof -
  let ?f = "\<lambda>c. \<lparr>ac_claim_id = hex_encode (cc_claim_id c), ac_predicate = cc_predicate c,
    ac_attributed_weight = js_int (cc_attributed_weight c)\<rparr>"
  have "contributing_of (map_nums js_number (contributing_output c)) = Some (?f c)" for c
    by (simp add: contributing_of_def contributing_output_def str_field_def int_field_def js_number_def js_int_def)
  then have "those (map (\<lambda>c. contributing_of (map_nums js_number (contributing_output c))) cs) = Some (map ?f cs)" for cs
    by (intro those_map_all) simp
  moreover have "those (map (\<lambda>s. json_string (map_nums js_number (JStr s))) ss) = Some ss" for ss
    by (subst those_map_all [where g = "\<lambda>s. s"]) simp_all
  ultimately show ?thesis
    by (simp add: parsed_result_def verdict_of_def verdict_output_def str_field_def int_field_def list_field_def
        kernel_verdict_def js_number_def js_int_def comp_def)
qed

lemma parsed_error: "parsed_result (map_nums js_number (JObj [(''error'', JStr msg)])) = Inr (KernelError msg)"
  by (simp add: parsed_result_def)

lemma build_policy_total: "build_policy inp = Inr policy \<Longrightarrow> kp_severity_thresholds policy \<noteq> []"
  by (auto simp: build_policy_def policy_new_iff split: sum.splits InvalidPolicyError.splits)

lemma try_map_length: "try_map f xs = Inr ys \<Longrightarrow> length ys = length xs"
  by (induction xs arbitrary: ys) (auto split: sum.splits)

lemma build_claims_length: "build_claims inputs = Inr claims \<Longrightarrow> length claims = length inputs"
  by (auto simp: build_claims_def dest: try_map_length)

text \<open>The outcome of a request, as a value instead of a text.\<close>

definition kernel_outcome :: "hash_fun \<Rightarrow> string + RequestInput \<Rightarrow> KernelResult" where
  "kernel_outcome blake3 parsed =
     (case parsed of
        Inl e \<Rightarrow> KernelError (''parsing input JSON: '' @ e)
      | Inr request \<Rightarrow>
          (case build_policy (ri_policy request) of
             Inl e \<Rightarrow> KernelError (''building policy: '' @ e)
           | Inr policy \<Rightarrow>
               (case build_claims (ri_claims request) of
                  Inl e \<Rightarrow> KernelError e
                | Inr claims \<Rightarrow> KernelOk (kernel_verdict (the (adjudicate blake3 claims policy (ri_kernel_version request)))
                    (map (\<lambda>c. hex_encode (claim_id blake3 c)) claims)))))"

context serde
begin

lemma err_json_text: "err_json to_string msg = json_text (JObj [(''error'', JStr msg)])"
  by (simp only: err_json_def writes [OF output_wf(3,4)] sum.case)

lemma adjudicate_json_eq:
  "\<exists>doc. adjudicate_json from_str to_string blake3 text = Some (json_text doc) \<and> plain_json doc \<and>
     parsed_result (map_nums js_number doc) = Inr (kernel_outcome blake3 (from_str text))"
proof -
  have err: "\<exists>doc. Some (err_json to_string msg) = Some (json_text doc) \<and> plain_json doc \<and>
      parsed_result (map_nums js_number doc) = Inr (KernelError msg)" for msg
    by (intro exI [of _ "JObj [(''error'', JStr msg)]"]) (simp only: err_json_text parsed_error output_wf simp_thms)
  show ?thesis
  proof (cases "from_str text")
    case (Inl e)
    then show ?thesis using err by (simp add: adjudicate_json_def kernel_outcome_def)
  next
    case (Inr request)
    note r = Inr
    show ?thesis
    proof (cases "build_policy (ri_policy request)")
      case (Inl e)
      then show ?thesis using err by (simp add: adjudicate_json_def kernel_outcome_def r)
    next
      case (Inr policy)
      note p = Inr
      show ?thesis
      proof (cases "build_claims (ri_claims request)")
        case (Inl e)
        then show ?thesis using err by (simp add: adjudicate_json_def kernel_outcome_def r p)
      next
        case (Inr claims)
        obtain v where "adjudicate blake3 claims policy (ri_kernel_version request) = Some v"
          using adjudicate_total [OF build_policy_total [OF p]] by blast
        with Inr show ?thesis
          by (intro exI [of _ "verdict_output v (map (\<lambda>c. hex_encode (claim_id blake3 c)) claims)"])
             (simp add: adjudicate_json_def kernel_outcome_def r p writes output_wf parsed_verdict)
      qed
    qed
  qed
qed

lemma run_kernel_wasm:
  "run_kernel (kernel_wasm from_str to_string blake3) r = Inr (kernel_outcome blake3 (from_str (stringify (request_json r))))"
proof -
  obtain doc where doc: "adjudicate_json from_str to_string blake3 (stringify (request_json r)) = Some (json_text doc)"
    "plain_json doc" "parsed_result (map_nums js_number doc) = Inr (kernel_outcome blake3 (from_str (stringify (request_json r))))"
    using adjudicate_json_eq by blast
  have "kernel_wasm from_str to_string blake3 (request_bytes r) = Some (utf8 (json_text doc))"
    by (simp add: kernel_wasm_def wasm_adjudicate_def request_bytes_def doc(1))
  with doc(2,3) show ?thesis by (simp add: run_kernel_def json_parse_def parse_text_json)
qed

end

section \<open>How the console's requests are read\<close>

text \<open>
  The kernel reads the decimals of a request as exact integers: of a timestamp above \<open>2^53\<close> it sees the shortest
  decimal, which need not be the double the console holds.
\<close>

abbreviation fits_i64 :: "int \<Rightarrow> bool" where
  "fits_i64 n \<equiv> i64 (shortest_int n)"

definition claim_input :: "'a RawClaim_scheme \<Rightarrow> ClaimInput" where
  "claim_input c = \<lparr>ci_predicate = lc_predicate c, ci_subject = lc_subject c, ci_object = lc_object c,
     ci_interval_start_ns = shortest_int (lc_interval_start_ns c), ci_interval_end_ns = shortest_int (lc_interval_end_ns c),
     ci_evidence = lc_evidence c, ci_extractor_kind = lc_extractor_kind c, ci_extractor_id = lc_extractor_id c,
     ci_extractor_version = lc_extractor_version c, ci_observed_value = map_option shortest_int (lc_observed_value c),
     ci_polarity = polarity_name (lc_polarity c), ci_hypothesis_ref = lc_hypothesis_ref c\<rparr>"

definition numbers_fit :: "'a RawClaim_scheme \<Rightarrow> bool" where
  "numbers_fit c \<longleftrightarrow> fits_i64 (lc_interval_start_ns c) \<and> fits_i64 (lc_interval_end_ns c) \<and> pred_option fits_i64 (lc_observed_value c)"

definition weight_input :: "PredicateWeight \<Rightarrow> PredicateWeightInput" where
  "weight_input w = \<lparr>pwi_tactic = pw_tactic w, pwi_weight = shortest_int (pw_weight w), pwi_techniques = pw_techniques w\<rparr>"

definition policy_input :: "PolicyBundle \<Rightarrow> PolicyInput" where
  "policy_input p = \<lparr>pi_policy_version = pb_policy_version p,
     pi_predicate_weights = sort_key (\<lambda>kv. utf8 (fst kv)) (map (apsnd weight_input) (pb_predicate_weights p)),
     pi_chain_multipliers = map (\<lambda>m. \<lparr>cmi_from = cm_from m, cmi_to = cm_to m, cmi_bonus = shortest_int (cm_bonus m)\<rparr>) (pb_chain_multipliers p),
     pi_severity_thresholds = map (apfst shortest_int) (pb_severity_thresholds p)\<rparr>"

definition policy_fits :: "PolicyBundle \<Rightarrow> bool" where
  "policy_fits p \<longleftrightarrow> distinct (map fst (pb_predicate_weights p)) \<and>
     list_all (\<lambda>(_, w). fits_i64 (pw_weight w)) (pb_predicate_weights p) \<and>
     list_all (\<lambda>m. fits_i64 (cm_bonus m)) (pb_chain_multipliers p) \<and>
     list_all (\<lambda>(n, _). fits_i64 n) (pb_severity_thresholds p)"

lemma de_vec_strings [simp]: "de_vec json_string (JArr (map (map_nums f) (map JStr ss))) = Some ss"
  by (simp add: de_vec_def comp_def those_map_all [where g = "\<lambda>s. s"])

lemmas de_simps = de_struct_def de_field_def de_opt_def de_default_def

lemma claim_fields_read:
  assumes "numbers_fit c"
  shows "claim_input_of (js_decimals (JObj (claim_fields c @ rest))) = Some (claim_input c)"
proof -
  have "de_vec json_string (JArr (map JStr (lc_evidence c))) = Some (lc_evidence c)"
    by (simp add: de_vec_def comp_def those_map_all [where g = "\<lambda>s. s"])
  moreover have "map_nums f (opt_json JStr x) = opt_json JStr x"
    "js_decimals (opt_json JNum y) = opt_json JNum (map_option shortest_int y)" for f x y
    by (simp_all add: opt_json_def split: option.splits)
  moreover have "(case opt_json JStr x of JNull \<Rightarrow> Some None | j \<Rightarrow> map_option Some (json_string j)) = Some x" for x
    by (cases x) (simp_all add: opt_json_def)
  moreover have "(case opt_json JNum (map_option shortest_int y) of JNull \<Rightarrow> Some None | j \<Rightarrow> map_option Some (de_i64 j)) =
      Some (map_option shortest_int y)" if "pred_option fits_i64 y" for y
    using that by (cases y) (simp_all add: opt_json_def)
  ultimately show ?thesis
    using assms by (simp add: claim_input_of_def claim_fields_def de_simps claim_input_def numbers_fit_def comp_def)
qed

lemma claim_json_read:
  "numbers_fit c \<Longrightarrow> claim_input_of (js_decimals (raw_claim_json c)) = Some (claim_input c)"
  "numbers_fit d \<Longrightarrow> claim_input_of (js_decimals (ledger_claim_json d)) = Some (claim_input d)"
  using claim_fields_read [of c "[]"] claim_fields_read [of d "[(''claim_id'', JStr (lc_claim_id d))]"]
  by (simp_all only: raw_claim_json_def ledger_claim_json_def append_Nil2)

lemma weight_json_read: "fits_i64 (pw_weight w) \<Longrightarrow> weight_input_of (js_decimals (weight_json w)) = Some (weight_input w)"
  by (simp add: weight_input_of_def weight_json_def weight_input_def de_simps de_vec_def comp_def those_map_all [where g = "\<lambda>s. s"])

lemma policy_json_read:
  assumes "policy_fits p"
  shows "policy_input_of (js_decimals (policy_json p)) = Some (policy_input p)"
proof -
  have "those (map (\<lambda>kv. map_option (Pair (fst kv)) (weight_input_of (js_decimals (weight_json (snd kv))))) (pb_predicate_weights p)) =
      Some (map (apsnd weight_input) (pb_predicate_weights p))"
    using assms by (intro those_map_all) (auto simp: policy_fits_def list_all_iff weight_json_read)
  moreover have "those (map (\<lambda>m. chain_input_of (js_decimals (JObj [(''from'', JStr (cm_from m)), (''to'', JStr (cm_to m)),
        (''bonus'', JNum (cm_bonus m))]))) (pb_chain_multipliers p)) = Some (pi_chain_multipliers (policy_input p))"
    unfolding policy_input_def PolicyInput.select_convs using assms
    by (intro those_map_all) (auto simp: policy_fits_def list_all_iff chain_input_of_def de_simps)
  moreover have "those (map (\<lambda>t. threshold_input_of (js_decimals (case t of (n, s) \<Rightarrow> JArr [JNum n, JStr s]))) (pb_severity_thresholds p)) =
      Some (pi_severity_thresholds (policy_input p))"
    unfolding policy_input_def PolicyInput.select_convs using assms
    by (intro those_map_all) (auto simp: policy_fits_def list_all_iff)
  ultimately show ?thesis
    by (simp add: policy_input_of_def policy_json_def de_simps de_btree_def de_vec_def comp_def) (simp add: policy_input_def)
qed

lemma shallow_map_nums: "(\<And>m. f m = JNum (g m)) \<Longrightarrow> shallow n (map_nums f j) = shallow n j"
  by (induction n j rule: shallow.induct) (auto simp: list_all_iff)

text \<open>What every request of the console has: objects with different keys, no deep nesting.\<close>

definition posted :: "KernelRequest \<Rightarrow> bool" where
  "posted r \<longleftrightarrow> plain_json (request_json r) \<and> shallow 127 (request_json r)"

lemma claim_json_plain [simp]:
  "plain_json (raw_claim_json c)" "plain_json (ledger_claim_json d)"
  "shallow 125 (raw_claim_json c)" "shallow 125 (ledger_claim_json d)"
  by (simp_all add: raw_claim_json_def ledger_claim_json_def claim_fields_def opt_json_def list_all_iff split: option.splits)

lemma policy_json_plain:
  "plain_json (policy_json p) \<longleftrightarrow> distinct (map fst (pb_predicate_weights p))" "shallow 126 (policy_json p)"
  by (auto simp: policy_json_def weight_json_def list_all_iff comp_def)

lemma posted_iff:
  assumes "\<And>c. c \<in> set (kr_claims r) \<Longrightarrow> plain_json c \<and> shallow 125 c"
  shows "posted r \<longleftrightarrow> distinct (map fst (pb_predicate_weights (kr_policy r)))"
  using assms policy_json_plain by (simp add: posted_def request_json_def list_all_iff)

lemma console_claims_posted:
  "posted \<lparr>kr_kernel_version = v, kr_policy = p, kr_claims = map raw_claim_json cs\<rparr> \<longleftrightarrow> distinct (map fst (pb_predicate_weights p))"
  "posted \<lparr>kr_kernel_version = v, kr_policy = p, kr_claims = map ledger_claim_json ds\<rparr> \<longleftrightarrow> distinct (map fst (pb_predicate_weights p))"
  by (subst posted_iff; auto)+

lemma posted_decimals: "posted r \<Longrightarrow> plain_json (js_decimals (request_json r)) \<and> shallow 127 (js_decimals (request_json r))"
  unfolding posted_def by (subst shallow_map_nums) (simp_all add: plain_map_nums)

lemma request_input_facts:
  assumes "request_input_of (js_decimals (request_json r)) = Some inp"
  shows "ri_kernel_version inp = kr_kernel_version r" "length (ri_claims inp) = length (kr_claims r)"
  using assms
  by (auto simp: request_input_of_def request_json_def de_simps de_vec_def bind_eq_Some_conv dest!: those_length)

lemma request_json_read:
  assumes "policy_fits p" "\<And>c. c \<in> set cs \<Longrightarrow> claim_input_of (js_decimals (j c)) = Some (claim_input c)"
  shows "request_input_of (js_decimals (request_json \<lparr>kr_kernel_version = v, kr_policy = p, kr_claims = map j cs\<rparr>)) =
    Some \<lparr>ri_kernel_version = v, ri_policy = policy_input p, ri_claims = map claim_input cs\<rparr>"
proof -
  have "those (map (\<lambda>c. claim_input_of (js_decimals (j c))) cs) = Some (map claim_input cs)"
    by (rule those_map_all) (rule assms(2))
  then show ?thesis
    by (simp add: request_input_of_def request_json_def de_simps de_vec_def policy_json_read [OF assms(1)] comp_def)
qed

context serde
begin

lemma reads_posted:
  assumes "posted r" "from_str (stringify (request_json r)) = Inr inp"
  shows "ri_kernel_version inp = kr_kernel_version r" "length (ri_claims inp) = length (kr_claims r)"
proof -
  let ?j = "js_decimals (request_json r)"
  have j: "plain_json ?j" "shallow 127 ?j" using posted_decimals [OF assms(1)] by simp_all
  have "request_input_of ?j = Some inp"
  proof (cases "request_input_of ?j")
    case None
    then show ?thesis using rejects [OF j] assms(2) by (auto simp: stringify_text)
  next
    case (Some inp')
    then show ?thesis using reads [OF j Some] assms(2) by (simp add: stringify_text)
  qed
  from request_input_facts [OF this] show "ri_kernel_version inp = kr_kernel_version r" "length (ri_claims inp) = length (kr_claims r)" .
qed

lemma reads_claims:
  assumes "policy_fits p"
  shows "list_all numbers_fit cs \<Longrightarrow>
      from_str (stringify (request_json \<lparr>kr_kernel_version = v, kr_policy = p, kr_claims = map raw_claim_json cs\<rparr>)) =
        Inr \<lparr>ri_kernel_version = v, ri_policy = policy_input p, ri_claims = map claim_input cs\<rparr>"
    and "list_all numbers_fit ds \<Longrightarrow>
      from_str (stringify (request_json \<lparr>kr_kernel_version = v, kr_policy = p, kr_claims = map ledger_claim_json ds\<rparr>)) =
        Inr \<lparr>ri_kernel_version = v, ri_policy = policy_input p, ri_claims = map claim_input ds\<rparr>"
proof -
  have d: "distinct (map fst (pb_predicate_weights p))" using assms by (simp add: policy_fits_def)
  note raw = posted_decimals [OF console_claims_posted(1) [THEN iffD2, OF d], of v cs]
  note led = posted_decimals [OF console_claims_posted(2) [THEN iffD2, OF d], of v ds]
  show "from_str (stringify (request_json \<lparr>kr_kernel_version = v, kr_policy = p, kr_claims = map raw_claim_json cs\<rparr>)) =
        Inr \<lparr>ri_kernel_version = v, ri_policy = policy_input p, ri_claims = map claim_input cs\<rparr>" if "list_all numbers_fit cs"
    unfolding stringify_text
    by (rule reads [OF raw [THEN conjunct1] raw [THEN conjunct2] request_json_read [OF assms]])
       (use that in \<open>simp add: list_all_iff claim_json_read\<close>)
  show "from_str (stringify (request_json \<lparr>kr_kernel_version = v, kr_policy = p, kr_claims = map ledger_claim_json ds\<rparr>)) =
        Inr \<lparr>ri_kernel_version = v, ri_policy = policy_input p, ri_claims = map claim_input ds\<rparr>" if "list_all numbers_fit ds"
    unfolding stringify_text
    by (rule reads [OF led [THEN conjunct1] led [THEN conjunct2] request_json_read [OF assms]])
       (use that in \<open>simp add: list_all_iff claim_json_read\<close>)
qed

end

section \<open>Decimals of small and of large numbers\<close>

lemma shortest_int_small: "\<bar>n\<bar> < 2 ^ 53 \<Longrightarrow> shortest_int n = n"
proof -
  assume n: "\<bar>n\<bar> < 2 ^ 53"
  have "c = n" if c: "fl (of_int c) = of_int n" for c
  proof (cases "\<bar>c\<bar> \<le> 2 ^ 53")
    case True
    then show ?thesis using c fl_int [of c] by simp
  next
    case False
    then have "fl (of_int (2 ^ 53)) \<le> fl (of_int c) \<or> fl (of_int c) \<le> fl (of_int (- (2 ^ 53)))"
      by (cases "0 \<le> c") (auto intro!: fl_mono simp del: of_int_power of_int_minus)
    then show ?thesis using n c fl_int [of "2 ^ 53"] fl_int [of "- (2 ^ 53)"] by (auto simp del: of_int_power of_int_minus)
  qed
  then show ?thesis by (auto simp: shortest_int_def find_Some_iff split: option.splits)
qed

lemma radix_digits_length: "0 < n \<Longrightarrow> 1 < b \<Longrightarrow> b ^ (length (radix_digits b n) - 1) \<le> n"
proof (induction b n rule: radix_digits.induct)
  case (1 b n)
  show ?case
  proof (cases "n < b")
    case True
    then have "radix_digits b n = [n]" by (subst radix_digits.simps) simp
    with 1 show ?thesis by simp
  next
    case False
    then have e: "radix_digits b n = radix_digits b (n div b) @ [n mod b]" using 1(3) by (subst radix_digits.simps) simp
    have "b ^ (length (radix_digits b (n div b)) - 1) \<le> n div b"
      using False 1 by (intro "1.IH") (auto simp: div_greater_zero_iff)
    then have "b * b ^ (length (radix_digits b (n div b)) - 1) \<le> b * (n div b)" by simp
    also have "\<dots> \<le> n" by (simp add: times_div_less_eq_dividend)
    finally have "b ^ Suc (length (radix_digits b (n div b)) - 1) \<le> n" by (simp only: power_Suc)
    moreover have "Suc (length (radix_digits b (n div b)) - 1) = length (radix_digits b (n div b))"
      by (cases "radix_digits b (n div b)") simp_all
    ultimately show ?thesis by (metis e length_append_singleton diff_Suc_1)
  qed
qed

lemma rne_error: "\<bar>of_int (rne x) - x\<bar> \<le> 1 / 2"
proof -
  have "of_int \<lfloor>x\<rfloor> \<le> x" "x < of_int \<lfloor>x\<rfloor> + 1" by linarith+
  then show ?thesis by (auto simp: rne_def Let_def)
qed

lemma abs_near: "2 * \<bar>x - n\<bar> \<le> p \<Longrightarrow> p \<le> \<bar>n\<bar> \<Longrightarrow> 2 * \<bar>x\<bar> \<le> 3 * \<bar>n\<bar>" for x n p :: int
  by arith

lemma round_digits_bound:
  assumes "n \<noteq> 0" "m < length (radix_digits 10 (nat \<bar>n\<bar>))"
  shows "2 * \<bar>round_digits n m\<bar> \<le> 3 * \<bar>n\<bar>"
proof -
  let ?p = "10 ^ m :: int"
  have "(10 :: nat) ^ m \<le> 10 ^ (length (radix_digits 10 (nat \<bar>n\<bar>)) - 1)" using assms(2) by (intro power_increasing) auto
  also have "\<dots> \<le> nat \<bar>n\<bar>" using assms(1) by (intro radix_digits_length) auto
  finally have "int (10 ^ m) \<le> int (nat \<bar>n\<bar>)" by (simp only: of_nat_le_iff)
  then have p: "?p \<le> \<bar>n\<bar>" by simp
  let ?r = "rne (of_int n / of_int ?p)"
  have "\<bar>of_int ?r - of_int n / (of_int ?p :: rat)\<bar> * of_int ?p \<le> 1 / 2 * of_int ?p"
    by (rule mult_right_mono [OF rne_error]) simp
  then have "\<bar>(of_int ?r - of_int n / (of_int ?p :: rat)) * of_int ?p\<bar> \<le> 1 / 2 * of_int ?p"
    by (simp add: abs_mult)
  then have "2 * \<bar>of_int ?r * of_int ?p - of_int n :: rat\<bar> \<le> of_int ?p" by (simp add: left_diff_distrib)
  then have "of_int (2 * \<bar>?r * ?p - n\<bar>) \<le> (of_int ?p :: rat)" by simp
  then have "2 * \<bar>?r * ?p - n\<bar> \<le> ?p" by (simp only: of_int_le_iff)
  then have "2 * \<bar>?r * ?p\<bar> \<le> 3 * \<bar>n\<bar>" using p by (rule abs_near)
  then show ?thesis by (simp add: round_digits_def Let_def)
qed

lemma fits_i64_bound: "\<bar>n\<bar> \<le> 2 ^ 62 \<Longrightarrow> fits_i64 n"
proof (cases "n = 0")
  case False
  assume n: "\<bar>n\<bar> \<le> 2 ^ 62"
  let ?cs = "map (round_digits n) (rev [0..<length (radix_digits 10 (nat \<bar>n\<bar>))])"
  have "shortest_int n \<in> insert n (set ?cs)"
  proof (cases "find (\<lambda>c. fl (of_int c) = of_int n) ?cs")
    case (Some c)
    then have "c \<in> set ?cs" by (metis find_Some_iff nth_mem)
    with Some show ?thesis by (simp add: shortest_int_def)
  qed (simp add: shortest_int_def)
  then have "2 * \<bar>shortest_int n\<bar> \<le> 3 * \<bar>n\<bar>" using round_digits_bound [OF False] by auto
  with n show ?thesis by (auto simp: i64_def)
qed (simp add: shortest_int_small i64_small)

end
