(* ===== verification/Ledger.thy ===== *)
theory Ledger
  imports Store Kernel_Bridge
begin

text \<open>
  \<^verbatim>\<open>web/src/lib/data/ledger.ts\<close>: the sealed manifests. For each tenant the first cases are investigated
  in turn: claims are drawn, the kernel adjudicates them, the evidence identifiers are committed to
  in a Merkle tree and the manifest is hashed and linked to the previous one of the tenant. One
  link per tenant is broken on purpose.

  Parameters: \<open>blake3\<close>; \<open>k\<close>, the kernel as \<^const>\<open>verifyClaimSetServer\<close> gives it; and
  \<open>clock n\<close>, the value of \<^verbatim>\<open>Date.now()\<close> at the \<open>n\<close>-th manifest. Timestamps in nanoseconds exceed
  \<open>2^53\<close>, so their sums are rounded to doubles (\<open>num_add\<close>, \<open>num_mul\<close>).
\<close>

section \<open>Constants and hashing\<close>

definition KERNEL_VERSION :: string where "KERNEL_VERSION = ''0.0.0-phase11''"
definition ZERO_HASH :: string where "ZERO_HASH = replicate 64 CHR ''0''"
definition MANIFESTS_PER_TENANT :: nat where "MANIFESTS_PER_TENANT = 14"

definition LEDGER_TENANTS :: "string list" where
  "LEDGER_TENANTS = [''tenant-alpha'', ''tenant-beta'', ''tenant-gamma'']"

definition num_add :: "int \<Rightarrow> int \<Rightarrow> int" where
  "num_add a b = \<lfloor>js_add (of_int a) (of_int b)\<rfloor>"

definition num_mul :: "int \<Rightarrow> int \<Rightarrow> int" where
  "num_mul a b = \<lfloor>js_mul (of_int a) (of_int b)\<rfloor>"

definition syntheticHash :: "hash_fun \<Rightarrow> json \<Rightarrow> string" where
  "syntheticHash blake3 value = bytesToHex (blake3 (utf8 (stringify value)))"

text \<open>\<^verbatim>\<open>s.toLowerCase()\<close> on ASCII text.\<close>

definition lower_char :: "char \<Rightarrow> char" where
  "lower_char c = (if CHR ''A'' \<le> c \<and> c \<le> CHR ''Z'' then char_of (of_char c + (32 :: nat)) else c)"

definition to_lower :: "string \<Rightarrow> string" where
  "to_lower s = map lower_char s"

definition rand_lift :: "'a result \<Rightarrow> 'a rand" where
  "rand_lift r = (\<lambda>s. (r, s))"

section \<open>Drawing claims\<close>

definition evidence_draw :: "string rand" where
  "evidence_draw = rand_bind (hex_digits_draw 16) (\<lambda>h. rand_return (''blake3:'' @ h))"

definition claim_draw :: "string \<Rightarrow> int \<Rightarrow> Tactic \<Rightarrow> RawClaim rand" where
  "claim_draw entity cursorNs tac =
     rand_bind (picked (rng_pick (case map_of PREDICATES_BY_TACTIC tac of Some ps \<Rightarrow> ps | None \<Rightarrow> []))) (\<lambda>predicate.
     rand_bind (rng_int 1 600) (\<lambda>gap.
     rand_bind (rng_int 1 3) (\<lambda>evidenceCount.
     rand_bind (rand_replicate (nat evidenceCount) evidence_draw) (\<lambda>evidence.
     rand_bind (rng_bool (fl (4 / 10))) (\<lambda>hasObject.
     rand_bind (if hasObject
                then rand_bind (picked (rng_pick [''powershell.exe'', ''cmd.exe'', ''bash'', ''203.0.113.7''])) (\<lambda>ob. rand_return (Some ob))
                else rand_return None) (\<lambda>obj.
     rand_bind (rng_int 1 5000000000) (\<lambda>span.
     rand_bind (rng_bool (fl (6 / 10))) (\<lambda>hasValue.
     rand_bind (if hasValue then rand_bind (rng_int 1 200) (\<lambda>n. rand_return (Some n)) else rand_return None) (\<lambda>observed.
     rand_bind (rng_bool (fl (92 / 100))) (\<lambda>supports.
     (let cursor = num_add cursorNs (gap * 1000000000)
      in rand_return \<lparr>
        lc_predicate = predicate,
        lc_subject = entity,
        lc_object = obj,
        lc_interval_start_ns = cursor,
        lc_interval_end_ns = num_add cursor span,
        lc_evidence = evidence,
        lc_extractor_kind = ''rule'',
        lc_extractor_id = ''cdl.'' @ tactic_name tac @ ''.'' @ to_lower predicate,
        lc_extractor_version = ''1'',
        lc_observed_value = observed,
        lc_polarity = (if supports then Supports else Refutes),
        lc_hypothesis_ref = None\<rparr>)))))))))))"

text \<open>\<^verbatim>\<open>cursorNs\<close> moves on by the gap of each claim: its value is the start of the claim just drawn.\<close>

fun claims_loop :: "string \<Rightarrow> int \<Rightarrow> Tactic list \<Rightarrow> RawClaim list rand" where
  "claims_loop entity cursorNs [] = rand_return []"
| "claims_loop entity cursorNs (tac # tacs) =
     rand_bind (claim_draw entity cursorNs tac) (\<lambda>c.
     rand_bind (claims_loop entity (lc_interval_start_ns c) tacs) (\<lambda>cs.
     rand_return (c # cs)))"

definition generateClaims :: "string \<Rightarrow> int \<Rightarrow> RawClaim list rand" where
  "generateClaims entity baseNs =
     rand_bind (rng_int 2 4) (\<lambda>n.
     rand_bind (pickedN (rng_pickN (map fst PREDICATES_BY_TACTIC) (nat n))) (\<lambda>tacs.
     claims_loop entity baseNs tacs))"

section \<open>Sealing a manifest\<close>

record LedgerCaseData =
  ld_investigationId :: string
  ld_caseId :: string
  ld_claims :: "LedgerClaim list"
  ld_merkleRoot :: string
  ld_merkleTree :: MerkleTree
  ld_evidenceIds :: "string list"

record LedgerData =
  lg_manifests :: "SealedManifest list"
  lg_caseData :: "(string \<times> LedgerCaseData) list"
  lg_policy :: PolicyBundle

definition with_claim_id :: "RawClaim \<Rightarrow> string \<Rightarrow> LedgerClaim" where
  "with_claim_id c i = RawClaim.extend c (LedgerClaim.fields i)"

text \<open>\<^verbatim>\<open>claimsRaw.map((c, i) => ({ ...c, claim_id: verdict.submitted_claim_ids[i] }))\<close>\<close>

definition with_claim_ids :: "RawClaim list \<Rightarrow> string list \<Rightarrow> LedgerClaim list" where
  "with_claim_ids cs ids = map2 with_claim_id cs ids"

definition attach_claim_ids :: "RawClaim list \<Rightarrow> string list \<Rightarrow> LedgerClaim list result" where
  "attach_claim_ids cs ids =
     (if length cs \<le> length ids then Inr (with_claim_ids cs ids) else Inl PickUndefined)"

definition evidence_set :: "('a RawClaim_scheme) list \<Rightarrow> string list" where
  "evidence_set claims = js_unique (concat (map lc_evidence claims))"

definition manifest_json :: "Manifest \<Rightarrow> json" where
  "manifest_json m = JObj
    [(''investigation_id'', JStr (m_investigation_id m)),
     (''tenant_id'', JStr (m_tenant_id m)),
     (''case_id'', JStr (m_case_id m)),
     (''epoch_root'', JStr (m_epoch_root m)),
     (''epoch_id'', JNum (m_epoch_id m)),
     (''index_snapshot_hash'', JStr (m_index_snapshot_hash m)),
     (''claim_set_hash'', JStr (m_claim_set_hash m)),
     (''claim_ids'', JArr (map JStr (m_claim_ids m))),
     (''inference'', JObj
        [(''provider'', JStr (inf_provider (m_inference m))),
         (''model_id'', JStr (inf_model_id (m_inference m))),
         (''weights_digest'', JStr (inf_weights_digest (m_inference m))),
         (''seed'', opt_json JNum (inf_seed (m_inference m)))]),
     (''policy_version'', JStr (m_policy_version m)),
     (''kernel_version'', JStr (m_kernel_version m)),
     (''attack_model_version'', JStr (m_attack_model_version m)),
     (''verdict_severity'', JStr (m_verdict_severity m)),
     (''verdict_confidence'', JNum (m_verdict_confidence m)),
     (''verdict_disposition'', JStr (m_verdict_disposition m)),
     (''verdict_hash'', JStr (m_verdict_hash m)),
     (''budget_consumed'', JObj [(''tool_calls'', JNum (m_budget_tool_calls m)), (''turns'', JNum (m_budget_turns m))]),
     (''started_at_ns'', JNum (m_started_at_ns m)),
     (''completed_at_ns'', JNum (m_completed_at_ns m)),
     (''prev_manifest_hash'', JStr (m_prev_manifest_hash m))]"

definition broken_link :: "hash_fun \<Rightarrow> string \<Rightarrow> string" where
  "broken_link blake3 investigationId = syntheticHash blake3 (JObj [(''broken'', JStr investigationId)])"

definition seal :: "hash_fun \<Rightarrow> Manifest \<Rightarrow> bool \<Rightarrow> SealedManifest" where
  "seal blake3 manifest makeBroken =
     (let manifest_hash = syntheticHash blake3 (manifest_json manifest)
      in \<lparr>sm_manifest = manifest,
          sm_manifest_hash = manifest_hash,
          sm_signature = take 96 (syntheticHash blake3 (JObj [(''sig'', JStr manifest_hash)])),
          sm_public_key = take 64 (syntheticHash blake3 (JObj [(''pub'', JStr (m_tenant_id manifest))])),
          sm_chainBroken = makeBroken\<rparr>)"

type_synonym kernel_call = "KernelRequest \<Rightarrow> KernelResult result"

definition adjudicated :: "kernel_call \<Rightarrow> RawClaim list \<Rightarrow> KernelVerdict result" where
  "adjudicated k claimsRaw =
     (case k \<lparr>kr_kernel_version = KERNEL_VERSION, kr_policy = buildSyntheticPolicy,
              kr_claims = map raw_claim_json claimsRaw\<rparr> of
        Inl e \<Rightarrow> Inl e
      | Inr (KernelError e) \<Rightarrow>
          Inl (Thrown (''ledger.ts: synthetic claim set was rejected by the real kernel: '' @ e))
      | Inr (KernelOk v) \<Rightarrow> Inr v)"

text \<open>The policy argument of \<^verbatim>\<open>buildManifest\<close> is \<^const>\<open>buildSyntheticPolicy\<close> at its only call.\<close>

definition buildManifest ::
  "hash_fun \<Rightarrow> kernel_call \<Rightarrow> int \<Rightarrow> string \<Rightarrow> string \<Rightarrow> string \<Rightarrow> string \<Rightarrow> bool \<Rightarrow>
   (SealedManifest \<times> LedgerCaseData) rand" where
  "buildManifest blake3 k nowMs tenantId caseId entity prevManifestHash makeBroken =
     rand_bind (hex_digits_draw 6) (\<lambda>suffix.
     rand_bind (rng_int 0 30) (\<lambda>days.
     (let investigationId = ''inv-'' @ caseId @ ''-'' @ suffix;
          baseNs = num_add (num_mul nowMs 1000000) (- (days * 86400 * 1000000000))
      in rand_bind (generateClaims entity baseNs) (\<lambda>claimsRaw.
         rand_bind (rand_lift (adjudicated k claimsRaw)) (\<lambda>verdict.
         rand_bind (rand_lift (attach_claim_ids claimsRaw (kv_submitted_claim_ids verdict))) (\<lambda>claims.
         (let evidenceIds = sort (evidence_set claims)
          in rand_bind (rand_lift (buildMerkleTree blake3 evidenceIds)) (\<lambda>merkleTree.
             rand_bind (rng_int 5 45) (\<lambda>secs.
             rand_bind (rng_int 1 400) (\<lambda>epochId.
             rand_bind (picked (rng_pick [''vllm'', ''anthropic'', ''ollama''])) (\<lambda>provider.
             rand_bind (picked (rng_pick [''qwen2.5-32b-instruct'', ''mistral-small-2506'', ''phi-4''])) (\<lambda>model.
             rand_bind (rng_int 1 (2 ^ 31 - 1)) (\<lambda>seed.
             rand_bind (rng_int 3 22) (\<lambda>toolCalls.
             rand_bind (rng_int 1 8) (\<lambda>turns.
             rand_return
               (seal blake3 \<lparr>
                  m_investigation_id = investigationId,
                  m_tenant_id = tenantId,
                  m_case_id = caseId,
                  m_epoch_root = mt_root merkleTree,
                  m_epoch_id = epochId,
                  m_index_snapshot_hash = syntheticHash blake3
                    (JObj [(''investigationId'', JStr investigationId), (''snapshot'', JStr ''index'')]),
                  m_claim_set_hash = syntheticHash blake3 (JArr (map JStr (sort (map lc_claim_id claims)))),
                  m_claim_ids = kv_submitted_claim_ids verdict,
                  m_inference = \<lparr>inf_provider = provider, inf_model_id = model,
                    inf_weights_digest = take 32 (syntheticHash blake3
                      (JObj [(''investigationId'', JStr investigationId), (''part'', JStr ''weights'')])),
                    inf_seed = Some seed\<rparr>,
                  m_policy_version = kv_policy_version verdict,
                  m_kernel_version = kv_kernel_version verdict,
                  m_attack_model_version = ''attack.v16.1'',
                  m_verdict_severity = kv_severity verdict,
                  m_verdict_confidence = kv_confidence verdict,
                  m_verdict_disposition = kv_disposition verdict,
                  m_verdict_hash = kv_verdict_hash verdict,
                  m_budget_tool_calls = toolCalls,
                  m_budget_turns = turns,
                  m_started_at_ns = baseNs,
                  m_completed_at_ns = num_add baseNs (secs * 1000000000),
                  m_prev_manifest_hash =
                    (if makeBroken then broken_link blake3 investigationId else prevManifestHash)\<rparr> makeBroken,
                \<lparr>ld_investigationId = investigationId, ld_caseId = caseId, ld_claims = claims,
                 ld_merkleRoot = mt_root merkleTree, ld_merkleTree = merkleTree,
                 ld_evidenceIds = evidenceIds\<rparr>))))))))))))))))"

section \<open>The ledger\<close>

definition make_broken :: "nat \<Rightarrow> nat \<Rightarrow> bool" where
  "make_broken i n \<longleftrightarrow> i = n div 2 \<and> 3 < n"

text \<open>The inner loop: \<open>i\<close> counts the cases of the tenant, \<open>j\<close> all manifests.\<close>

fun tenant_loop ::
  "hash_fun \<Rightarrow> kernel_call \<Rightarrow> (nat \<Rightarrow> int) \<Rightarrow> string \<Rightarrow> nat \<Rightarrow> nat \<Rightarrow> nat \<Rightarrow> string \<Rightarrow> Case list \<Rightarrow>
   (SealedManifest \<times> LedgerCaseData) list rand" where
  "tenant_loop blake3 k clock tenantId n i j prevHash [] = rand_return []"
| "tenant_loop blake3 k clock tenantId n i j prevHash (c # cs) =
     rand_bind (buildManifest blake3 k (clock j) tenantId (c_id c) (c_primaryEntity c) prevHash (make_broken i n)) (\<lambda>x.
     rand_bind (tenant_loop blake3 k clock tenantId n (Suc i) (Suc j) (sm_manifest_hash (fst x)) cs) (\<lambda>xs.
     rand_return (x # xs)))"

definition tenant_cases :: "string \<Rightarrow> Case list \<Rightarrow> Case list" where
  "tenant_cases tenantId cases = take MANIFESTS_PER_TENANT (filter (\<lambda>c. c_tenantId c = tenantId) cases)"

fun tenants_loop ::
  "hash_fun \<Rightarrow> kernel_call \<Rightarrow> (nat \<Rightarrow> int) \<Rightarrow> Case list \<Rightarrow> nat \<Rightarrow> string list \<Rightarrow>
   (SealedManifest \<times> LedgerCaseData) list list rand" where
  "tenants_loop blake3 k clock cases j [] = rand_return []"
| "tenants_loop blake3 k clock cases j (tenantId # tenants) =
     (let tenantCases = tenant_cases tenantId cases
      in rand_bind (tenant_loop blake3 k clock tenantId (length tenantCases) 0 j ZERO_HASH tenantCases) (\<lambda>xs.
         rand_bind (tenants_loop blake3 k clock cases (j + length tenantCases) tenants) (\<lambda>xss.
         rand_return (xs # xss))))"

definition ledger_of :: "(SealedManifest \<times> LedgerCaseData) list list \<Rightarrow> LedgerData" where
  "ledger_of xss = \<lparr>
     lg_manifests = sort_key (\<lambda>sm. - m_completed_at_ns (sm_manifest sm)) (map fst (concat xss)),
     lg_caseData = js_map_of (map (\<lambda>x. (ld_investigationId (snd x), snd x)) (concat xss)),
     lg_policy = buildSyntheticPolicy\<rparr>"

definition buildLedger :: "hash_fun \<Rightarrow> kernel_call \<Rightarrow> (nat \<Rightarrow> int) \<Rightarrow> Store \<Rightarrow> LedgerData result" where
  "buildLedger blake3 k clock store =
     (case those (listCases store) of
        None \<Rightarrow> Inl TypeError
      | Some cases \<Rightarrow>
          (case fst (tenants_loop blake3 k clock cases 0 LEDGER_TENANTS (rng_new 0x1edce4)) of
             Inl e \<Rightarrow> Inl e
           | Inr xss \<Rightarrow> Inr (ledger_of xss)))"

text \<open>The promise is kept on \<^verbatim>\<open>globalThis\<close>, a rejected one too.\<close>

definition getLedgerData ::
  "hash_fun \<Rightarrow> kernel_call \<Rightarrow> (nat \<Rightarrow> int) \<Rightarrow> Store \<Rightarrow> LedgerData result option \<Rightarrow>
   LedgerData result \<times> LedgerData result option" where
  "getLedgerData blake3 k clock store global =
     (case global of
        Some p \<Rightarrow> (p, global)
      | None \<Rightarrow> (let p = buildLedger blake3 k clock store in (p, Some p)))"

definition proveEvidenceInclusion :: "LedgerData \<Rightarrow> string \<Rightarrow> string \<Rightarrow> InclusionProof option result" where
  "proveEvidenceInclusion ledger investigationId evidenceId =
     (case map_of (lg_caseData ledger) investigationId of
        None \<Rightarrow> Inr None
      | Some c \<Rightarrow> prove_listed (ld_merkleTree c) (ld_evidenceIds c) evidenceId)"

section \<open>What a sealed entry guarantees\<close>

definition sealable :: "RawClaim \<Rightarrow> bool" where
  "sealable c \<longleftrightarrow> lc_evidence c \<noteq> [] \<and> lc_predicate c \<in> set (map fst policy_weights) \<and> numbers_fit c"

text \<open>
  The behaviour of the kernel the ledger relies on: a non-empty set of claims, each with evidence,
  a predicate the policy prices and timestamps that fit into 64 bits, is adjudicated, and the verdict
  lists one identifier per claim. \<^verbatim>\<open>Kernel_Contract\<close> proves it of the module in \<^verbatim>\<open>kernel/wasm_bridge\<close>.
\<close>

definition kernel_accepts :: "kernel_call \<Rightarrow> bool" where
  "kernel_accepts k \<longleftrightarrow> (\<forall>cs. cs \<noteq> [] \<and> list_all sealable cs \<longrightarrow>
     (\<exists>v. adjudicated k cs = Inr v \<and> length (kv_submitted_claim_ids v) = length cs))"

text \<open>
  The clock, in milliseconds, stays within a range whose nanoseconds fit: until the year 2096.
\<close>

definition clock_ok :: "(nat \<Rightarrow> int) \<Rightarrow> bool" where
  "clock_ok clock \<longleftrightarrow> (\<forall>n. \<bar>clock n\<bar> \<le> 4 * 10 ^ 12)"

definition sealed_entry ::
  "hash_fun \<Rightarrow> kernel_call \<Rightarrow> string \<Rightarrow> string \<Rightarrow> string \<Rightarrow> bool \<Rightarrow> SealedManifest \<times> LedgerCaseData \<Rightarrow> bool" where
  "sealed_entry blake3 k tenantId caseId prevHash broken x =
     (let sealed = fst x; m = sm_manifest sealed; d = snd x
      in m_tenant_id m = tenantId \<and> m_case_id m = caseId \<and> m_investigation_id m = ld_investigationId d \<and>
         sm_manifest_hash sealed = syntheticHash blake3 (manifest_json m) \<and>
         sm_chainBroken sealed = broken \<and>
         m_prev_manifest_hash m = (if broken then broken_link blake3 (m_investigation_id m) else prevHash) \<and>
         ld_claims d \<noteq> [] \<and> length (ld_claims d) \<le> 12 \<and> list_all sealable (map RawClaim.truncate (ld_claims d)) \<and> ld_evidenceIds d = sort (evidence_set (ld_claims d)) \<and>
         buildMerkleTree blake3 (ld_evidenceIds d) = Inr (ld_merkleTree d) \<and>
         m_epoch_root m = mt_root (ld_merkleTree d) \<and>
         (\<exists>v. adjudicated k (map RawClaim.truncate (ld_claims d)) = Inr v \<and>
            m_verdict_hash m = kv_verdict_hash v \<and> m_kernel_version m = kv_kernel_version v \<and> m_verdict_severity m = kv_severity v \<and>
            m_verdict_confidence m = kv_confidence v \<and> m_verdict_disposition m = kv_disposition v \<and>
            m_claim_ids m = kv_submitted_claim_ids v \<and> m_claim_ids m = map lc_claim_id (ld_claims d)))"

lemma rand_spec_lift: "r = Inr a \<Longrightarrow> P a \<Longrightarrow> rand_spec (rand_lift r) P"
  by (simp add: rand_spec_def rand_lift_def)

lemma rand_spec_replicate_wp:
  "(\<And>xs. length xs = n \<Longrightarrow> P xs) \<Longrightarrow> rand_spec m (\<lambda>_. True) \<Longrightarrow> rand_spec (rand_replicate n m) P"
  by (rule rand_spec_conseq [OF rand_spec_replicate]) auto

lemma evidence_draw_spec: "rand_spec evidence_draw (\<lambda>_. True)"
  unfolding evidence_draw_def by (intro rand_rules) simp

lemma predicate_priced:
  "map_of PREDICATES_BY_TACTIC tac = Some ps \<Longrightarrow> p \<in> set ps \<Longrightarrow> p \<in> set (map fst policy_weights)"
proof -
  assume "map_of PREDICATES_BY_TACTIC tac = Some ps" "p \<in> set ps"
  then have "map_of policy_weights p = Some (weight_entry tac p)"
    using policy_weights_entry by (fastforce simp: list_all_iff dest: map_of_SomeD)
  then show ?thesis by (force dest: map_of_SomeD)
qed

text \<open>
  Sums of timestamps keep to multiples of \<open>2^40\<close>, which doubles represent, so the rounding cannot carry them further.
\<close>

definition near :: "int \<Rightarrow> int \<Rightarrow> bool" where
  "near k n \<longleftrightarrow> \<bar>n\<bar> \<le> (4194304 - k) * 1099511627776"

lemma near_round:
  assumes "0 \<le> k" "\<bar>a\<bar> \<le> (4194304 - k) * 1099511627776"
  shows "near k \<lfloor>fl (of_int a)\<rfloor>"
proof -
  let ?m = "4194304 - k"
  have k: "0 \<le> ?m" using assms(2) by (smt (verit) abs_ge_zero mult_neg_pos)
  have m: "fl (of_int (?m * 1099511627776)) = of_int (?m * 1099511627776)"
    "fl (of_int (- ?m * 1099511627776)) = of_int (- ?m * 1099511627776)"
    using fl_dyadic [of ?m 40] fl_dyadic [of "- ?m" 40] assms(1) k by (simp_all add: pow2_def)
  have "fl (of_int a) \<le> fl (of_int (?m * 1099511627776))" "fl (of_int (- ?m * 1099511627776)) \<le> fl (of_int a)"
    using assms(2) by (intro fl_mono; simp only: of_int_le_iff; linarith)+
  then have "\<lfloor>fl (of_int a)\<rfloor> \<le> ?m * 1099511627776" "- ?m * 1099511627776 \<le> \<lfloor>fl (of_int a)\<rfloor>"
    unfolding m by (simp_all only: floor_le_iff le_floor_iff)
  then show ?thesis by (simp add: near_def abs_le_iff)
qed

lemma near_add: "near (k + 1) a \<Longrightarrow> 0 \<le> k \<Longrightarrow> \<bar>b\<bar> \<le> 1099511627776 \<Longrightarrow> near k (num_add a b)"
  unfolding num_add_def js_add_def of_int_add [symmetric]
  by (rule near_round) (auto simp: near_def left_diff_distrib)

lemma near_fits: "near k n \<Longrightarrow> 0 \<le> k \<Longrightarrow> fits_i64 n"
  by (rule fits_i64_bound) (auto simp: near_def left_diff_distrib)

lemma near_base:
  assumes "\<bar>now\<bar> \<le> 4 * 10 ^ 12" "0 \<le> days" "days \<le> 31"
  shows "near 20 (num_add (num_mul now 1000000) (- (days * 86400 * 1000000000)))"
proof -
  let ?a = "num_mul now 1000000"
  have "near 500000 ?a"
    unfolding num_mul_def js_mul_def of_int_mult [symmetric] by (rule near_round) (use assms in auto)
  then show ?thesis
    unfolding num_add_def js_add_def of_int_add [symmetric]
    by (intro near_round) (use assms in \<open>auto simp: near_def\<close>)
qed

lemma claim_draw_spec:
  assumes "near (k + 2) cursor" "0 \<le> k"
  shows "rand_spec (claim_draw entity cursor tac) (\<lambda>c. sealable c \<and> near (k + 1) (lc_interval_start_ns c))"
proof -
  obtain ps where ps: "map_of PREDICATES_BY_TACTIC tac = Some ps" "ps \<noteq> []" "length ps \<le> 2"
    by (rule PREDICATES_BY_TACTIC_total)
  have start: "near (k + 1) (num_add cursor (gap * 1000000000))" if "1 \<le> gap" "gap \<le> 601" for gap
    using assms that by (intro near_add) (simp_all add: add.assoc)
  have stop: "near k (num_add (num_add cursor (gap * 1000000000)) sp)" if "1 \<le> gap" "gap \<le> 601" "1 \<le> sp" "sp \<le> 5000000001" for gap sp
    using that by (intro near_add [OF start [OF that(1,2)] assms(2)]) simp
  have obs: "fits_i64 n" if "1 \<le> n" "n \<le> 201" for n
    by (rule fits_i64_bound) (use that in auto)
  show ?thesis
    unfolding claim_draw_def ps option.case Let_def
    using ps predicate_priced [OF ps(1)]
    by (intro rand_rules rand_spec_replicate_wp evidence_draw_spec)
       (auto simp: sealable_def numbers_fit_def start obs near_fits [OF start] near_fits [OF stop] assms(2))
qed

lemma claims_loop_spec:
  assumes "near (int (length tacs) + 1) cursor"
  shows "rand_spec (claims_loop entity cursor tacs) (\<lambda>cs. length cs = length tacs \<and> list_all sealable cs)"
  using assms
proof (induction tacs arbitrary: cursor)
  case Nil
  show ?case by (auto intro: rand_rules)
next
  case (Cons t ts)
  have draw: "rand_spec (claim_draw entity cursor t) (\<lambda>c. sealable c \<and> near (int (length ts) + 1) (lc_interval_start_ns c))"
    using Cons.prems by (intro claim_draw_spec) (simp_all add: algebra_simps)
  show ?case unfolding claims_loop.simps
    by (intro rand_rules draw [THEN rand_spec_conseq] Cons.IH [THEN rand_spec_conseq]) auto
qed

lemma near_mono: "near j n \<Longrightarrow> i \<le> j \<Longrightarrow> near i n"
  unfolding near_def by (erule order_trans) simp

lemma generateClaims_spec:
  assumes "near 20 baseNs"
  shows "rand_spec (generateClaims entity baseNs) (\<lambda>cs. cs \<noteq> [] \<and> length cs \<le> 12 \<and> list_all sealable cs)"
  unfolding generateClaims_def
  by (intro rand_rules claims_loop_spec [THEN rand_spec_conseq] near_mono [OF assms])
     (auto simp: PREDICATES_BY_TACTIC_def)

lemma truncate_with_claim_id [simp]: "RawClaim.truncate (with_claim_id c i) = c" "lc_claim_id (with_claim_id c i) = i"
  "lc_evidence (with_claim_id c i) = lc_evidence c"
  by (simp_all add: with_claim_id_def RawClaim.defs LedgerClaim.defs)

lemma with_claim_ids_facts:
  assumes "length is = length cs"
  shows "map RawClaim.truncate (with_claim_ids cs is) = cs" "map lc_claim_id (with_claim_ids cs is) = is"
    "map lc_evidence (with_claim_ids cs is) = map lc_evidence cs" "length (with_claim_ids cs is) = length cs"
  using assms by (induction "is" cs rule: list_induct2) (simp_all add: with_claim_ids_def)

lemma evidence_set_nonempty:
  assumes "length is = length cs" "cs \<noteq> []" "list_all sealable cs"
  shows "evidence_set (with_claim_ids cs is) \<noteq> []"
  using assms by (cases cs) (auto simp: evidence_set_def with_claim_ids_facts sealable_def)

lemma buildManifest_spec:
  assumes k: "kernel_accepts k" and now: "\<bar>now\<bar> \<le> 4 * 10 ^ 12"
  shows "rand_spec (buildManifest blake3 k now tenantId caseId entity prev broken)
    (sealed_entry blake3 k tenantId caseId prev broken)"
proof -
  have seal: "rand_spec (rand_lift (adjudicated k cs)) Q"
    if cs: "cs \<noteq> [] \<and> list_all sealable cs"
      and Q: "\<And>v. adjudicated k cs = Inr v \<Longrightarrow> length (kv_submitted_claim_ids v) = length cs \<Longrightarrow> Q v" for cs Q
  proof -
    obtain v where v: "adjudicated k cs = Inr v" "length (kv_submitted_claim_ids v) = length cs"
      using k [unfolded kernel_accepts_def, rule_format, OF cs] by auto
    show ?thesis using v(1) Q [OF v] by (rule rand_spec_lift)
  qed
  have attach: "rand_spec (rand_lift (attach_claim_ids cs is)) Q"
    if "length is = length cs" "Q (with_claim_ids cs is)" for cs "is" Q
    using that by (intro rand_spec_lift) (simp_all add: attach_claim_ids_def)
  have tree: "rand_spec (rand_lift (buildMerkleTree blake3 ids)) Q"
    if "ids \<noteq> []" "\<And>t. buildMerkleTree blake3 ids = Inr t \<Longrightarrow> Q t" for ids Q
    using that by (auto simp: buildMerkleTree_def Let_def intro!: rand_spec_lift)
  show ?thesis
    unfolding buildManifest_def Let_def
    by (intro rand_rules generateClaims_spec [THEN rand_spec_conseq] near_base [OF now] seal attach tree)
       (auto simp: sealed_entry_def seal_def Let_def with_claim_ids_facts evidence_set_nonempty dest!: arg_cong [where f = length])
qed

text \<open>The manifests of one tenant, oldest first: each is sealed and linked to the one before.\<close>

fun chained :: "hash_fun \<Rightarrow> kernel_call \<Rightarrow> string \<Rightarrow> nat \<Rightarrow> nat \<Rightarrow> string \<Rightarrow> Case list \<Rightarrow>
    (SealedManifest \<times> LedgerCaseData) list \<Rightarrow> bool" where
  "chained blake3 k tenantId n i prev [] [] = True"
| "chained blake3 k tenantId n i prev (c # cs) (x # xs) \<longleftrightarrow>
     sealed_entry blake3 k tenantId (c_id c) prev (make_broken i n) x \<and>
     chained blake3 k tenantId n (Suc i) (sm_manifest_hash (fst x)) cs xs"
| "chained blake3 k tenantId n i prev _ _ = False"

lemma tenant_loop_spec:
  assumes "kernel_accepts k" "clock_ok clock"
  shows "rand_spec (tenant_loop blake3 k clock tenantId n i j prev cs) (chained blake3 k tenantId n i prev cs)"
proof (induction cs arbitrary: i j prev)
  case Nil
  show ?case by (auto intro: rand_rules)
next
  case (Cons c cs)
  show ?case unfolding tenant_loop.simps
    using assms(2)
    by (intro rand_rules buildManifest_spec [OF assms(1), THEN rand_spec_conseq] Cons.IH [THEN rand_spec_conseq]) (simp_all add: clock_ok_def)
qed

definition tenant_chain :: "hash_fun \<Rightarrow> kernel_call \<Rightarrow> Case list \<Rightarrow> string \<Rightarrow> (SealedManifest \<times> LedgerCaseData) list \<Rightarrow> bool" where
  "tenant_chain blake3 k cases tenantId xs =
     chained blake3 k tenantId (length (tenant_cases tenantId cases)) 0 ZERO_HASH (tenant_cases tenantId cases) xs"

lemma tenants_loop_spec:
  assumes "kernel_accepts k" "clock_ok clock"
  shows "rand_spec (tenants_loop blake3 k clock cases j tenants) (list_all2 (tenant_chain blake3 k cases) tenants)"
proof (induction tenants arbitrary: j)
  case Nil
  show ?case by (auto intro: rand_rules)
next
  case (Cons t ts)
  show ?case unfolding tenants_loop.simps Let_def
    by (intro rand_rules tenant_loop_spec [OF assms, THEN rand_spec_conseq] Cons.IH [THEN rand_spec_conseq])
       (simp add: tenant_chain_def)
qed

lemma buildLedger_cases:
  assumes "kernel_accepts k" "store_inv store" "clock_ok clock"
  obtains (fail) "buildLedger blake3 k clock store = Inl PickUndefined"
    | (ok) cases xss where "listCases store = map Some cases" "buildLedger blake3 k clock store = Inr (ledger_of xss)"
      "list_all2 (tenant_chain blake3 k cases) LEDGER_TENANTS xss"
proof -
  obtain cs where cs: "listCases store = map Some cs"
    using server.listing_total [OF store_inv_good [OF assms(2)]] by (auto simp: listCases_listing)
  then have those: "those (listCases store) = Some cs" by simp
  let ?m = "tenants_loop blake3 k clock cs 0 LEDGER_TENANTS"
  note spec = tenants_loop_spec [OF assms(1,3), of blake3 cs 0 LEDGER_TENANTS]
  obtain r s' where r: "?m (rng_new 0x1edce4) = (r, s')" by fastforce
  show thesis
  proof (cases r)
    case (Inl e)
    with r those spec show thesis by (intro fail) (auto simp: buildLedger_def dest: rand_spec_errD)
  next
    case (Inr xss)
    with r those rand_specD [OF spec] cs show thesis by (intro ok) (auto simp: buildLedger_def)
  qed
qed

section \<open>Reading the chain, the manifests and the proofs\<close>

lemma chained_nth:
  "chained blake3 k tenantId n i prev cs xs \<Longrightarrow> length xs = length cs \<and>
   (\<forall>j < length xs. sealed_entry blake3 k tenantId (c_id (cs ! j))
      (if j = 0 then prev else sm_manifest_hash (fst (xs ! (j - 1)))) (make_broken (i + j) n) (xs ! j))"
proof (induction blake3 k tenantId n i prev cs xs rule: chained.induct)
  case (2 blake3 k tenantId n i prev c cs x xs)
  then have ih: "length xs = length cs" "\<And>j. j < length xs \<Longrightarrow> sealed_entry blake3 k tenantId (c_id (cs ! j))
      (if j = 0 then sm_manifest_hash (fst x) else sm_manifest_hash (fst (xs ! (j - 1)))) (make_broken (Suc i + j) n) (xs ! j)"
    by simp_all
  have "sealed_entry blake3 k tenantId (c_id ((c # cs) ! j))
      (if j = 0 then prev else sm_manifest_hash (fst ((x # xs) ! (j - 1)))) (make_broken (i + j) n) ((x # xs) ! j)"
    if "j < length (x # xs)" for j
  proof (cases j)
    case 0
    with 2 show ?thesis by simp
  next
    case (Suc j')
    with ih(2) [of j'] that show ?thesis by (cases j') simp_all
  qed
  with ih(1) show ?case by simp
qed simp_all

text \<open>The chain of one tenant, read by position.\<close>

definition linked_chain :: "hash_fun \<Rightarrow> kernel_call \<Rightarrow> Case list \<Rightarrow> string \<Rightarrow> (SealedManifest \<times> LedgerCaseData) list \<Rightarrow> bool" where
  "linked_chain blake3 k cases tenantId xs \<longleftrightarrow> length xs = length (tenant_cases tenantId cases) \<and>
     (\<forall>i < length xs. sealed_entry blake3 k tenantId (c_id (tenant_cases tenantId cases ! i))
        (if i = 0 then ZERO_HASH else sm_manifest_hash (fst (xs ! (i - 1)))) (make_broken i (length xs)) (xs ! i))"

lemma tenant_chain_nth: "tenant_chain blake3 k cases tenantId xs \<Longrightarrow> linked_chain blake3 k cases tenantId xs"
  unfolding tenant_chain_def linked_chain_def by (drule chained_nth) simp

lemma opt_json_inject: "opt_json JNum x = opt_json JNum y \<longleftrightarrow> x = y"
  by (auto simp: opt_json_def split: option.splits)

lemma inj_JStr: "inj JStr"
  by (simp add: inj_def)

lemma manifest_json_inject: "manifest_json m = manifest_json m' \<longleftrightarrow> m = m'"
  by (cases m; cases m'; cases "m_inference m"; cases "m_inference m'")
     (auto simp: manifest_json_def opt_json_inject inj_map_eq_map [OF inj_JStr])

lemma syntheticHash_eq:
  assumes "collision_free blake3 inputs" "utf8 (stringify a) \<in> set inputs" "utf8 (stringify b) \<in> set inputs"
    and "wf_json a" "wf_json b"
  shows "syntheticHash blake3 a = syntheticHash blake3 b \<longleftrightarrow> a = b"
  using assms by (auto simp: syntheticHash_def dest!: collision_freeD intro: stringify_inject)

definition entry_ok :: "hash_fun \<Rightarrow> LedgerCaseData \<Rightarrow> bool" where
  "entry_ok blake3 d \<longleftrightarrow> buildMerkleTree blake3 (ld_evidenceIds d) = Inr (ld_merkleTree d) \<and>
     set (ld_evidenceIds d) = set (evidence_set (ld_claims d))"

lemma sealed_entry_ok: "sealed_entry blake3 k t c prev broken x \<Longrightarrow> entry_ok blake3 (snd x)"
  by (auto simp: sealed_entry_def entry_ok_def Let_def)

lemma chain_entries_ok:
  assumes "list_all2 (tenant_chain blake3 k cases) tenants xss" "x \<in> set (concat xss)"
  shows "entry_ok blake3 (snd x)"
proof -
  from assms(2) obtain xs where xs: "xs \<in> set xss" "x \<in> set xs" by auto
  with assms(1) obtain t where "tenant_chain blake3 k cases t xs"
    by (auto simp: list_all2_conv_all_nth in_set_conv_nth)
  from tenant_chain_nth [OF this] xs(2) show ?thesis
    by (auto simp: linked_chain_def in_set_conv_nth intro: sealed_entry_ok)
qed

lemma js_map_of_values: "(i, v) \<in> set (js_map_of kvs) \<Longrightarrow> (i, v) \<in> set kvs"
proof (induction kvs arbitrary: i v rule: rev_induct)
  case (snoc kv kvs)
  obtain k' v' where kv: "kv = (k', v')" by (cases kv)
  with snoc set_update_subset [of k' v' "js_map_of kvs"] show ?case by (auto simp: js_map_of_snoc)
qed (simp add: js_map_of_def)

lemma prove_evidence_cases:
  assumes "\<And>i d. map_of (lg_caseData L) i = Some d \<Longrightarrow> entry_ok blake3 d"
  shows "case map_of (lg_caseData L) iv of
      None \<Rightarrow> proveEvidenceInclusion L iv e = Inr None
    | Some d \<Rightarrow>
        if e \<in> set (evidence_set (ld_claims d))
        then (\<exists>p. proveEvidenceInclusion L iv e = Inr (Some p) \<and> verifyInclusion blake3 e p \<and>
                ip_root p = mt_root (ld_merkleTree d))
        else proveEvidenceInclusion L iv e = Inr None"
proof (cases "map_of (lg_caseData L) iv")
  case None
  then show ?thesis by (simp add: proveEvidenceInclusion_def)
next
  case (Some d)
  then have d: "entry_ok blake3 d" by (rule assms)
  show ?thesis
    using d Some prove_listed_member [of blake3 "ld_evidenceIds d" "ld_merkleTree d" e]
      prove_listed_other [of e "ld_evidenceIds d" "ld_merkleTree d"]
    by (auto simp: proveEvidenceInclusion_def entry_ok_def)
qed

section \<open>Properties\<close>

text \<open>
  C10: the manifest chain. Whatever the kernel and the clock, the ledger is a reordering, newest
  first, of one chain per tenant: every manifest is hashed over all its fields, carries the root of
  the tree over its claims' evidence and the kernel's verdict on its claims, and names the hash of
  the manifest before it (the zero hash for the first), except at the one position in the middle
  that is flagged as broken when the tenant has more than three.
\<close>

theorem ledger_chained:
  assumes "kernel_accepts k" "store_inv store" "clock_ok clock"
  shows "case buildLedger blake3 k clock store of
     Inl e \<Rightarrow> e = PickUndefined
   | Inr L \<Rightarrow> \<exists>cases chains. listCases store = map Some cases \<and>
       mset (lg_manifests L) = mset (map fst (concat chains)) \<and>
       sorted (map (\<lambda>sm. - m_completed_at_ns (sm_manifest sm)) (lg_manifests L)) \<and>
       list_all2 (linked_chain blake3 k cases) LEDGER_TENANTS chains"
  using assms
proof (cases rule: buildLedger_cases [of k store clock blake3])
  case (ok cases xss)
  have "list_all2 (linked_chain blake3 k cases) LEDGER_TENANTS xss"
    using ok(3) by (rule list.rel_mono_strong) (rule tenant_chain_nth)
  with ok(1) show ?thesis unfolding ok(2) sum.case by (auto simp: ledger_of_def)
qed simp

text \<open>
  Evidence proofs of the ledger. For every investigation in the ledger and every evidence
  identifier of its claims, the proof service answers with a proof that \<^verbatim>\<open>verifyInclusion\<close> accepts
  and whose root is the root of the investigation's tree; for an identifier no claim cites, and for
  an unknown investigation, it answers null.
\<close>

theorem ledger_inclusion:
  assumes "kernel_accepts k" "store_inv store" "clock_ok clock"
  shows "case buildLedger blake3 k clock store of
     Inl e \<Rightarrow> e = PickUndefined
   | Inr L \<Rightarrow> (case map_of (lg_caseData L) iv of
         None \<Rightarrow> proveEvidenceInclusion L iv e = Inr None
       | Some d \<Rightarrow>
           if e \<in> set (evidence_set (ld_claims d))
           then (\<exists>p. proveEvidenceInclusion L iv e = Inr (Some p) \<and> verifyInclusion blake3 e p \<and>
                   ip_root p = mt_root (ld_merkleTree d))
           else proveEvidenceInclusion L iv e = Inr None)"
  using assms
proof (cases rule: buildLedger_cases [of k store clock blake3])
  case (ok cases xss)
  have "entry_ok blake3 d" if "map_of (lg_caseData (ledger_of xss)) i = Some d" for i d
  proof -
    have "(i, d) \<in> set (map (\<lambda>x. (ld_investigationId (snd x), snd x)) (concat xss))"
      by (rule js_map_of_values) (use map_of_SomeD [OF that] in \<open>simp add: ledger_of_def\<close>)
    then show ?thesis using chain_entries_ok [OF ok(3)] by auto
  qed
  from prove_evidence_cases [OF this] show ?thesis unfolding ok(2) sum.case .
qed simp

text \<open>
  C36: the manifest hash binds the manifest. Where the texts hashed do not collide, two manifests have
  the same hash only if they agree in every field, and the hash seeded as a broken link is the hash
  of no manifest, so a flagged link really leads nowhere.
\<close>

theorem manifest_hash_binding:
  assumes "wf_json (manifest_json m)" "wf_json (manifest_json m')"
    and "collision_free blake3 (map (\<lambda>j. utf8 (stringify j))
      [manifest_json m, manifest_json m', JObj [(''broken'', JStr investigationId)]])"
  shows "(syntheticHash blake3 (manifest_json m) = syntheticHash blake3 (manifest_json m') \<longleftrightarrow> m = m') \<and>
    broken_link blake3 investigationId \<noteq> syntheticHash blake3 (manifest_json m)"
proof -
  have "JObj [(''broken'', JStr investigationId)] \<noteq> manifest_json m" by (simp add: manifest_json_def)
  then show ?thesis
    using assms syntheticHash_eq [OF assms(3), of "manifest_json m" "manifest_json m'"]
      syntheticHash_eq [OF assms(3), of "JObj [(''broken'', JStr investigationId)]" "manifest_json m"]
    by (simp add: manifest_json_inject broken_link_def)
qed

section \<open>Instances\<close>

definition sample_verdict :: "string list \<Rightarrow> KernelVerdict" where
  "sample_verdict ids = \<lparr>kv_severity = ''low'', kv_confidence = 1800, kv_disposition = ''benign'',
     kv_attack_techniques = [], kv_contributing_claims = [], kv_policy_version = POLICY_VERSION,
     kv_kernel_version = KERNEL_VERSION, kv_verdict_hash = ''00'', kv_submitted_claim_ids = ids\<rparr>"

definition sample_call :: kernel_call where
  "sample_call request = Inr (KernelOk (sample_verdict (map (\<lambda>_. ''c1'') (kr_claims request))))"

lemma sample_clock_ok: "clock_ok (\<lambda>n. 1767225600000)"
  by (simp add: clock_ok_def)

lemma sample_call_accepts: "kernel_accepts sample_call"
  by (simp add: kernel_accepts_def adjudicated_def sample_call_def sample_verdict_def)

theorem ledger_chained_witness:
  "case buildLedger sample_hash sample_call (\<lambda>n. 1767225600000) sample_store of
     Inl e \<Rightarrow> e = PickUndefined
   | Inr L \<Rightarrow> \<exists>cases chains. listCases sample_store = map Some cases \<and>
       mset (lg_manifests L) = mset (map fst (concat chains)) \<and>
       sorted (map (\<lambda>sm. - m_completed_at_ns (sm_manifest sm)) (lg_manifests L)) \<and>
       list_all2 (linked_chain sample_hash sample_call cases) LEDGER_TENANTS chains"
  by (rule ledger_chained [OF sample_call_accepts sample_store_inv sample_clock_ok])

theorem ledger_inclusion_witness:
  "case buildLedger sample_hash sample_call (\<lambda>n. 1767225600000) sample_store of
     Inl e \<Rightarrow> e = PickUndefined
   | Inr L \<Rightarrow> (case map_of (lg_caseData L) ''inv-case-0-000000'' of
         None \<Rightarrow> proveEvidenceInclusion L ''inv-case-0-000000'' ''blake3:0'' = Inr None
       | Some d \<Rightarrow>
           if ''blake3:0'' \<in> set (evidence_set (ld_claims d))
           then (\<exists>p. proveEvidenceInclusion L ''inv-case-0-000000'' ''blake3:0'' = Inr (Some p) \<and>
                   verifyInclusion sample_hash ''blake3:0'' p \<and> ip_root p = mt_root (ld_merkleTree d))
           else proveEvidenceInclusion L ''inv-case-0-000000'' ''blake3:0'' = Inr None)"
  by (rule ledger_inclusion [OF sample_call_accepts sample_store_inv sample_clock_ok])

definition sample_manifest :: "string \<Rightarrow> Manifest" where
  "sample_manifest prev = \<lparr>m_investigation_id = ''i'', m_tenant_id = ''t'', m_case_id = ''c'', m_epoch_root = '''',
     m_epoch_id = 1, m_index_snapshot_hash = '''', m_claim_set_hash = '''', m_claim_ids = [],
     m_inference = \<lparr>inf_provider = '''', inf_model_id = '''', inf_weights_digest = '''', inf_seed = None\<rparr>,
     m_policy_version = '''', m_kernel_version = '''', m_attack_model_version = '''', m_verdict_severity = '''',
     m_verdict_confidence = 1, m_verdict_disposition = '''', m_verdict_hash = '''', m_budget_tool_calls = 1,
     m_budget_turns = 1, m_started_at_ns = 1, m_completed_at_ns = 1, m_prev_manifest_hash = prev\<rparr>"

text \<open>The identity is a hash without collisions.\<close>

theorem manifest_hash_binding_witness:
  "syntheticHash id (manifest_json (sample_manifest ''a'')) \<noteq> syntheticHash id (manifest_json (sample_manifest ''b'')) \<and>
   broken_link id ''i'' \<noteq> syntheticHash id (manifest_json (sample_manifest ''a''))"
proof -
  have wf: "wf_json (manifest_json (sample_manifest prev))" for prev
    using fl_int [of 1] by (simp add: manifest_json_def sample_manifest_def opt_json_def)
  have "collision_free id xs" for xs by (simp add: collision_free_def)
  from manifest_hash_binding [OF wf [of "''a''"] wf [of "''b''"] this, of "''i''"] show ?thesis
    by (simp add: sample_manifest_def)
qed

end
