(* ===== verification/Graph.thy ===== *)
theory Graph
  imports Ledger
begin

text \<open>
  \<^verbatim>\<open>web/src/lib/data/graph.ts\<close>: the evidence graph of a case, drawn from a seed that is the hash of the
  case identifier, its cache, and the proof service over the evidence of its edges. \<^verbatim>\<open>x ** 1.6\<close> is
  implementation-approximated and a parameter \<open>pow\<close>; \<^verbatim>\<open>nodeCountOverride\<close> is an integer when given.
\<close>

section \<open>Generation\<close>

fun ENTITY_PREFIX :: "EntityType \<Rightarrow> string" where
  "ENTITY_PREFIX HostEntity = ''host''"
| "ENTITY_PREFIX UserEntity = ''user''"
| "ENTITY_PREFIX ProcessEntity = ''proc''"
| "ENTITY_PREFIX IpEntity = ''ip''"
| "ENTITY_PREFIX FileEntity = ''file''"
| "ENTITY_PREFIX SessionEntity = ''sess''"

definition hashSeed :: "string \<Rightarrow> int" where
  "hashSeed s = sint (foldl (\<lambda>h ch. h * 31 + word_of_nat (of_char ch)) (0 :: 32 word) s)"

record Graph =
  g_caseId :: string
  g_nodes :: "GraphNode list"
  g_edges :: "GraphEdge list"
  g_columnCount :: nat

definition SPAN_MS :: int where "SPAN_MS = 5 * 24 * 60 * 60 * 1000"

definition node_count :: "int \<Rightarrow> int option \<Rightarrow> int" where
  "node_count seed override = (case override of Some n \<Rightarrow> n | None \<Rightarrow> min 10000 (max 300 (\<bar>seed\<bar> mod 12000)))"

definition node_id :: "string \<Rightarrow> nat \<Rightarrow> string" where
  "node_id caseId i = ENTITY_PREFIX (ENTITY_TYPES ! (i mod length ENTITY_TYPES)) @ ''-'' @ caseId @ ''-'' @ to_radix 10 i"

definition graph_node :: "(rat \<Rightarrow> rat) \<Rightarrow> string \<Rightarrow> int \<Rightarrow> nat \<Rightarrow> GraphNode rand" where
  "graph_node pow caseId nowMs i =
     rand_bind rng_next (\<lambda>v.
     rand_bind (rng_int 0 6) (\<lambda>prior.
     rand_return \<lparr>gn_id = node_id caseId i, gn_type = ENTITY_TYPES ! (i mod length ENTITY_TYPES),
       gn_label = node_id caseId i,
       gn_firstSeenMs = nowMs - SPAN_MS + js_floor (js_mul (pow v) (of_int SPAN_MS)),
       gn_priorCaseCount = prior\<rparr>))"

definition tactic_predicates :: "Tactic \<Rightarrow> string list" where
  "tactic_predicates tac = (case map_of PREDICATES_BY_TACTIC tac of Some ps \<Rightarrow> ps | None \<Rightarrow> [''UNKNOWN_PREDICATE''])"

definition graph_edge :: "string \<Rightarrow> nat \<Rightarrow> GraphNode \<Rightarrow> GraphNode \<Rightarrow> GraphEdge rand" where
  "graph_edge caseId i fromNode toNode =
     rand_bind (picked (rng_pick (map fst PREDICATES_BY_TACTIC))) (\<lambda>tac.
     rand_bind (rng_int 1 3) (\<lambda>evidenceCount.
     rand_bind (rand_replicate (nat evidenceCount) evidence_draw) (\<lambda>evidenceIds.
     rand_bind (hex_digits_draw 8) (\<lambda>suffix.
     rand_bind (picked (rng_pick (tactic_predicates tac))) (\<lambda>predicate.
     rand_bind (rng_bool (fl (9 / 10))) (\<lambda>supports.
     rand_bind (rng_int 1 4000) (\<lambda>span.
     rand_bind (picked (rng_pick (tactic_predicates tac))) (\<lambda>extractor.
     rand_bind (rng_int 1000 9500) (\<lambda>confidence.
     rand_bind (rng_bool (fl (15 / 100))) (\<lambda>grouped.
     rand_bind (if grouped then rand_bind (rng_int 1 3) (\<lambda>n. rand_return (Some (''hyp-'' @ show_int n)))
                else rand_return None) (\<lambda>hypothesis.
     (let intervalStartMs = max (gn_firstSeenMs fromNode) (gn_firstSeenMs toNode)
      in rand_return \<lparr>
        ge_id = caseId @ ''-claim-'' @ to_radix 10 i @ ''-'' @ suffix,
        ge_fromNodeId = gn_id fromNode,
        ge_toNodeId = gn_id toNode,
        ge_predicate = predicate,
        ge_polarity = (if supports then Supports else Refutes),
        ge_intervalStartMs = intervalStartMs,
        ge_intervalEndMs = intervalStartMs + span,
        ge_extractorKind = ''rule'',
        ge_extractorId = ''cdl.'' @ tactic_name tac @ ''.'' @ to_lower extractor,
        ge_extractorVersion = ''1'',
        ge_confidence = confidence,
        ge_evidenceIds = evidenceIds,
        ge_hypothesisGroup = hypothesis\<rparr>))))))))))))"

text \<open>
  One round of the edge loop: two positions are drawn; reading the identifier of a node past the
  end of the array throws, a pair of equal nodes is skipped.
\<close>

definition edge_round :: "string \<Rightarrow> GraphNode list \<Rightarrow> nat \<Rightarrow> GraphEdge option rand" where
  "edge_round caseId nodes i =
     rand_bind (rng_int 0 (int (length nodes) - 1)) (\<lambda>a.
     rand_bind (rng_int 0 (int (length nodes) - 1)) (\<lambda>b.
     case (js_index nodes a, js_index nodes b) of
       (Some fromNode, Some toNode) \<Rightarrow>
         if gn_id fromNode = gn_id toNode then rand_return None
         else rand_bind (graph_edge caseId i fromNode toNode) (\<lambda>e. rand_return (Some e))
     | _ \<Rightarrow> rand_fail TypeError))"

fun edge_loop :: "string \<Rightarrow> GraphNode list \<Rightarrow> nat \<Rightarrow> nat \<Rightarrow> GraphEdge list rand" where
  "edge_loop caseId nodes i 0 = rand_return []"
| "edge_loop caseId nodes i (Suc n) =
     rand_bind (edge_round caseId nodes i) (\<lambda>e.
     rand_bind (edge_loop caseId nodes (Suc i) n) (\<lambda>es.
     rand_return (case e of None \<Rightarrow> es | Some x \<Rightarrow> x # es)))"

definition generateGraph :: "(rat \<Rightarrow> rat) \<Rightarrow> int \<Rightarrow> string \<Rightarrow> int option \<Rightarrow> Graph result" where
  "generateGraph pow nowMs caseId override =
     (let seed = hashSeed caseId; n = node_count seed override;
          edgeCount = js_round (js_mul (of_int n) (fl (13 / 10)))
      in fst (rand_bind (rand_map (graph_node pow caseId nowMs) [0..<nat n]) (\<lambda>nodes.
              rand_bind (edge_loop caseId nodes 0 (nat edgeCount)) (\<lambda>edges.
              rand_return \<lparr>g_caseId = caseId, g_nodes = nodes, g_edges = edges, g_columnCount = 40\<rparr>))
            (rng_new seed)))"

section \<open>Cache and proofs\<close>

record GraphCacheEntry =
  gc_graph :: Graph
  gc_tree :: MerkleTree
  gc_evidenceIds :: "string list"

type_synonym graph_cache = "(string \<times> GraphCacheEntry) list"

definition graph_key :: "string \<Rightarrow> int option \<Rightarrow> string" where
  "graph_key caseId override = caseId @ '':'' @ (case override of Some n \<Rightarrow> show_int n | None \<Rightarrow> ''auto'')"

definition build_entry :: "hash_fun \<Rightarrow> Graph \<Rightarrow> GraphCacheEntry result" where
  "build_entry blake3 graph =
     (let evidenceIds = sort (js_unique (concat (map ge_evidenceIds (g_edges graph))))
      in case buildMerkleTree blake3 evidenceIds of
           Inl e \<Rightarrow> Inl e
         | Inr tree \<Rightarrow> Inr \<lparr>gc_graph = graph, gc_tree = tree, gc_evidenceIds = evidenceIds\<rparr>)"

definition getOrBuildGraph ::
  "hash_fun \<Rightarrow> (rat \<Rightarrow> rat) \<Rightarrow> int \<Rightarrow> string \<Rightarrow> int option \<Rightarrow> graph_cache \<Rightarrow> GraphCacheEntry result \<times> graph_cache" where
  "getOrBuildGraph blake3 pow nowMs caseId override cache =
     (case map_of cache (graph_key caseId override) of
        Some entry \<Rightarrow> (Inr entry, cache)
      | None \<Rightarrow>
          (case generateGraph pow nowMs caseId override of
             Inl e \<Rightarrow> (Inl e, cache)
           | Inr graph \<Rightarrow>
               (case build_entry blake3 graph of
                  Inl e \<Rightarrow> (Inl e, cache)
                | Inr entry \<Rightarrow> (Inr entry, AList.update (graph_key caseId override) entry cache))))"

definition proveGraphEvidenceInclusion ::
  "hash_fun \<Rightarrow> (rat \<Rightarrow> rat) \<Rightarrow> int \<Rightarrow> string \<Rightarrow> int option \<Rightarrow> string \<Rightarrow> graph_cache \<Rightarrow>
   InclusionProof option result \<times> graph_cache" where
  "proveGraphEvidenceInclusion blake3 pow nowMs caseId override evidenceId cache =
     (case getOrBuildGraph blake3 pow nowMs caseId override cache of
        (Inl e, cache) \<Rightarrow> (Inl e, cache)
      | (Inr entry, cache) \<Rightarrow> (prove_listed (gc_tree entry) (gc_evidenceIds entry) evidenceId, cache))"

section \<open>Programs that may also throw\<close>

text \<open>Every run of \<open>m\<close> ends in a value with \<open>P\<close> or with one of the errors \<open>E\<close>.\<close>

definition rand_ends :: "js_error list \<Rightarrow> 'a rand \<Rightarrow> ('a \<Rightarrow> bool) \<Rightarrow> bool" where
  "rand_ends E m P \<longleftrightarrow> (\<forall>s. case fst (m s) of Inl e \<Rightarrow> e \<in> set E | Inr a \<Rightarrow> P a)"

lemma rand_endsI:
  assumes "\<And>s e. fst (m s) = Inl e \<Longrightarrow> e \<in> set E" and "\<And>s a. fst (m s) = Inr a \<Longrightarrow> P a"
  shows "rand_ends E m P"
  unfolding rand_ends_def using assms by (auto split: sum.split)

lemma rand_endsD: "rand_ends E m P \<Longrightarrow> fst (m s) = Inr a \<Longrightarrow> P a"
  unfolding rand_ends_def by (drule spec [of _ s]) simp

lemma rand_ends_errD: "rand_ends E m P \<Longrightarrow> fst (m s) = Inl e \<Longrightarrow> e \<in> set E"
  unfolding rand_ends_def by (drule spec [of _ s]) simp

lemma rand_ends_return: "P a \<Longrightarrow> rand_ends E (rand_return a) P"
  by (simp add: rand_ends_def rand_return_def)

lemma rand_ends_fail: "e \<in> set E \<Longrightarrow> rand_ends E (rand_fail e) P"
  by (simp add: rand_ends_def rand_fail_def)

lemma rand_ends_spec:
  assumes "rand_spec m P" "PickUndefined \<in> set E"
  shows "rand_ends E m P"
proof (rule rand_endsI)
  show "e \<in> set E" if "fst (m s) = Inl e" for s e
    using rand_spec_errD [OF assms(1), of s e "snd (m s)"] that assms(2) by (simp add: prod_eq_iff)
  show "P a" if "fst (m s) = Inr a" for s a
    using rand_specD [OF assms(1), of s a "snd (m s)"] that by (simp add: prod_eq_iff)
qed

lemma fst_rand_bind:
  "fst (rand_bind m f s) = (case fst (m s) of Inl e \<Rightarrow> Inl e | Inr a \<Rightarrow> fst (f a (snd (m s))))"
  by (simp add: rand_bind_def split: prod.split sum.split)

lemma rand_ends_bind:
  assumes "rand_ends E m (\<lambda>a. rand_ends E (f a) P)"
  shows "rand_ends E (rand_bind m f) P"
proof (rule rand_endsI)
  show "e \<in> set E" if "fst (rand_bind m f s) = Inl e" for s e
    using that rand_ends_errD [OF assms, of s] rand_endsD [OF assms, of s, THEN rand_ends_errD]
    by (cases "fst (m s)") (simp_all add: fst_rand_bind)
  show "P a" if "fst (rand_bind m f s) = Inr a" for s a
    using that rand_endsD [OF assms, of s, THEN rand_endsD] by (cases "fst (m s)") (simp_all add: fst_rand_bind)
qed

lemma rand_ends_conseq: "rand_ends E m Q \<Longrightarrow> (\<And>a. Q a \<Longrightarrow> P a) \<Longrightarrow> rand_ends E m P"
  by (intro rand_endsI) (erule (1) rand_ends_errD, blast dest: rand_endsD)

abbreviation draw_errors :: "js_error list" where
  "draw_errors \<equiv> [PickUndefined, TypeError]"

section \<open>What a generated graph looks like\<close>

definition edge_ok :: "GraphNode list \<Rightarrow> GraphEdge \<Rightarrow> bool" where
  "edge_ok nodes e \<longleftrightarrow>
     (\<exists>a \<in> set nodes. \<exists>b \<in> set nodes. ge_fromNodeId e = gn_id a \<and> ge_toNodeId e = gn_id b \<and> gn_id a \<noteq> gn_id b \<and>
        gn_firstSeenMs a \<le> ge_intervalStartMs e \<and> gn_firstSeenMs b \<le> ge_intervalStartMs e) \<and>
     ge_intervalStartMs e < ge_intervalEndMs e \<and> ge_evidenceIds e \<noteq> [] \<and>
     1000 \<le> ge_confidence e \<and> ge_confidence e \<le> 9501"

lemma graph_node_spec:
  "rand_spec (graph_node pow caseId nowMs i) (\<lambda>n. gn_id n = node_id caseId i \<and> 0 \<le> gn_priorCaseCount n)"
  unfolding graph_node_def by (intro rand_rules) auto

lemma tactic_predicates_nonempty: "tactic_predicates tac \<noteq> []" "length (tactic_predicates tac) \<le> 2"
proof -
  obtain ps where "map_of PREDICATES_BY_TACTIC tac = Some ps" "ps \<noteq> []" "length ps \<le> 2"
    by (rule PREDICATES_BY_TACTIC_total)
  then show "tactic_predicates tac \<noteq> []" "length (tactic_predicates tac) \<le> 2" by (simp_all add: tactic_predicates_def)
qed

lemma tactic_keys: "map fst PREDICATES_BY_TACTIC \<noteq> []" "length (map fst PREDICATES_BY_TACTIC) \<le> 2 ^ 33"
  by (simp_all add: PREDICATES_BY_TACTIC_def)

lemma edge_okI:
  assumes "a \<in> set nodes" "b \<in> set nodes" "gn_id a \<noteq> gn_id b"
    and "ge_fromNodeId e = gn_id a" "ge_toNodeId e = gn_id b"
    and "ge_intervalStartMs e = max (gn_firstSeenMs a) (gn_firstSeenMs b)" "ge_intervalStartMs e < ge_intervalEndMs e"
    and "ge_evidenceIds e \<noteq> []" "1000 \<le> ge_confidence e" "ge_confidence e \<le> 9501"
  shows "edge_ok nodes e"
  unfolding edge_ok_def using assms by (intro conjI bexI [of _ a] bexI [of _ b]) simp_all

lemma graph_edge_spec:
  assumes "a \<in> set nodes" "b \<in> set nodes" "gn_id a \<noteq> gn_id b"
  shows "rand_spec (graph_edge caseId i a b) (\<lambda>e. edge_ok nodes e \<and>
    (\<exists>x. ge_id e = caseId @ ''-claim-'' @ to_radix 10 i @ ''-'' @ x))"
proof -
  have tp: "length (tactic_predicates tac) \<le> 2 ^ 33" for tac
    by (rule order_trans [OF tactic_predicates_nonempty(2)]) simp
  show ?thesis
    unfolding graph_edge_def Let_def
    by (intro rand_rules rand_spec_replicate_wp evidence_draw_spec tactic_keys tactic_predicates_nonempty tp conjI
          edge_okI [OF assms])
       auto
qed

text \<open>An edge of round \<open>k\<close> carries \<open>k\<close> in its identifier, so that rounds cannot share one.\<close>

definition edge_of_round :: "string \<Rightarrow> nat \<Rightarrow> GraphEdge \<Rightarrow> bool" where
  "edge_of_round caseId k e \<longleftrightarrow> (\<exists>x. ge_id e = caseId @ ''-claim-'' @ to_radix 10 k @ ''-'' @ x)"

definition edges_ok :: "string \<Rightarrow> GraphNode list \<Rightarrow> nat \<Rightarrow> nat \<Rightarrow> GraphEdge list \<Rightarrow> bool" where
  "edges_ok caseId nodes i n es \<longleftrightarrow> list_all (edge_ok nodes) es \<and>
     (\<exists>ks. list_all2 (edge_of_round caseId) ks es \<and> sorted_wrt (<) ks \<and> set ks \<subseteq> {i..<i + n})"

lemma digit_char_no_dash: "d < 10 \<Longrightarrow> digit_char d \<noteq> CHR ''-''"
proof -
  have "CHR ''-'' \<notin> set digit_chars" by (simp add: digit_chars_def)
  then show "d < 10 \<Longrightarrow> digit_char d \<noteq> CHR ''-''"
    using nth_mem [of d digit_chars] by (auto simp: digit_char_def length_digit_chars simp del: nth_mem)
qed

lemma to_radix_no_dash: "CHR ''-'' \<notin> set (to_radix 10 k)"
  using radix_digits_bound [of 10 _ k] digit_char_no_dash by (fastforce simp: to_radix_def)

lemma radix_dash_prefix:
  assumes "to_radix 10 j @ ''-'' @ x = to_radix 10 k @ ''-'' @ y"
  shows "j = k"
proof -
  have t: "takeWhile (\<lambda>c. c \<noteq> CHR ''-'') (to_radix 10 n @ ''-'' @ z) = to_radix 10 n" for n z
    using to_radix_no_dash [of n] by (subst takeWhile_append2) auto
  have "to_radix 10 j = to_radix 10 k" using arg_cong [OF assms, of "takeWhile (\<lambda>c. c \<noteq> CHR ''-'')"] by (simp only: t)
  then show ?thesis by (simp add: to_radix_inject)
qed

lemma edge_of_round_inject: "edge_of_round c j e \<Longrightarrow> edge_of_round c k e' \<Longrightarrow> ge_id e = ge_id e' \<Longrightarrow> j = k"
  unfolding edge_of_round_def by (elim exE) (rule radix_dash_prefix, simp)

lemma edges_ok_distinct:
  assumes "edges_ok c nodes i n es"
  shows "distinct (map ge_id es)"
proof -
  obtain ks where ks: "list_all2 (edge_of_round c) ks es" "sorted_wrt (<) ks"
    using assms by (auto simp: edges_ok_def)
  then have d: "distinct ks" and len: "length ks = length es" by (auto simp: strict_sorted_iff list_all2_lengthD)
  have k: "ks ! a = ks ! b" if "a < length es" "b < length es" "ge_id (es ! a) = ge_id (es ! b)" for a b
    by (rule edge_of_round_inject [where c = c, OF _ _ that(3)]) (use ks(1) that in \<open>simp_all add: list_all2_conv_all_nth\<close>)
  have "a = b" if "a < length es" "b < length es" "ge_id (es ! a) = ge_id (es ! b)" for a b
    using k [OF that] that(1,2) nth_eq_iff_index_eq [OF d, of a b] len by simp
  then show ?thesis unfolding distinct_conv_nth by (metis length_map nth_map)
qed

lemma edges_ok_Cons:
  assumes "edges_ok c nodes (Suc i) n es" "edge_ok nodes e" "edge_of_round c i e"
  shows "edges_ok c nodes i (Suc n) (e # es)"
proof -
  obtain ks where "list_all2 (edge_of_round c) ks es" "sorted_wrt (<) ks" "set ks \<subseteq> {Suc i..<Suc i + n}"
    using assms(1) by (auto simp: edges_ok_def)
  then have "list_all2 (edge_of_round c) (i # ks) (e # es)" "sorted_wrt (<) (i # ks)" "set (i # ks) \<subseteq> {i..<i + Suc n}"
    using assms(3) by auto
  then show ?thesis using assms(1,2) unfolding edges_ok_def by (metis list.pred_inject(2))
qed

lemma edges_ok_mono: "edges_ok c nodes (Suc i) n es \<Longrightarrow> edges_ok c nodes i (Suc n) es"
  unfolding edges_ok_def by fastforce

lemma edge_round_spec:
  assumes "nodes \<noteq> []" "length nodes \<le> 2 ^ 33"
  shows "rand_ends draw_errors (edge_round c nodes i)
    (\<lambda>e. case e of None \<Rightarrow> True | Some x \<Rightarrow> edge_ok nodes x \<and> edge_of_round c i x)"
proof -
  have idx: "rand_ends draw_errors (rng_int 0 (int (length nodes) - 1)) (\<lambda>_. True)"
    using assms by (intro rand_ends_spec rand_rules) (cases nodes; simp)+
  have "rand_ends draw_errors
      (case (js_index nodes a, js_index nodes b) of
       (Some fromNode, Some toNode) \<Rightarrow>
         if gn_id fromNode = gn_id toNode then rand_return None
         else rand_bind (graph_edge c i fromNode toNode) (\<lambda>e. rand_return (Some e))
     | _ \<Rightarrow> rand_fail TypeError)
      (\<lambda>e. case e of None \<Rightarrow> True | Some x \<Rightarrow> edge_ok nodes x \<and> edge_of_round c i x)" for a b
  proof (cases "js_index nodes a"; cases "js_index nodes b")
    fix x y
    assume xy: "js_index nodes a = Some x" "js_index nodes b = Some y"
    show ?thesis
    proof (cases "gn_id x = gn_id y")
      case True
      with xy show ?thesis by (simp add: rand_ends_return)
    next
      case False
      have "rand_ends draw_errors (graph_edge c i x y) (\<lambda>e. edge_ok nodes e \<and> edge_of_round c i e)"
        using graph_edge_spec [OF js_index_in_set [OF xy(1)] js_index_in_set [OF xy(2)] False]
        by (intro rand_ends_spec) (simp_all add: edge_of_round_def)
      then have "rand_ends draw_errors (graph_edge c i x y) (\<lambda>e. rand_ends draw_errors (rand_return (Some e))
        (\<lambda>e. case e of None \<Rightarrow> True | Some x \<Rightarrow> edge_ok nodes x \<and> edge_of_round c i x))"
        by (rule rand_ends_conseq) (simp add: rand_ends_return)
      with xy False show ?thesis by (simp add: rand_ends_bind)
    qed
  qed (simp_all add: rand_ends_fail)
  then show ?thesis
    unfolding edge_round_def by (intro rand_ends_bind rand_ends_conseq [OF idx])
qed

lemma edge_loop_spec:
  assumes "nodes \<noteq> []" "length nodes \<le> 2 ^ 33"
  shows "rand_ends draw_errors (edge_loop c nodes i n) (edges_ok c nodes i n)"
proof (induction n arbitrary: i)
  case 0
  show ?case by (simp add: rand_ends_return edges_ok_def)
next
  case (Suc n)
  show ?case
    unfolding edge_loop.simps
    by (rule rand_ends_bind, rule rand_ends_conseq [OF edge_round_spec [OF assms]],
        rule rand_ends_bind, rule rand_ends_conseq [OF Suc.IH])
       (auto simp: rand_ends_return edges_ok_mono edges_ok_Cons split: option.splits)
qed

lemma generateGraph_run:
  assumes "n = node_count (hashSeed caseId) override"
  shows "generateGraph pow nowMs caseId override =
    fst (rand_bind (rand_map (graph_node pow caseId nowMs) [0..<nat n]) (\<lambda>nodes.
         rand_bind (edge_loop caseId nodes 0 (nat (js_round (js_mul (of_int n) (fl (13 / 10)))))) (\<lambda>edges.
         rand_return \<lparr>g_caseId = caseId, g_nodes = nodes, g_edges = edges, g_columnCount = 40\<rparr>))
       (rng_new (hashSeed caseId)))"
  by (simp add: generateGraph_def Let_def assms)

definition graph_ok :: "string \<Rightarrow> nat \<Rightarrow> Graph \<Rightarrow> bool" where
  "graph_ok caseId n g \<longleftrightarrow> g_caseId g = caseId \<and> map gn_id (g_nodes g) = map (node_id caseId) [0..<n] \<and>
     distinct (map gn_id (g_nodes g)) \<and> list_all (edge_ok (g_nodes g)) (g_edges g) \<and> distinct (map ge_id (g_edges g))"

lemma list_all2_map_eq: "list_all2 (\<lambda>x y. f y = g x) xs ys \<Longrightarrow> map f ys = map g xs"
  by (induction rule: list_all2_induct) simp_all

lemma node_id_inject: "node_id c i = node_id c j \<longleftrightarrow> i = j"
proof
  assume eq: "node_id c i = node_id c j"
  let ?t = "takeWhile (\<lambda>x. x \<noteq> CHR ''-'')"
  have "rev (node_id c n) = rev (to_radix 10 n) @ ''-'' @ rev c @ ''-'' @ rev (ENTITY_PREFIX (ENTITY_TYPES ! (n mod length ENTITY_TYPES)))"
    for n by (simp add: node_id_def)
  moreover have "?t (rev (to_radix 10 n) @ ''-'' @ y) = rev (to_radix 10 n)" for n y
    using to_radix_no_dash [of n] by (subst takeWhile_append2) auto
  ultimately have "?t (rev (node_id c n)) = rev (to_radix 10 n)" for n by simp
  with eq have "rev (to_radix 10 i) = rev (to_radix 10 j)" by metis
  then show "i = j" by (simp add: to_radix_inject)
qed simp

lemma generateGraph_spec:
  assumes n: "n = node_count (hashSeed caseId) override" and "0 < n" "n \<le> 2 ^ 33"
  shows "case generateGraph pow nowMs caseId override of
    Inl e \<Rightarrow> e \<in> {PickUndefined, TypeError} | Inr g \<Rightarrow> graph_ok caseId (nat n) g"
proof -
  let ?m = "rand_bind (rand_map (graph_node pow caseId nowMs) [0..<nat n]) (\<lambda>nodes.
         rand_bind (edge_loop caseId nodes 0 (nat (js_round (js_mul (of_int n) (fl (13 / 10)))))) (\<lambda>edges.
         rand_return \<lparr>g_caseId = caseId, g_nodes = nodes, g_edges = edges, g_columnCount = 40\<rparr>))"
  have ids: "rand_ends draw_errors (rand_map (graph_node pow caseId nowMs) [0..<nat n])
      (\<lambda>nodes. map gn_id nodes = map (node_id caseId) [0..<nat n])"
    by (rule rand_ends_spec [OF rand_spec_conseq [OF rand_spec_map [OF graph_node_spec]]])
       (auto intro: list_all2_map_eq list_all2_mono)
  have "rand_ends draw_errors ?m (graph_ok caseId (nat n))"
  proof (rule rand_ends_bind, rule rand_ends_conseq [OF ids])
    fix nodes :: "GraphNode list"
    assume eq: "map gn_id nodes = map (node_id caseId) [0..<nat n]"
    then have len: "length nodes = nat n" by (metis length_map length_upt diff_zero)
    have d: "distinct (map gn_id nodes)"
      unfolding eq by (simp add: distinct_map inj_on_def node_id_inject)
    have ne: "nodes \<noteq> []" "length nodes \<le> 2 ^ 33" using len assms(2,3) by auto
    show "rand_ends draw_errors (rand_bind (edge_loop caseId nodes 0 (nat (js_round (js_mul (of_int n) (fl (13 / 10)))))) (\<lambda>edges.
         rand_return \<lparr>g_caseId = caseId, g_nodes = nodes, g_edges = edges, g_columnCount = 40\<rparr>)) (graph_ok caseId (nat n))"
      using eq d by (intro rand_ends_bind rand_ends_conseq [OF edge_loop_spec [OF ne]] rand_ends_return)
        (auto simp: graph_ok_def edges_ok_distinct, simp add: edges_ok_def)
  qed
  from rand_endsD [OF this] rand_ends_errD [OF this] show ?thesis
    unfolding generateGraph_run [OF n] by (auto split: sum.split)
qed

lemma edge_round_single: "rand_ends draw_errors (edge_round c [x] i) (\<lambda>e. e = None)"
proof -
  have idx: "rand_ends draw_errors (rng_int 0 (int (length [x]) - 1)) (\<lambda>_. True)"
    by (intro rand_ends_spec rand_rules) simp_all
  have one: "y = x" if "js_index [x] a = Some y" for a y using js_index_in_set [OF that] by simp
  have "rand_ends draw_errors
      (case (js_index [x] a, js_index [x] b) of
       (Some fromNode, Some toNode) \<Rightarrow>
         if gn_id fromNode = gn_id toNode then rand_return None
         else rand_bind (graph_edge c i fromNode toNode) (\<lambda>e. rand_return (Some e))
     | _ \<Rightarrow> rand_fail TypeError) (\<lambda>e. e = None)" for a b
    by (cases "js_index [x] a"; cases "js_index [x] b") (auto simp: rand_ends_return rand_ends_fail dest!: one)
  then show ?thesis
    unfolding edge_round_def by (intro rand_ends_bind rand_ends_conseq [OF idx])
qed

lemma edge_loop_single: "rand_ends draw_errors (edge_loop c [x] i n) (\<lambda>es. es = [])"
proof (induction n arbitrary: i)
  case (Suc n)
  show ?case
    unfolding edge_loop.simps
    by (rule rand_ends_bind, rule rand_ends_conseq [OF edge_round_single],
        rule rand_ends_bind, rule rand_ends_conseq [OF Suc.IH])
       (simp add: rand_ends_return)
qed (simp add: rand_ends_return)

lemma generateGraph_one:
  "generateGraph pow nowMs caseId (Some 1) = Inr g \<Longrightarrow> g_edges g = []"
proof -
  have run: "rand_ends draw_errors (rand_bind (rand_map (graph_node pow caseId nowMs) [0..<nat 1]) (\<lambda>nodes.
       rand_bind (edge_loop caseId nodes 0 k) (\<lambda>edges.
       rand_return \<lparr>g_caseId = caseId, g_nodes = nodes, g_edges = edges, g_columnCount = 40\<rparr>))) (\<lambda>g. g_edges g = [])" for k
  proof (rule rand_ends_bind, rule rand_ends_conseq [OF rand_ends_spec [OF rand_spec_map [OF graph_node_spec]]])
    show "PickUndefined \<in> set draw_errors" by simp
    fix nodes :: "GraphNode list"
    assume "list_all2 (\<lambda>i n. gn_id n = node_id caseId i \<and> 0 \<le> gn_priorCaseCount n) [0..<nat 1] nodes"
    then obtain x where "nodes = [x]" by (auto simp: list_all2_Cons1)
    then show "rand_ends draw_errors (rand_bind (edge_loop caseId nodes 0 k) (\<lambda>edges.
       rand_return \<lparr>g_caseId = caseId, g_nodes = nodes, g_edges = edges, g_columnCount = 40\<rparr>)) (\<lambda>g. g_edges g = [])"
      by (auto intro!: rand_ends_bind rand_ends_conseq [OF edge_loop_single] rand_ends_return)
  qed
  show "generateGraph pow nowMs caseId (Some 1) = Inr g \<Longrightarrow> g_edges g = []"
    using rand_endsD [OF run] generateGraph_run [of 1 caseId "Some 1" pow nowMs] by (simp add: node_count_def)
qed

lemma generateGraph_zero:
  assumes "n \<le> 0"
  shows "generateGraph pow nowMs caseId (Some n) = Inr \<lparr>g_caseId = caseId, g_nodes = [], g_edges = [], g_columnCount = 40\<rparr>"
proof -
  have "js_mul (of_int n) (fl (13 / 10)) \<le> of_int 0"
    unfolding js_mul_def using assms dbl.rnd_nonneg [of "13 / 10"]
    by (intro dbl.rnd_le_int) (simp_all add: mult_nonpos_nonneg)
  then have "js_round (js_mul (of_int n) (fl (13 / 10))) \<le> 0"
    by (simp add: js_round_def floor_le_iff)
  then show ?thesis using assms
    by (simp add: generateGraph_def node_count_def rand_bind_def rand_return_def)
qed

lemma build_entry_empty: "g_edges g = [] \<Longrightarrow> build_entry blake3 g = Inl (Thrown ''buildMerkleTree: empty evidence set'')"
  by (simp add: build_entry_def buildMerkleTree_def)


section \<open>The cache\<close>

definition entry_cached :: "hash_fun \<Rightarrow> GraphCacheEntry \<Rightarrow> bool" where
  "entry_cached blake3 entry \<longleftrightarrow> build_entry blake3 (gc_graph entry) = Inr entry"

definition cache_ok :: "hash_fun \<Rightarrow> graph_cache \<Rightarrow> bool" where
  "cache_ok blake3 cache \<longleftrightarrow> list_all (\<lambda>(k, entry). entry_cached blake3 entry) cache"

lemma cache_okD: "cache_ok blake3 cache \<Longrightarrow> map_of cache k = Some entry \<Longrightarrow> entry_cached blake3 entry"
  by (auto simp: cache_ok_def list_all_iff dest: map_of_SomeD)

lemma build_entry_cached: "build_entry blake3 g = Inr entry \<Longrightarrow> entry_cached blake3 entry \<and> gc_graph entry = g"
  by (auto simp: entry_cached_def build_entry_def Let_def split: sum.splits)

lemma cache_ok_update: "cache_ok blake3 cache \<Longrightarrow> entry_cached blake3 entry \<Longrightarrow> cache_ok blake3 (AList.update k entry cache)"
  by (induction cache) (auto simp: cache_ok_def)

lemma getOrBuildGraph_cases:
  assumes "getOrBuildGraph blake3 pow nowMs c ov cache = (r, cache')" "cache_ok blake3 cache"
  obtains (error) e where "r = Inl e" "cache' = cache"
  | (entry) entry where "r = Inr entry" "map_of cache' (graph_key c ov) = Some entry" "cache_ok blake3 cache'"
proof (cases "map_of cache (graph_key c ov)")
  case (Some entry)
  with assms that(2) [of entry] show thesis by (simp add: getOrBuildGraph_def)
next
  case none: None
  show thesis
  proof (cases "generateGraph pow nowMs c ov")
    case (Inl e)
    with assms that(1) [of e] none show thesis by (simp add: getOrBuildGraph_def)
  next
    case (Inr g)
    show thesis
    proof (cases "build_entry blake3 g")
      case (Inl e)
      with assms that(1) [of e] none \<open>generateGraph _ _ _ _ = _\<close> show thesis by (simp add: getOrBuildGraph_def)
    next
      case (Inr entry)
      with assms that(2) [of entry] none \<open>generateGraph _ _ _ _ = _\<close> build_entry_cached [OF Inr] show thesis
        by (auto simp: getOrBuildGraph_def update_conv cache_ok_update)
    qed
  qed
qed

lemma entry_proofs:
  assumes "entry_cached blake3 entry"
  shows "if \<exists>edge \<in> set (g_edges (gc_graph entry)). e \<in> set (ge_evidenceIds edge)
    then \<exists>p. prove_listed (gc_tree entry) (gc_evidenceIds entry) e = Inr (Some p) \<and>
       verifyInclusion blake3 e p \<and> ip_root p = mt_root (gc_tree entry)
    else prove_listed (gc_tree entry) (gc_evidenceIds entry) e = Inr None"
proof -
  have t: "buildMerkleTree blake3 (gc_evidenceIds entry) = Inr (gc_tree entry)"
    and i: "set (gc_evidenceIds entry) = (\<Union>edge \<in> set (g_edges (gc_graph entry)). set (ge_evidenceIds edge))"
    using assms by (cases entry; fastforce simp: entry_cached_def build_entry_def Let_def split: sum.splits)+
  show ?thesis
    using prove_listed_member [OF t, of e] prove_listed_other [of e "gc_evidenceIds entry" "gc_tree entry"] i
    by simp
qed

section \<open>Properties\<close>

text \<open>
  A generated graph is well formed. When \<^verbatim>\<open>generateGraph\<close> returns, it has exactly the requested
  nodes under pairwise different identifiers, every edge joins two different nodes of the graph,
  starts no earlier than both were first seen, lasts a positive time and cites evidence, and edge
  identifiers are pairwise different; the only errors are those of a draw past the end of an array.
\<close>

theorem graph_well_formed:
  assumes "n = node_count (hashSeed caseId) override" and "0 < n" and "n \<le> 2 ^ 33"
  shows "case generateGraph pow nowMs caseId override of
     Inl e \<Rightarrow> e \<in> {PickUndefined, TypeError}
   | Inr g \<Rightarrow> map gn_id (g_nodes g) = map (node_id caseId) [0..<nat n] \<and> distinct (map gn_id (g_nodes g)) \<and>
       list_all (edge_ok (g_nodes g)) (g_edges g) \<and> distinct (map ge_id (g_edges g))"
  using generateGraph_spec [OF assms, of pow nowMs] by (auto simp only: graph_ok_def split: sum.splits)

theorem graph_well_formed_witness:
  "case generateGraph (\<lambda>x. x) 1767225600000 ''case-0001'' (Some 2) of
     Inl e \<Rightarrow> e \<in> {PickUndefined, TypeError}
   | Inr g \<Rightarrow> map gn_id (g_nodes g) = map (node_id ''case-0001'') [0..<nat 2] \<and> distinct (map gn_id (g_nodes g)) \<and>
       list_all (edge_ok (g_nodes g)) (g_edges g) \<and> distinct (map ge_id (g_edges g))"
  by (rule graph_well_formed) (simp_all add: node_count_def)

text \<open>
  Evidence of a graph. After any call of \<^verbatim>\<open>proveGraphEvidenceInclusion\<close> that returns, the cache
  holds the graph's entry and stays sound; an identifier cited by an edge of that very graph gets a
  proof that verifies against the root of its tree, any other gets \<^verbatim>\<open>null\<close>. A failing call leaves the
  cache as it was.
\<close>

theorem graph_inclusion:
  assumes "cache_ok blake3 cache"
    and "proveGraphEvidenceInclusion blake3 pow nowMs caseId override e cache = (r, cache')"
  shows "case r of
     Inl _ \<Rightarrow> cache' = cache
   | Inr proof \<Rightarrow> cache_ok blake3 cache' \<and>
       (\<exists>entry. map_of cache' (graph_key caseId override) = Some entry \<and>
         (if \<exists>edge \<in> set (g_edges (gc_graph entry)). e \<in> set (ge_evidenceIds edge)
          then \<exists>p. proof = Some p \<and> verifyInclusion blake3 e p \<and> ip_root p = mt_root (gc_tree entry)
          else proof = None))"
proof -
  obtain q c where q: "getOrBuildGraph blake3 pow nowMs caseId override cache = (q, c)" by fastforce
  from q assms(1) show ?thesis
  proof (cases rule: getOrBuildGraph_cases)
    case (error x)
    with assms(2) q show ?thesis by (auto simp: proveGraphEvidenceInclusion_def)
  next
    case (entry entry)
    with assms(2) q have "r = prove_listed (gc_tree entry) (gc_evidenceIds entry) e" "cache' = c"
      by (auto simp: proveGraphEvidenceInclusion_def)
    then show ?thesis using entry(2,3) entry_proofs [OF cache_okD [OF entry(3,2)], of e]
      by (auto intro!: exI [of _ entry] split: if_splits sum.splits)
  qed
qed

theorem graph_inclusion_witness:
  "cache_ok sample_hash [] \<and>
   (case proveGraphEvidenceInclusion sample_hash (\<lambda>x. x) 1767225600000 ''case-0001'' (Some 0) ''blake3:0'' [] of
     (Inl _, cache') \<Rightarrow> cache' = [] | (Inr proof, cache') \<Rightarrow> cache_ok sample_hash cache')"
proof -
  have ok: "cache_ok sample_hash []" by (simp add: cache_ok_def)
  obtain r c where r: "proveGraphEvidenceInclusion sample_hash (\<lambda>x. x) 1767225600000 ''case-0001'' (Some 0) ''blake3:0'' [] = (r, c)"
    by fastforce
  from graph_inclusion [OF ok r] ok r show ?thesis by (auto split: sum.splits)
qed

text \<open>
  A graph of at most one node has no edge and hence no evidence, so a request for one fails:
  \<^verbatim>\<open>getOrBuildGraph\<close> throws for every override below 2 (for 0 and below exactly the error of
  \<^verbatim>\<open>buildMerkleTree\<close>) and caches nothing.
\<close>

theorem graph_too_small:
  assumes "n \<le> 1" and "map_of cache (graph_key caseId (Some n)) = None"
  shows "\<exists>e. getOrBuildGraph blake3 pow nowMs caseId (Some n) cache = (Inl e, cache) \<and>
    (n \<le> 0 \<longrightarrow> e = Thrown ''buildMerkleTree: empty evidence set'')"
proof (cases "n \<le> 0")
  case True
  then show ?thesis using assms by (simp add: getOrBuildGraph_def generateGraph_zero build_entry_empty)
next
  case False
  with assms(1) have "n = 1" by simp
  then show ?thesis using assms(2) generateGraph_one [of pow nowMs caseId] build_entry_empty
    by (auto simp: getOrBuildGraph_def split: sum.split)
qed

theorem graph_too_small_witness:
  "\<exists>e. getOrBuildGraph sample_hash (\<lambda>x. x) 1767225600000 ''case-0001'' (Some 1) [] = (Inl e, [])"
  using graph_too_small [of 1 "[]" "''case-0001''" sample_hash "\<lambda>x. x" 1767225600000] by auto

end
