(* ===== verification/Quadtree.thy ===== *)
theory Quadtree
  imports Js_Number
begin

text \<open>
  \<^verbatim>\<open>web/src/components/investigation-canvas/quadtree.ts\<close>: the point quadtree behind hit-testing and label
  culling. Coordinates are doubles, every operation on them rounds. A node either holds points or
  has four children. \<^verbatim>\<open>insert\<close> and \<^verbatim>\<open>subdivide\<close> call each other one level further down each time;
  \<open>fuel\<close> counts the levels and \<open>MAX_DEPTH + 1\<close> of them are always enough.
\<close>

section \<open>Code\<close>

record QuadPoint =
  qp_id :: string
  qp_x :: rat
  qp_y :: rat

record Bounds =
  b_x :: rat
  b_y :: rat
  b_w :: rat
  b_h :: rat

definition MAX_POINTS_PER_NODE :: nat where "MAX_POINTS_PER_NODE = 8"
definition MAX_DEPTH :: nat where "MAX_DEPTH = 12"

datatype QuadNode =
    QLeaf (q_bounds: Bounds) (q_depth: nat) "QuadPoint list"
  | QBranch (q_bounds: Bounds) (q_depth: nat) "QuadNode list"

definition contains :: "Bounds \<Rightarrow> QuadPoint \<Rightarrow> bool" where
  "contains b p \<longleftrightarrow>
     b_x b \<le> qp_x p \<and> qp_x p < js_add (b_x b) (b_w b) \<and> b_y b \<le> qp_y p \<and> qp_y p < js_add (b_y b) (b_h b)"

definition intersects :: "Bounds \<Rightarrow> Bounds \<Rightarrow> bool" where
  "intersects a b \<longleftrightarrow>
     b_x a < js_add (b_x b) (b_w b) \<and> b_x b < js_add (b_x a) (b_w a) \<and>
     b_y a < js_add (b_y b) (b_h b) \<and> b_y b < js_add (b_y a) (b_h a)"

definition quarters :: "Bounds \<Rightarrow> Bounds list" where
  "quarters b =
     (let hw = js_div (b_w b) 2; hh = js_div (b_h b) 2 in
      [\<lparr>b_x = b_x b, b_y = b_y b, b_w = hw, b_h = hh\<rparr>,
       \<lparr>b_x = js_add (b_x b) hw, b_y = b_y b, b_w = hw, b_h = hh\<rparr>,
       \<lparr>b_x = b_x b, b_y = js_add (b_y b) hh, b_w = hw, b_h = hh\<rparr>,
       \<lparr>b_x = js_add (b_x b) hw, b_y = js_add (b_y b) hh, b_w = hw, b_h = hh\<rparr>])"

fun insertIntoChildren :: "(QuadNode \<Rightarrow> QuadPoint \<Rightarrow> QuadNode) \<Rightarrow> QuadNode list \<Rightarrow> QuadPoint \<Rightarrow> QuadNode list" where
  "insertIntoChildren ins [] p = []"
| "insertIntoChildren ins (c # cs) p =
     (if contains (q_bounds c) p then ins c p # cs else c # insertIntoChildren ins cs p)"

definition subdivide :: "(QuadNode \<Rightarrow> QuadPoint \<Rightarrow> QuadNode) \<Rightarrow> Bounds \<Rightarrow> nat \<Rightarrow> QuadPoint list \<Rightarrow> QuadNode" where
  "subdivide ins b d ps =
     QBranch b d (foldl (insertIntoChildren ins) (map (\<lambda>q. QLeaf q (d + 1) []) (quarters b)) ps)"

fun insert_fuel :: "nat \<Rightarrow> QuadNode \<Rightarrow> QuadPoint \<Rightarrow> QuadNode" where
  "insert_fuel 0 node p = node"
| "insert_fuel (Suc fuel) node p =
     (if \<not> contains (q_bounds node) p then node
      else case node of
        QBranch b d cs \<Rightarrow> QBranch b d (insertIntoChildren (insert_fuel fuel) cs p)
      | QLeaf b d ps \<Rightarrow>
          if length (ps @ [p]) > MAX_POINTS_PER_NODE \<and> d < MAX_DEPTH
          then subdivide (insert_fuel fuel) b d (ps @ [p]) else QLeaf b d (ps @ [p]))"

definition q_insert :: "QuadNode \<Rightarrow> QuadPoint \<Rightarrow> QuadNode" where
  "q_insert = insert_fuel (Suc MAX_DEPTH)"

definition in_box :: "Bounds \<Rightarrow> QuadPoint \<Rightarrow> bool" where
  "in_box b p \<longleftrightarrow>
     b_x b \<le> qp_x p \<and> qp_x p \<le> js_add (b_x b) (b_w b) \<and> b_y b \<le> qp_y p \<and> qp_y p \<le> js_add (b_y b) (b_h b)"

fun queryRange :: "Bounds \<Rightarrow> QuadNode \<Rightarrow> QuadPoint list" where
  "queryRange bounds (QLeaf b d ps) = (if intersects b bounds then filter (in_box bounds) ps else [])"
| "queryRange bounds (QBranch b d cs) = (if intersects b bounds then concat (map (queryRange bounds) cs) else [])"

definition Quadtree :: "Bounds \<Rightarrow> QuadPoint list \<Rightarrow> QuadNode" where
  "Quadtree bounds points = foldl q_insert (QLeaf bounds 0 []) points"

definition dist_sq :: "rat \<Rightarrow> rat \<Rightarrow> QuadPoint \<Rightarrow> rat" where
  "dist_sq x y p =
     (let dx = js_sub (qp_x p) x; dy = js_sub (qp_y p) y in js_add (js_mul dx dx) (js_mul dy dy))"

definition closer :: "rat \<Rightarrow> rat \<Rightarrow> QuadPoint option \<times> rat \<Rightarrow> QuadPoint \<Rightarrow> QuadPoint option \<times> rat" where
  "closer x y = (\<lambda>(best, bestDistSq) p. if dist_sq x y p \<le> bestDistSq then (Some p, dist_sq x y p) else (best, bestDistSq))"

definition hit_box :: "rat \<Rightarrow> rat \<Rightarrow> rat \<Rightarrow> Bounds" where
  "hit_box x y radius = \<lparr>b_x = js_sub x radius, b_y = js_sub y radius, b_w = js_mul radius 2, b_h = js_mul radius 2\<rparr>"

definition nearest :: "QuadNode \<Rightarrow> rat \<Rightarrow> rat \<Rightarrow> rat \<Rightarrow> QuadPoint option" where
  "nearest tree x y radius =
     fst (foldl (closer x y) (None, js_mul radius radius) (queryRange (hit_box x y radius) tree))"

definition inRange :: "QuadNode \<Rightarrow> Bounds \<Rightarrow> QuadPoint list" where
  "inRange tree bounds = queryRange bounds tree"

section \<open>The invariant\<close>

fun q_points :: "QuadNode \<Rightarrow> QuadPoint list" where
  "q_points (QLeaf b d ps) = ps"
| "q_points (QBranch b d cs) = concat (map q_points cs)"

text \<open>Every point below a node lies in the bounds of the node; depths count the levels.\<close>

fun q_inv :: "QuadNode \<Rightarrow> bool" where
  "q_inv (QLeaf b d ps) \<longleftrightarrow> list_all (contains b) ps \<and> d \<le> MAX_DEPTH"
| "q_inv (QBranch b d cs) \<longleftrightarrow>
     d < MAX_DEPTH \<and> list_all (\<lambda>c. q_depth c = Suc d \<and> q_inv c \<and> list_all (contains b) (q_points c)) cs"

lemma q_inv_points: "q_inv t \<Longrightarrow> list_all (contains (q_bounds t)) (q_points t)"
  by (cases t) (auto simp: list_all_iff)

lemma insert_fuel_bounds [simp]: "q_bounds (insert_fuel n t p) = q_bounds t" "q_depth (insert_fuel n t p) = q_depth t"
  by (cases n; cases t; simp add: subdivide_def)+

lemma insertIntoChildren_bounds:
  assumes "\<And>c p. q_bounds (ins c p) = q_bounds c"
  shows "map q_bounds (insertIntoChildren ins cs p) = map q_bounds cs"
  by (induction cs) (auto simp: assms)

lemma insertIntoChildren_all:
  assumes "list_all P cs" "\<And>c. c \<in> set cs \<Longrightarrow> P c \<Longrightarrow> contains (q_bounds c) p \<Longrightarrow> P (ins c p)"
  shows "list_all P (insertIntoChildren ins cs p)"
  using assms by (induction cs) auto

abbreviation child_ok :: "Bounds \<Rightarrow> nat \<Rightarrow> QuadNode \<Rightarrow> bool" where
  "child_ok b d c \<equiv> q_depth c = Suc d \<and> q_inv c \<and> list_all (contains b) (q_points c)"

lemma new_children_ok: "d < MAX_DEPTH \<Longrightarrow> list_all (child_ok b d) (map (\<lambda>q. QLeaf q (d + 1) []) (quarters b))"
  by (simp add: list_all_iff)

text \<open>What one insertion may do to a child, for the insertion function of the level below.\<close>

definition inserts_ok :: "(QuadNode \<Rightarrow> QuadPoint \<Rightarrow> QuadNode) \<Rightarrow> bool" where
  "inserts_ok ins \<longleftrightarrow> (\<forall>t p. q_inv t \<longrightarrow>
     q_inv (ins t p) \<and> q_depth (ins t p) = q_depth t \<and> set (q_points (ins t p)) \<subseteq> insert p (set (q_points t)))"

lemma insertIntoChildren_ok:
  assumes "inserts_ok ins" "contains b p" "list_all (child_ok b d) cs"
  shows "list_all (child_ok b d) (insertIntoChildren ins cs p)"
proof (rule insertIntoChildren_all [OF assms(3)])
  fix c assume "child_ok b d c"
  moreover from this assms(1) have "q_inv (ins c p)" "q_depth (ins c p) = q_depth c"
    "set (q_points (ins c p)) \<subseteq> insert p (set (q_points c))" by (auto simp: inserts_ok_def)
  ultimately show "child_ok b d (ins c p)" using assms(2) by (auto simp: list_all_iff)
qed

lemma insertIntoChildren_points:
  assumes "inserts_ok ins" "list_all q_inv cs"
  shows "set (concat (map q_points (insertIntoChildren ins cs p))) \<subseteq> insert p (set (concat (map q_points cs)))"
  using assms(2)
proof (induction cs)
  case (Cons c cs)
  have "set (q_points (ins c p)) \<subseteq> insert p (set (q_points c))"
    using assms(1) Cons.prems by (simp add: inserts_ok_def)
  with Cons show ?case by auto
qed simp

lemma fold_children_ok:
  assumes "inserts_ok ins" "list_all (contains b) ps" "list_all (child_ok b d) cs"
  shows "list_all (child_ok b d) (foldl (insertIntoChildren ins) cs ps) \<and>
    set (concat (map q_points (foldl (insertIntoChildren ins) cs ps))) \<subseteq> set ps \<union> set (concat (map q_points cs))"
  using assms(2,3)
proof (induction ps arbitrary: cs)
  case (Cons p ps)
  have "list_all (child_ok b d) (insertIntoChildren ins cs p)"
    using Cons.prems by (intro insertIntoChildren_ok [OF assms(1)]) simp_all
  moreover have "set (concat (map q_points (insertIntoChildren ins cs p))) \<subseteq> insert p (set (concat (map q_points cs)))"
    using Cons.prems(2) by (intro insertIntoChildren_points [OF assms(1)]) (auto simp: list_all_iff)
  moreover have "list_all (contains b) ps" using Cons.prems(1) by simp
  ultimately show ?case
    using Cons.IH [of "insertIntoChildren ins cs p"] unfolding foldl.simps list.set by blast
qed simp

lemma insert_fuel_ok: "inserts_ok (insert_fuel n)"
proof (induction n)
  case 0
  show ?case by (auto simp: inserts_ok_def)
next
  case (Suc n)
  have "q_inv (insert_fuel (Suc n) t p) \<and> set (q_points (insert_fuel (Suc n) t p)) \<subseteq> insert p (set (q_points t))"
    if t: "q_inv t" for t p
  proof (cases "contains (q_bounds t) p")
    case True
    show ?thesis
    proof (cases t)
      case (QLeaf b d ps)
      have "list_all (contains b) (ps @ [p])" using t True by (simp add: QLeaf)
      from fold_children_ok [OF Suc this new_children_ok [of d]] t True show ?thesis
        by (auto simp: QLeaf subdivide_def)
    next
      case (QBranch b d cs)
      have "list_all (child_ok b d) cs" using t by (simp add: QBranch)
      then show ?thesis
        using t True insertIntoChildren_ok [OF Suc, of b p d cs] insertIntoChildren_points [OF Suc, of cs p]
        by (auto simp: QBranch list_all_iff)
    qed
  qed (use t in auto)
  then show ?case by (simp add: inserts_ok_def del: insert_fuel.simps)
qed

section \<open>Enough fuel\<close>

lemma insertIntoChildren_cong:
  "(\<And>c. c \<in> set cs \<Longrightarrow> f c p = g c p) \<Longrightarrow> insertIntoChildren f cs p = insertIntoChildren g cs p"
  by (induction cs) auto

lemma fold_children_cong:
  assumes "\<And>c p. child_ok b d c \<Longrightarrow> f c p = g c p" "inserts_ok f" "list_all (contains b) ps" "list_all (child_ok b d) cs"
  shows "foldl (insertIntoChildren f) cs ps = foldl (insertIntoChildren g) cs ps"
  using assms(3,4)
proof (induction ps arbitrary: cs)
  case (Cons p ps)
  have "insertIntoChildren f cs p = insertIntoChildren g cs p"
    using Cons.prems(2) assms(1) by (intro insertIntoChildren_cong) (auto simp: list_all_iff)
  moreover have "list_all (child_ok b d) (insertIntoChildren f cs p)"
    using Cons.prems by (intro insertIntoChildren_ok [OF assms(2)]) simp_all
  ultimately show ?case using Cons by simp
qed simp

lemma insert_fuel_enough:
  "q_inv t \<Longrightarrow> MAX_DEPTH < n + q_depth t \<Longrightarrow> insert_fuel (Suc n) t p = insert_fuel n t p"
proof (induction n arbitrary: t p)
  case 0
  then show ?case by (cases t) auto
next
  case (Suc n)
  show ?case
  proof (cases "contains (q_bounds t) p")
    case True
    show ?thesis
    proof (cases t)
      case (QLeaf b d ps)
      have ps: "list_all (contains b) (ps @ [p])" using Suc.prems True by (simp add: QLeaf)
      have "foldl (insertIntoChildren (insert_fuel (Suc n))) (map (\<lambda>q. QLeaf q (d + 1) []) (quarters b)) (ps @ [p]) =
          foldl (insertIntoChildren (insert_fuel n)) (map (\<lambda>q. QLeaf q (d + 1) []) (quarters b)) (ps @ [p])" if "d < MAX_DEPTH"
        using Suc.prems(2) that
        by (intro fold_children_cong [where b = b and d = d] Suc.IH insert_fuel_ok ps new_children_ok) (auto simp: QLeaf)
      with True show ?thesis by (simp add: QLeaf subdivide_def)
    next
      case (QBranch b d cs)
      have "insertIntoChildren (insert_fuel (Suc n)) cs p = insertIntoChildren (insert_fuel n) cs p"
        using Suc.prems by (intro insertIntoChildren_cong Suc.IH) (auto simp: QBranch list_all_iff)
      with True show ?thesis by (simp add: QBranch)
    qed
  qed simp
qed

section \<open>Exact halving\<close>

text \<open>
  Bounds whose coordinates are multiples of \<open>2^(-d)\<close> of moderate size: their sums and halves are
  doubles, so that the quarters tile the box.
\<close>

definition dyadic :: "nat \<Rightarrow> rat \<Rightarrow> bool" where
  "dyadic d v \<longleftrightarrow> (\<exists>m :: int. v = of_int m * pow2 (- int d))"

definition side_ok :: "nat \<Rightarrow> rat \<Rightarrow> rat \<Rightarrow> bool" where
  "side_ok d x w \<longleftrightarrow> dyadic d x \<and> dyadic d w \<and> 0 \<le> w \<and> - (2 ^ 38) \<le> x \<and> x + w \<le> 2 ^ 38"

definition box_ok :: "nat \<Rightarrow> Bounds \<Rightarrow> bool" where
  "box_ok d b \<longleftrightarrow> side_ok d (b_x b) (b_w b) \<and> side_ok d (b_y b) (b_h b)"

lemma pow2_minus_nat: "pow2 (- int d) = 1 / 2 ^ d"
  by (simp add: pow2_def)

lemma dyadic_exact:
  assumes "dyadic d v" "d \<le> 13" "\<bar>v\<bar> \<le> 2 ^ 40"
  shows "fl v = v"
proof -
  obtain m where m: "v = of_int m * pow2 (- int d)" using assms(1) by (auto simp: dyadic_def)
  have "\<bar>of_int m\<bar> = \<bar>v\<bar> * 2 ^ d" by (simp add: m pow2_minus_nat abs_mult)
  also have "\<dots> \<le> 2 ^ 40 * 2 ^ 13"
    using assms(2,3) by (intro mult_mono power_increasing) auto
  finally have "\<bar>of_int m :: rat\<bar> \<le> of_int (2 ^ 53)" by simp
  then have "\<bar>m\<bar> \<le> 2 ^ 53" by (simp only: of_int_abs [symmetric] of_int_le_iff)
  then show ?thesis unfolding m by (rule fl_dyadic)
qed

lemma dyadic_Suc: "dyadic d v \<Longrightarrow> dyadic (Suc d) v"
proof -
  assume "dyadic d v"
  then obtain m where m: "v = of_int m * pow2 (- int d)" by (auto simp: dyadic_def)
  have "v = of_int (2 * m) * pow2 (- int (Suc d))" by (simp add: m pow2_minus_nat del: of_nat_Suc)
  then show ?thesis unfolding dyadic_def by blast
qed

lemma dyadic_half: "dyadic d v \<Longrightarrow> dyadic (Suc d) (v / 2)"
proof -
  assume "dyadic d v"
  then obtain m where m: "v = of_int m * pow2 (- int d)" by (auto simp: dyadic_def)
  have "v / 2 = of_int m * pow2 (- int (Suc d))" by (simp add: m pow2_minus_nat del: of_nat_Suc)
  then show ?thesis unfolding dyadic_def by blast
qed

lemma dyadic_add: "dyadic d v \<Longrightarrow> dyadic d w \<Longrightarrow> dyadic d (v + w)"
  unfolding dyadic_def by (metis distrib_right of_int_add)

lemma side_exact:
  assumes "side_ok d x w" "d \<le> 12"
  shows "js_add x w = x + w" "js_div w 2 = w / 2" "js_add x (w / 2) = x + w / 2" "js_add (x + w / 2) (w / 2) = x + w"
    and "side_ok (Suc d) x (w / 2)" "side_ok (Suc d) (x + w / 2) (w / 2)"
proof -
  have d: "dyadic (Suc d) x" "dyadic (Suc d) w" "dyadic (Suc d) (w / 2)" "0 \<le> w" "- (2 ^ 38) \<le> x" "x + w \<le> 2 ^ 38"
    using assms by (auto simp: side_ok_def intro: dyadic_Suc dyadic_half)
  have ex: "fl v = v" if "dyadic (Suc d) v" "\<bar>v\<bar> \<le> 2 ^ 40" for v
    using that assms(2) by (intro dyadic_exact [of "Suc d"]) auto
  have "w \<le> 2 ^ 39" using d by simp
  then have b: "\<bar>x + w\<bar> \<le> 2 ^ 40" "\<bar>w / 2\<bar> \<le> 2 ^ 40" "\<bar>x + w / 2\<bar> \<le> 2 ^ 40" using d by (auto simp: abs_le_iff)
  have s: "(x + w / 2) + w / 2 = x + w" by simp
  show "js_add x w = x + w" "js_div w 2 = w / 2" "js_add x (w / 2) = x + w / 2" "js_add (x + w / 2) (w / 2) = x + w"
    using d b s by (simp_all add: js_add_def js_div_def ex dyadic_add)
  show "side_ok (Suc d) x (w / 2)" "side_ok (Suc d) (x + w / 2) (w / 2)"
    using d by (auto simp: side_ok_def dyadic_add)
qed

lemma quarters_ok:
  assumes "box_ok d b" "d \<le> 12"
  shows "list_all (box_ok (Suc d)) (quarters b)" "contains b p \<Longrightarrow> list_ex (\<lambda>q. contains q p) (quarters b)"
proof -
  have x: "side_ok d (b_x b) (b_w b)" and y: "side_ok d (b_y b) (b_h b)" using assms(1) by (simp_all add: box_ok_def)
  note ex = side_exact [OF x assms(2)] side_exact [OF y assms(2)]
  show "list_all (box_ok (Suc d)) (quarters b)" by (simp add: quarters_def Let_def box_ok_def ex)
  show "list_ex (\<lambda>q. contains q p) (quarters b)" if "contains b p"
    using that by (auto simp: quarters_def Let_def contains_def ex)
qed

section \<open>Every point is kept\<close>

text \<open>The boxes of a tree: exact bounds, and the children of a node are its quarters.\<close>

fun q_full :: "QuadNode \<Rightarrow> bool" where
  "q_full (QLeaf b d ps) \<longleftrightarrow> box_ok d b"
| "q_full (QBranch b d cs) \<longleftrightarrow> box_ok d b \<and> map q_bounds cs = quarters b \<and> list_all q_full cs"

abbreviation points_of :: "QuadNode list \<Rightarrow> QuadPoint multiset" where
  "points_of cs \<equiv> mset (concat (map q_points cs))"

definition stores :: "nat \<Rightarrow> (QuadNode \<Rightarrow> QuadPoint \<Rightarrow> QuadNode) \<Rightarrow> bool" where
  "stores d ins \<longleftrightarrow> (\<forall>t p. q_inv t \<longrightarrow> q_full t \<longrightarrow> q_depth t = d \<longrightarrow> contains (q_bounds t) p \<longrightarrow>
     mset (q_points (ins t p)) = add_mset p (mset (q_points t)) \<and> q_full (ins t p) \<and> q_bounds (ins t p) = q_bounds t)"

abbreviation good_child :: "Bounds \<Rightarrow> nat \<Rightarrow> QuadNode \<Rightarrow> bool" where
  "good_child b d c \<equiv> child_ok b d c \<and> q_full c"

lemma insertIntoChildren_stores:
  assumes "stores (Suc d) ins" "list_all (good_child b d) cs" "list_ex (\<lambda>q. contains q p) (map q_bounds cs)"
  shows "points_of (insertIntoChildren ins cs p) = add_mset p (points_of cs) \<and>
    list_all q_full (insertIntoChildren ins cs p) \<and> map q_bounds (insertIntoChildren ins cs p) = map q_bounds cs"
  using assms(2,3)
proof (induction cs)
  case (Cons c cs)
  show ?case
  proof (cases "contains (q_bounds c) p")
    case True
    with assms(1) Cons.prems(1) have "mset (q_points (ins c p)) = add_mset p (mset (q_points c)) \<and> q_full (ins c p) \<and>
        q_bounds (ins c p) = q_bounds c"
      by (simp add: stores_def)
    with True Cons.prems(1) show ?thesis by (auto simp: list_all_iff)
  next
    case False
    with Cons show ?thesis by simp
  qed
qed simp

lemma fold_children_stores:
  assumes "stores (Suc d) ins" "inserts_ok ins" "box_ok d b" "d \<le> 12"
    and "list_all (contains b) ps" "list_all (good_child b d) cs" "map q_bounds cs = quarters b"
  shows "points_of (foldl (insertIntoChildren ins) cs ps) = mset ps + points_of cs \<and>
    list_all q_full (foldl (insertIntoChildren ins) cs ps) \<and> map q_bounds (foldl (insertIntoChildren ins) cs ps) = quarters b"
  using assms(5-7)
proof (induction ps arbitrary: cs)
  case (Cons p ps)
  let ?cs = "insertIntoChildren ins cs p"
  have ex: "list_ex (\<lambda>q. contains q p) (map q_bounds cs)"
    using Cons.prems quarters_ok(2) [OF assms(3,4)] by simp
  have st: "points_of ?cs = add_mset p (points_of cs)" "list_all q_full ?cs" "map q_bounds ?cs = quarters b"
    using insertIntoChildren_stores [OF assms(1) Cons.prems(2) ex] Cons.prems(3) by simp_all
  have "list_all (child_ok b d) ?cs"
    using Cons.prems by (intro insertIntoChildren_ok [OF assms(2)]) (simp_all add: list_all_iff)
  with st have "list_all (good_child b d) ?cs" by (simp add: list_all_iff)
  from Cons.IH [OF _ this st(3)] Cons.prems(1) st(1) show ?case by simp
qed (simp add: list_all_iff)

lemma insert_fuel_stores: "MAX_DEPTH < n + d \<Longrightarrow> stores d (insert_fuel n)"
proof (induction n arbitrary: d)
  case 0
  show ?case unfolding stores_def
  proof (intro allI impI)
    fix t p
    assume "q_inv t" "q_depth t = d"
    with 0 show "mset (q_points (insert_fuel 0 t p)) = add_mset p (mset (q_points t)) \<and> q_full (insert_fuel 0 t p) \<and>
      q_bounds (insert_fuel 0 t p) = q_bounds t" by (cases t) auto
  qed
next
  case (Suc n)
  have IH: "stores (Suc d) (insert_fuel n)" using Suc by simp
  show ?case unfolding stores_def
  proof (intro allI impI)
    fix t p
    assume t: "q_inv t" "q_full t" "q_depth t = d" "contains (q_bounds t) p"
    show "mset (q_points (insert_fuel (Suc n) t p)) = add_mset p (mset (q_points t)) \<and> q_full (insert_fuel (Suc n) t p) \<and>
      q_bounds (insert_fuel (Suc n) t p) = q_bounds t"
    proof (cases t)
      case (QLeaf b e ps)
      let ?cs = "map (\<lambda>q. QLeaf q (d + 1) []) (quarters b)"
      have b: "box_ok d b" "d \<le> 12" "list_all (contains b) (ps @ [p])"
        using t by (simp_all add: QLeaf MAX_DEPTH_def)
      have cs: "list_all (good_child b d) ?cs" "map q_bounds ?cs = quarters b" if "d < MAX_DEPTH"
        using that quarters_ok(1) [OF b(1,2)] by (simp_all add: list_all_iff comp_def)
      show ?thesis
        using t b fold_children_stores [OF IH insert_fuel_ok b cs]
        by (auto simp: QLeaf subdivide_def)
    next
      case (QBranch b e cs)
      have b: "box_ok d b" "d \<le> 12" "list_all (good_child b d) cs" "map q_bounds cs = quarters b"
        using t by (auto simp: QBranch MAX_DEPTH_def list_all_iff)
      have "list_ex (\<lambda>q. contains q p) (map q_bounds cs)" using quarters_ok(2) [OF b(1,2)] b(4) t(4) by (simp add: QBranch)
      from insertIntoChildren_stores [OF IH b(3) this] t b show ?thesis by (simp add: QBranch)
    qed
  qed
qed

lemma insert_ignores: "\<not> contains (q_bounds t) p \<Longrightarrow> q_insert t p = t"
  by (simp add: q_insert_def)

lemma Quadtree_fold:
  assumes "q_inv t" "q_full t" "q_depth t = 0"
  shows "mset (q_points (foldl q_insert t ps)) = mset (q_points t) + mset (filter (contains (q_bounds t)) ps) \<and>
    q_inv (foldl q_insert t ps) \<and> q_full (foldl q_insert t ps) \<and> q_depth (foldl q_insert t ps) = 0"
  using assms
proof (induction ps arbitrary: t)
  case (Cons p ps)
  show ?case
  proof (cases "contains (q_bounds t) p")
    case True
    have st: "mset (q_points (q_insert t p)) = add_mset p (mset (q_points t))" "q_full (q_insert t p)"
      "q_bounds (q_insert t p) = q_bounds t" "q_inv (q_insert t p)" "q_depth (q_insert t p) = 0"
      using insert_fuel_stores [of "Suc MAX_DEPTH" 0] insert_fuel_ok [of "Suc MAX_DEPTH"] Cons.prems True
      by (simp_all only: stores_def inserts_ok_def q_insert_def)
    from Cons.IH [OF st(4,2,5)] st True show ?thesis by simp
  next
    case False
    with Cons show ?thesis by (simp add: insert_ignores)
  qed
qed simp

lemma Quadtree_points:
  assumes "box_ok 0 b"
  shows "mset (q_points (Quadtree b pts)) = mset (filter (contains b) pts)" "q_inv (Quadtree b pts)"
    "q_full (Quadtree b pts)" "q_depth (Quadtree b pts) = 0"
  using Quadtree_fold [of "QLeaf b 0 []" pts] assms by (simp_all add: Quadtree_def)

section \<open>Queries\<close>

lemma contains_intersects: "contains b p \<Longrightarrow> contains q p \<Longrightarrow> intersects b q"
  by (auto simp: contains_def intersects_def)

lemma contains_in_box: "contains b p \<Longrightarrow> in_box b p"
  by (auto simp: contains_def in_box_def)

text \<open>
  The boxes of a tree, and the one way a point of the closed query box goes unseen: a box that holds
  the point begins exactly where the query box ends, on its right or its bottom edge.
\<close>

fun q_nodes :: "QuadNode \<Rightarrow> Bounds list" where
  "q_nodes (QLeaf b d ps) = [b]"
| "q_nodes (QBranch b d cs) = b # concat (map q_nodes cs)"

definition edge_hidden :: "Bounds \<Rightarrow> Bounds \<Rightarrow> QuadPoint \<Rightarrow> bool" where
  "edge_hidden q n p \<longleftrightarrow> contains n p \<and> (b_x n = js_add (b_x q) (b_w q) \<or> b_y n = js_add (b_y q) (b_h q))"

lemma intersects_iff: "contains n p \<Longrightarrow> in_box q p \<Longrightarrow> intersects n q \<longleftrightarrow> \<not> edge_hidden q n p"
  by (auto simp: contains_def in_box_def intersects_def edge_hidden_def)

lemma inner_not_hidden: "contains q p \<Longrightarrow> \<not> edge_hidden q n p"
  by (auto simp: contains_def edge_hidden_def)

text \<open>The quarters of a box lie in it, and no point lies in two of them.\<close>

lemma quarter_inside:
  assumes "box_ok d b" "d \<le> 12" "c \<in> set (quarters b)" "contains c p"
  shows "contains b p"
proof -
  have x: "side_ok d (b_x b) (b_w b)" and y: "side_ok d (b_y b) (b_h b)" using assms(1) by (simp_all add: box_ok_def)
  have "0 \<le> b_w b" "0 \<le> b_h b" using x y by (simp_all add: side_ok_def)
  then show ?thesis
    using assms(3,4) by (auto simp: quarters_def Let_def contains_def side_exact [OF x assms(2)] side_exact [OF y assms(2)])
qed

lemma quarter_unique:
  assumes "box_ok d b" "d \<le> 12" "i < 4" "j < 4" "contains (quarters b ! i) p" "contains (quarters b ! j) p"
  shows "i = j"
proof -
  have x: "side_ok d (b_x b) (b_w b)" and y: "side_ok d (b_y b) (b_h b)" using assms(1) by (simp_all add: box_ok_def)
  note ex = side_exact [OF x assms(2)] side_exact [OF y assms(2)]
  have "i \<in> {0, 1, 2, 3}" "j \<in> {0, 1, 2, 3}" using assms(3,4) by auto
  then show ?thesis using assms(5,6) by (auto simp: quarters_def Let_def contains_def ex)
qed

lemma nodes_inside:
  "q_inv t \<Longrightarrow> q_full t \<Longrightarrow> box_ok (q_depth t) (q_bounds t) \<and> (\<forall>n \<in> set (q_nodes t). contains n p \<longrightarrow> contains (q_bounds t) p)"
proof (induction t)
  case (QBranch b d cs)
  have b: "box_ok d b" "d \<le> 12" "map q_bounds cs = quarters b" using QBranch.prems by (simp_all add: MAX_DEPTH_def)
  have "contains b p" if c: "c \<in> set cs" "n \<in> set (q_nodes c)" "contains n p" for c n
  proof -
    have "contains (q_bounds c) p" using QBranch.IH [OF c(1)] QBranch.prems c by (auto simp: list_all_iff)
    moreover have "q_bounds c \<in> set (quarters b)" using c(1) b(3) by (metis imageI list.set_map)
    ultimately show ?thesis using quarter_inside [OF b(1,2)] by blast
  qed
  with b show ?case by auto
qed simp

text \<open>Only the boxes on the way down to a point hold it.\<close>

lemma hidden_in_child:
  assumes "q_inv (QBranch b d cs)" "q_full (QBranch b d cs)" "c \<in> set cs" "p \<in> set (q_points c)"
    and "c' \<in> set cs" "n \<in> set (q_nodes c')" "contains n p"
  shows "c' = c"
proof -
  have b: "box_ok d b" "d \<le> 12" "map q_bounds cs = quarters b" using assms(1,2) by (simp_all add: MAX_DEPTH_def)
  have len: "length cs = 4" using arg_cong [OF b(3), of length] by (simp add: quarters_def Let_def)
  have "contains (q_bounds c) p" using assms(1,3,4) q_inv_points [of c] by (auto simp: list_all_iff)
  moreover have "contains (q_bounds c') p" using nodes_inside [of c' p] assms(1,2,5-7) by (auto simp: list_all_iff)
  moreover obtain i j where ij: "i < 4" "cs ! i = c" "j < 4" "cs ! j = c'" using assms(3,5) len by (metis in_set_conv_nth)
  moreover have "quarters b ! k = q_bounds (cs ! k)" if "k < 4" for k using that len b(3) by (metis nth_map)
  ultimately show ?thesis using quarter_unique [OF b(1,2) ij(1,3), of p] by auto
qed

lemma queryRange_exact:
  "q_inv t \<Longrightarrow> q_full t \<Longrightarrow>
     queryRange q t = filter (\<lambda>p. in_box q p \<and> \<not> list_ex (\<lambda>n. edge_hidden q n p) (q_nodes t)) (q_points t)"
proof (induction t)
  case (QLeaf b d ps)
  then have "intersects b q \<longleftrightarrow> \<not> edge_hidden q b p" if "p \<in> set ps" "in_box q p" for p
    using that intersects_iff by (simp add: list_all_iff)
  then show ?case by (cases "intersects b q") (auto simp: empty_filter_conv intro!: filter_cong)
next
  case (QBranch b d cs)
  have con: "contains b p" if "c \<in> set cs" "p \<in> set (q_points c)" for c p
    using that QBranch.prems by (auto simp: list_all_iff)
  let ?seen = "\<lambda>ns p. in_box q p \<and> \<not> list_ex (\<lambda>n. edge_hidden q n p) ns"
  show ?case
  proof (cases "intersects b q")
    case False
    have "\<not> ?seen (b # ns) p" if "c \<in> set cs" "p \<in> set (q_points c)" for c p ns
      using False intersects_iff [OF con [OF that], of q] by auto
    then show ?thesis using False by (auto simp: filter_empty_conv)
  next
    case True
    have "?seen (q_nodes c) p \<longleftrightarrow> ?seen (q_nodes (QBranch b d cs)) p" if c: "c \<in> set cs" "p \<in> set (q_points c)" for c p
    proof -
      have "\<not> edge_hidden q b p" if "in_box q p" using True intersects_iff [OF con [OF c] that] by simp
      moreover have "n \<in> set (q_nodes c)" if "c' \<in> set cs" "n \<in> set (q_nodes c')" "edge_hidden q n p" for c' n
        using hidden_in_child [OF QBranch.prems c that(1,2)] that(2,3) by (simp add: edge_hidden_def)
      ultimately show ?thesis using c(1) by (auto simp: list_ex_iff)
    qed
    then have "queryRange q c = filter (?seen (q_nodes (QBranch b d cs))) (q_points c)" if "c \<in> set cs" for c
      using that QBranch.IH [OF that] QBranch.prems by (auto simp: list_all_iff intro!: filter_cong)
    then show ?thesis using True by (simp add: filter_concat comp_def cong: map_cong)
  qed
qed

lemma closer_fold:
  assumes "foldl (closer x y) (best, r) ps = (best', r')"
  shows "r' \<le> r \<and> (best' = best \<and> r' = r \<and> (\<forall>p \<in> set ps. r < dist_sq x y p) \<or>
    (\<exists>p \<in> set ps. best' = Some p \<and> r' = dist_sq x y p \<and> (\<forall>q \<in> set ps. r' \<le> dist_sq x y q)))"
  using assms
proof (induction ps arbitrary: best r)
  case (Cons p ps)
  show ?case
  proof (cases "dist_sq x y p \<le> r")
    case True
    with Cons.prems have "foldl (closer x y) (Some p, dist_sq x y p) ps = (best', r')" by (simp add: closer_def)
    from Cons.IH [OF this] True show ?thesis by fastforce
  next
    case False
    with Cons.prems have "foldl (closer x y) (best, r) ps = (best', r')" by (simp add: closer_def)
    from Cons.IH [OF this] False show ?thesis by fastforce
  qed
qed simp

section \<open>Properties\<close>

text \<open>
  C25: insertion terminates. On every tree the code can build, \<open>13\<close> levels of recursion are enough for
  an insertion into the root and \<open>13 - depth\<close> for one into a node further down: more fuel changes
  nothing, and the result is again such a tree, holding the point and what was there before.
\<close>

theorem insert_terminates:
  assumes "q_inv t" and "q_full t" and "MAX_DEPTH < n + q_depth t"
  shows "insert_fuel (n + k) t p = insert_fuel n t p \<and> q_inv (insert_fuel n t p) \<and>
    mset (q_points (insert_fuel n t p)) = (if contains (q_bounds t) p then add_mset p (mset (q_points t)) else mset (q_points t))"
proof (intro conjI)
  show "insert_fuel (n + k) t p = insert_fuel n t p"
    using assms insert_fuel_enough [OF assms(1)] by (induction k) simp_all
  show "q_inv (insert_fuel n t p)" using insert_fuel_ok [of n] assms(1) by (simp add: inserts_ok_def)
  have "\<not> contains (q_bounds t) p \<Longrightarrow> insert_fuel n t p = t" by (cases n) simp_all
  then show "mset (q_points (insert_fuel n t p)) =
      (if contains (q_bounds t) p then add_mset p (mset (q_points t)) else mset (q_points t))"
    using insert_fuel_stores [OF assms(3)] assms(1,2) by (auto simp: stores_def)
qed

definition unit_box :: Bounds where
  "unit_box = \<lparr>b_x = 0, b_y = 0, b_w = 2, b_h = 2\<rparr>"

lemma unit_box_ok: "box_ok 0 unit_box"
proof -
  have "dyadic 0 0" "dyadic 0 2" unfolding dyadic_def by (rule exI [of _ 0], simp, rule exI [of _ 2], simp add: pow2_def)
  then show ?thesis by (simp add: box_ok_def unit_box_def side_ok_def)
qed

theorem insert_terminates_witness:
  "insert_fuel (13 + 7) (QLeaf unit_box 0 []) \<lparr>qp_id = ''a'', qp_x = 1, qp_y = 1\<rparr> =
   insert_fuel 13 (QLeaf unit_box 0 []) \<lparr>qp_id = ''a'', qp_x = 1, qp_y = 1\<rparr>"
  using insert_terminates [of "QLeaf unit_box 0 []" 13 7 "\<lparr>qp_id = ''a'', qp_x = 1, qp_y = 1\<rparr>"] unit_box_ok
  by (simp add: MAX_DEPTH_def)

text \<open>
  C24: the queries, exactly. For bounds on the integer grid, as the canvas computes them, the tree
  holds exactly the given points inside its bounds, and a range query answers like a scan of those
  points by the closed query box, with one exception: a point on the right or bottom edge of the query
  box is not found when a box of the tree that holds it begins on that edge. (The comment of
  \<^verbatim>\<open>queryRange\<close> promises every point within the box.) So every point of the half-open query box is found.
  \<^verbatim>\<open>nearest\<close> returns a point of its search box, as found by the range query, that lies within the radius
  and than which none found is closer, or nothing when none found lies within the radius.
\<close>

theorem quadtree_query_exact:
  assumes "box_ok 0 b"
  shows "mset (q_points (Quadtree b pts)) = mset (filter (contains b) pts) \<and>
    mset (inRange (Quadtree b pts) q) = mset (filter (\<lambda>p. contains b p \<and> in_box q p \<and>
      \<not> list_ex (\<lambda>n. edge_hidden q n p) (q_nodes (Quadtree b pts))) pts) \<and>
    {p \<in> set pts. contains b p \<and> contains q p} \<subseteq> set (inRange (Quadtree b pts) q) \<and>
    (case nearest (Quadtree b pts) x y r of
       None \<Rightarrow> \<forall>p \<in> set (inRange (Quadtree b pts) (hit_box x y r)). js_mul r r < dist_sq x y p
     | Some best \<Rightarrow> best \<in> set (inRange (Quadtree b pts) (hit_box x y r)) \<and> dist_sq x y best \<le> js_mul r r \<and>
         (\<forall>p \<in> set (inRange (Quadtree b pts) (hit_box x y r)). dist_sq x y best \<le> dist_sq x y p))"
proof (intro conjI)
  let ?t = "Quadtree b pts" and ?hid = "\<lambda>p. list_ex (\<lambda>n. edge_hidden q n p) (q_nodes (Quadtree b pts))"
  note pts = Quadtree_points [OF assms, of pts]
  show "mset (q_points ?t) = mset (filter (contains b) pts)" by (rule pts(1))
  have "mset (inRange ?t q) = mset (filter (\<lambda>p. in_box q p \<and> \<not> ?hid p) (q_points ?t))"
    by (simp only: inRange_def queryRange_exact [OF pts(2,3)])
  also have "\<dots> = filter_mset (\<lambda>p. in_box q p \<and> \<not> ?hid p) (mset (filter (contains b) pts))" by (simp only: mset_filter pts(1))
  also have "\<dots> = mset (filter (\<lambda>p. contains b p \<and> in_box q p \<and> \<not> ?hid p) pts)"
    by (simp add: mset_filter [symmetric] conj_commute conj_assoc conj_left_commute del: mset_filter)
  finally show found: "mset (inRange ?t q) = mset (filter (\<lambda>p. contains b p \<and> in_box q p \<and> \<not> ?hid p) pts)" .
  from arg_cong [OF found, of set_mset]
  show "{p \<in> set pts. contains b p \<and> contains q p} \<subseteq> set (inRange ?t q)"
    by (auto simp: list_ex_iff inner_not_hidden contains_in_box)
  obtain best r' where f: "foldl (closer x y) (None, js_mul r r) (inRange ?t (hit_box x y r)) = (best, r')" by fastforce
  then have "nearest ?t x y r = best" by (simp add: nearest_def inRange_def)
  with closer_fold [OF f]
  show "case nearest ?t x y r of
       None \<Rightarrow> \<forall>p \<in> set (inRange ?t (hit_box x y r)). js_mul r r < dist_sq x y p
     | Some best \<Rightarrow> best \<in> set (inRange ?t (hit_box x y r)) \<and> dist_sq x y best \<le> js_mul r r \<and>
         (\<forall>p \<in> set (inRange ?t (hit_box x y r)). dist_sq x y best \<le> dist_sq x y p)"
    by (cases best) auto
qed

definition sample_points :: "QuadPoint list" where
  "sample_points = map (\<lambda>i. \<lparr>qp_id = show_int (int i), qp_x = (if i = 0 then 1 else 0), qp_y = 0\<rparr>) [0..<9]"

lemma sample_nodes: "q_nodes (Quadtree unit_box sample_points) = unit_box # quarters unit_box"
  by code_simp

theorem quadtree_query_exact_witness:
  "mset (q_points (Quadtree unit_box sample_points)) = mset sample_points \<and>
   mset (inRange (Quadtree unit_box sample_points) \<lparr>b_x = 0, b_y = 0, b_w = 1, b_h = 1\<rparr>) = mset (tl sample_points)"
proof -
  let ?q = "\<lparr>b_x = 0, b_y = 0, b_w = 1, b_h = 1\<rparr>" and ?t = "Quadtree unit_box sample_points"
  have "filter (contains unit_box) sample_points = sample_points" by code_simp
  moreover have "filter (\<lambda>p. contains unit_box p \<and> in_box ?q p \<and> \<not> list_ex (\<lambda>n. edge_hidden ?q n p) (q_nodes ?t)) sample_points
      = tl sample_points" unfolding sample_nodes by code_simp
  ultimately show ?thesis using quadtree_query_exact [OF unit_box_ok, of sample_points ?q] by simp
qed

text \<open>
  The closed box is not always answered in full: a point on its right edge is missed when that edge
  is also the left edge of the quarter that holds the point.
\<close>

lemma right_edge_missed:
  "let q = \<lparr>b_x = 0, b_y = 0, b_w = 1, b_h = 1\<rparr>; p = hd sample_points
   in contains unit_box p \<and> in_box q p \<and> p \<notin> set (inRange (Quadtree unit_box sample_points) q)"
  by code_simp

end
