(* ===== verification/Session.thy ===== *)
theory Session
  imports Kernel_Wasm
begin

text \<open>
  The sign-in scaffold: \<^verbatim>\<open>web/src/lib/auth/session.ts\<close> (signed cookie), \<^verbatim>\<open>middleware.ts\<close> (presence
  gate), \<^verbatim>\<open>app/login/actions.ts\<close> and \<^verbatim>\<open>app/(console)/actions.ts\<close> (sign in and out) and the guard of
  \<^verbatim>\<open>app/(console)/layout.tsx\<close>. HMAC-SHA256 (\<^verbatim>\<open>node:crypto\<close>) is a parameter \<open>hmac\<close> of key and message.
  A cookie jar is what the browser sends; cookie expiry is up to the browser and not modelled.
\<close>

section \<open>\<^verbatim>\<open>base64url\<close>\<close>

definition b64_chars :: string where
  "b64_chars = ''ABCDEFGHIJKLMNOPQRSTUVWXYZabcdefghijklmnopqrstuvwxyz0123456789-_''"

abbreviation b64_char :: "nat \<Rightarrow> char" where
  "b64_char d \<equiv> b64_chars ! d"

fun b64_encode :: "bytes \<Rightarrow> string" where
  "b64_encode [] = []"
| "b64_encode [a] = [b64_char (unat a div 4), b64_char (unat a mod 4 * 16)]"
| "b64_encode [a, b] = [b64_char (unat a div 4), b64_char (unat a mod 4 * 16 + unat b div 16), b64_char (unat b mod 16 * 4)]"
| "b64_encode (a # b # c # bs) =
     b64_char (unat a div 4) # b64_char (unat a mod 4 * 16 + unat b div 16) #
     b64_char (unat b mod 16 * 4 + unat c div 64) # b64_char (unat c mod 64) # b64_encode bs"

text \<open>\<^verbatim>\<open>Buffer.from(s, "base64url")\<close> takes both alphabets and skips every other character.\<close>

definition b64_value :: "char \<Rightarrow> nat option" where
  "b64_value c = (if c = CHR ''+'' then Some 62 else if c = CHR ''/'' then Some 63 else index_of b64_chars c)"

fun b64_groups :: "nat list \<Rightarrow> bytes" where
  "b64_groups [] = []"
| "b64_groups [w] = []"
| "b64_groups [w, x] = [of_nat (w * 4 + x div 16)]"
| "b64_groups [w, x, y] = [of_nat (w * 4 + x div 16), of_nat (x mod 16 * 16 + y div 4)]"
| "b64_groups (w # x # y # z # ds) =
     of_nat (w * 4 + x div 16) # of_nat (x mod 16 * 16 + y div 4) # of_nat (y mod 4 * 64 + z) # b64_groups ds"

definition b64_decode :: "string \<Rightarrow> bytes" where
  "b64_decode s = b64_groups (List.map_filter b64_value s)"

lemma b64_table: "length b64_chars = 64" "distinct b64_chars" "CHR ''.'' \<notin> set b64_chars"
  "CHR ''+'' \<notin> set b64_chars" "CHR ''/'' \<notin> set b64_chars"
  by (simp_all add: b64_chars_def)

lemma b64_value_char: "d < 64 \<Longrightarrow> b64_value (b64_char d) = Some d"
proof -
  assume d: "d < 64"
  have "b64_char d \<in> set b64_chars" using d b64_table(1) by simp
  then have ne: "b64_char d \<noteq> CHR ''+''" "b64_char d \<noteq> CHR ''/''" using b64_table(4,5) by metis+
  obtain i where i: "index_of b64_chars (b64_char d) = Some i"
    using \<open>b64_char d \<in> set b64_chars\<close> by (cases "index_of b64_chars (b64_char d)") (auto simp: index_of_None)
  with index_of_Some [OF i] d ne show ?thesis
    using b64_table(1) nth_eq_iff_index_eq [OF b64_table(2), of i d] by (simp add: b64_value_def)
qed

lemma byte_less: "unat (a :: byte) < 256"
  using unsigned_less [of a] by simp

lemma byte_of_unat: "of_nat (unat a) = (a :: byte)"
  by simp

lemma b64_sextets:
  "unat (a :: byte) div 4 < 64" "unat a mod 4 * 16 < 64" "unat a mod 4 * 16 + unat (b :: byte) div 16 < 64"
  "unat b mod 16 * 4 < 64" "unat b mod 16 * 4 + unat (c :: byte) div 64 < 64" "unat c mod 64 < 64"
  using byte_less [of a] byte_less [of b] byte_less [of c] by simp_all

lemma sextet_bytes:
  fixes x y z :: nat
  shows "x div 4 * 4 + (x mod 4 * 16) div 16 = x"
    "y < 256 \<Longrightarrow> x div 4 * 4 + (x mod 4 * 16 + y div 16) div 16 = x"
    "y < 256 \<Longrightarrow> (x mod 4 * 16 + y div 16) mod 16 * 16 + (y mod 16 * 4) div 4 = y"
    "y < 256 \<Longrightarrow> z < 256 \<Longrightarrow> (x mod 4 * 16 + y div 16) mod 16 * 16 + (y mod 16 * 4 + z div 64) div 4 = y"
    "z < 256 \<Longrightarrow> (y mod 16 * 4 + z div 64) mod 4 * 64 + z mod 64 = z"
proof -
  have "(x mod 4 * 16 + k) div 16 = x mod 4" "(x mod 4 * 16 + k) mod 16 = k" if "k < 16" for k :: nat
    using that by simp_all
  moreover have "(y mod 16 * 4 + k) div 4 = y mod 16" "(y mod 16 * 4 + k) mod 4 = k" if "k < 4" for k :: nat
    using that by simp_all
  moreover have "y < 256 \<Longrightarrow> y div 16 < 16" "z < 256 \<Longrightarrow> z div 64 < 4" by auto
  ultimately show "x div 4 * 4 + (x mod 4 * 16) div 16 = x"
    "y < 256 \<Longrightarrow> x div 4 * 4 + (x mod 4 * 16 + y div 16) div 16 = x"
    "y < 256 \<Longrightarrow> (x mod 4 * 16 + y div 16) mod 16 * 16 + (y mod 16 * 4) div 4 = y"
    "y < 256 \<Longrightarrow> z < 256 \<Longrightarrow> (x mod 4 * 16 + y div 16) mod 16 * 16 + (y mod 16 * 4 + z div 64) div 4 = y"
    "z < 256 \<Longrightarrow> (y mod 16 * 4 + z div 64) mod 4 * 64 + z mod 64 = z"
    by simp_all
qed

lemma b64_roundtrip: "b64_decode (b64_encode bs) = bs"
  by (induction bs rule: b64_encode.induct)
     (simp_all only: b64_decode_def b64_encode.simps List.map_filter_simps b64_value_char b64_sextets option.case
        b64_groups.simps sextet_bytes byte_less byte_of_unat)

lemma b64_encode_chars: "set (b64_encode bs) \<subseteq> set b64_chars"
  by (induction bs rule: b64_encode.induct) (simp_all add: b64_table(1) b64_sextets)

lemma b64_encode_Nil_iff: "b64_encode bs = [] \<longleftrightarrow> bs = []"
  by (cases bs rule: b64_encode.cases) simp_all

lemma b64_encode_inject: "b64_encode a = b64_encode b \<Longrightarrow> a = b"
  by (metis b64_roundtrip)

section \<open>Sessions\<close>

definition SESSION_COOKIE :: string where
  "SESSION_COOKIE = ''attesta_dev_session''"

datatype Role = Analyst | Senior | Engineer | Admin | Auditor

fun role_name :: "Role \<Rightarrow> string" where
  "role_name Analyst = ''analyst''"
| "role_name Senior = ''senior''"
| "role_name Engineer = ''engineer''"
| "role_name Admin = ''admin''"
| "role_name Auditor = ''auditor''"

definition ROLES :: "Role list" where
  "ROLES = [Analyst, Senior, Engineer, Admin, Auditor]"

text \<open>\<^verbatim>\<open>ROLES.includes(s)\<close>, with the member it is.\<close>

definition role_of :: "string \<Rightarrow> Role option" where
  "role_of s = find (\<lambda>r. role_name r = s) ROLES"

text \<open>\<^verbatim>\<open>decode\<close> checks the first two fields only; \<open>s_issuedAt\<close> is whatever the payload holds.\<close>

record Session =
  s_email :: string
  s_role :: Role
  s_issuedAt :: "json option"

definition DEV_SIGNING_SECRET :: string where
  "DEV_SIGNING_SECRET = ''attesta-dev-only-not-a-real-secret''"

type_synonym hmac_fun = "bytes \<Rightarrow> bytes \<Rightarrow> bytes"

definition sign :: "hmac_fun \<Rightarrow> string \<Rightarrow> string" where
  "sign hmac payload = b64_encode (hmac (utf8 DEV_SIGNING_SECRET) (utf8 payload))"

definition session_json :: "string \<Rightarrow> Role \<Rightarrow> int \<Rightarrow> json" where
  "session_json email role issuedAt =
     JObj [(''email'', JStr email), (''role'', JStr (role_name role)), (''issuedAt'', JNum issuedAt)]"

definition encode :: "hmac_fun \<Rightarrow> string \<Rightarrow> Role \<Rightarrow> int \<Rightarrow> string" where
  "encode hmac email role issuedAt =
     (let payload = b64_encode (utf8 (stringify (session_json email role issuedAt)))
      in payload @ ''.'' @ sign hmac payload)"

text \<open>\<^verbatim>\<open>s.split(sep)\<close> for a separator of one code unit.\<close>

fun js_split :: "char \<Rightarrow> string \<Rightarrow> string list" where
  "js_split c [] = [[]]"
| "js_split c (x # xs) =
     (if x = c then [] # js_split c xs
      else case js_split c xs of [] \<Rightarrow> [[x]] | p # ps \<Rightarrow> (x # p) # ps)"

definition session_of :: "json \<Rightarrow> Session option" where
  "session_of parsed =
     (case str_field ''email'' parsed of
        None \<Rightarrow> None
      | Some email \<Rightarrow>
          (case Option.bind (str_field ''role'' parsed) role_of of
             None \<Rightarrow> None
           | Some role \<Rightarrow> Some \<lparr>s_email = email, s_role = role, s_issuedAt = json_get ''issuedAt'' parsed\<rparr>))"

definition decode :: "hmac_fun \<Rightarrow> string \<Rightarrow> Session option" where
  "decode hmac token =
     (case js_split CHR ''.'' token of
        payload # signature # _ \<Rightarrow>
          if payload = [] \<or> signature = [] then None
          else if utf8 signature \<noteq> utf8 (sign hmac payload) then None
          else (case Option.bind (utf8_decode (b64_decode payload)) json_parse of
                  None \<Rightarrow> None
                | Some parsed \<Rightarrow> session_of parsed)
      | _ \<Rightarrow> None)"

record Cookie =
  ck_value :: string
  ck_httpOnly :: bool
  ck_sameSite :: string
  ck_secure :: bool
  ck_path :: string
  ck_maxAge :: int

type_synonym cookie_jar = "(string \<times> Cookie) list"

definition getSession :: "hmac_fun \<Rightarrow> cookie_jar \<Rightarrow> Session option" where
  "getSession hmac jar =
     (case map_option ck_value (map_of jar SESSION_COOKIE) of
        None \<Rightarrow> None
      | Some token \<Rightarrow> if token = [] then None else decode hmac token)"

definition createSession :: "hmac_fun \<Rightarrow> bool \<Rightarrow> int \<Rightarrow> string \<Rightarrow> Role \<Rightarrow> cookie_jar \<Rightarrow> cookie_jar" where
  "createSession hmac production nowMs email role jar =
     AList.update SESSION_COOKIE
       \<lparr>ck_value = encode hmac email role nowMs, ck_httpOnly = True, ck_sameSite = ''lax'',
        ck_secure = production, ck_path = ''/'', ck_maxAge = 60 * 60 * 8\<rparr> jar"

definition destroySession :: "cookie_jar \<Rightarrow> cookie_jar" where
  "destroySession jar = AList.delete SESSION_COOKIE jar"

section \<open>The gate, the actions and the protected shell\<close>

text \<open>\<^verbatim>\<open>Page\<close> carries the session the layout hands to its provider; \<^verbatim>\<open>Api\<close> a request passed to a handler.\<close>

datatype answer =
    RedirectTo string "(string \<times> string) list"
  | LoginPage
  | Page string Session
  | Api string
  | NotFound

abbreviation starts_with :: "string \<Rightarrow> string \<Rightarrow> bool" where
  "starts_with s p \<equiv> take (length p) s = p"

text \<open>The matcher of the middleware; in \<^verbatim>\<open>favicon.ico\<close> the dot stands for any character.\<close>

definition middleware_matches :: "string \<Rightarrow> bool" where
  "middleware_matches path \<longleftrightarrow>
     starts_with path ''/'' \<and>
     (let rest = drop 1 path in
      \<not> starts_with rest ''_next/static'' \<and> \<not> starts_with rest ''_next/image'' \<and>
      \<not> (starts_with rest ''favicon'' \<and> 7 < length rest \<and> starts_with (drop 8 rest) ''ico''))"

definition middleware :: "cookie_jar \<Rightarrow> string \<Rightarrow> answer option" where
  "middleware jar path =
     (let hasSession = map_of jar SESSION_COOKIE \<noteq> None; isLoginRoute = starts_with path ''/login'' in
      if \<not> hasSession \<and> \<not> isLoginRoute then Some (RedirectTo ''/login'' [(''from'', path)])
      else if hasSession \<and> isLoginRoute then Some (RedirectTo ''/'' [])
      else None)"

text \<open>The pages of the route group \<^verbatim>\<open>app/(console)\<close>, all inside its layout.\<close>

definition console_pages :: "string list" where
  "console_pages = [''/'', ''/investigation-canvas'', ''/timeline'', ''/verdict-ledger'', ''/drift-monitor'',
     ''/response-console'', ''/coverage-map'', ''/detection-studio'', ''/tenant-admin'']"

definition ConsoleLayout :: "hmac_fun \<Rightarrow> cookie_jar \<Rightarrow> string \<Rightarrow> answer" where
  "ConsoleLayout hmac jar path =
     (case getSession hmac jar of
        None \<Rightarrow> RedirectTo ''/login'' []
      | Some session \<Rightarrow> Page path session)"

text \<open>A path under \<^verbatim>\<open>/api/\<close> is handed to the API, which also answers for the paths that have no handler.\<close>

definition route :: "hmac_fun \<Rightarrow> cookie_jar \<Rightarrow> string \<Rightarrow> answer" where
  "route hmac jar path =
     (if path = ''/login'' then LoginPage
      else if path \<in> set console_pages then ConsoleLayout hmac jar path
      else if starts_with path ''/api/'' then Api path
      else NotFound)"

definition serve :: "hmac_fun \<Rightarrow> cookie_jar \<Rightarrow> string \<Rightarrow> answer" where
  "serve hmac jar path =
     (case (if middleware_matches path then middleware jar path else None) of
        Some a \<Rightarrow> a
      | None \<Rightarrow> route hmac jar path)"

text \<open>A browser that follows at most \<open>n\<close> redirects.\<close>

fun follow :: "hmac_fun \<Rightarrow> cookie_jar \<Rightarrow> nat \<Rightarrow> string \<Rightarrow> answer" where
  "follow hmac jar 0 path = serve hmac jar path"
| "follow hmac jar (Suc n) path =
     (case serve hmac jar path of RedirectTo path' q \<Rightarrow> follow hmac jar n path' | a \<Rightarrow> a)"

text \<open>\<^verbatim>\<open>s.trim()\<close> and \<^verbatim>\<open>String(formData.get(k) ?? d)\<close>.\<close>

definition trim :: "string \<Rightarrow> string" where
  "trim s = rev (dropWhile js_space (rev (dropWhile js_space s)))"

definition form_get :: "(string \<times> string) list \<Rightarrow> string \<Rightarrow> string \<Rightarrow> string" where
  "form_get formData k d = (case map_of formData k of None \<Rightarrow> d | Some v \<Rightarrow> v)"

definition signIn ::
  "hmac_fun \<Rightarrow> bool \<Rightarrow> int \<Rightarrow> (string \<times> string) list \<Rightarrow> cookie_jar \<Rightarrow> cookie_jar \<times> string" where
  "signIn hmac production nowMs formData jar =
     (let email = trim (form_get formData ''email'' ''''); role = form_get formData ''role'' '''';
          from = form_get formData ''from'' ''/''
      in if email = [] then (jar, ''/login?error=invalid'')
         else case role_of role of
                None \<Rightarrow> (jar, ''/login?error=invalid'')
              | Some r \<Rightarrow> (createSession hmac production nowMs email r jar, if starts_with from ''/'' then from else ''/''))"

definition signOutAction :: "cookie_jar \<Rightarrow> cookie_jar \<times> string" where
  "signOutAction jar = (destroySession jar, ''/login'')"

section \<open>Tokens\<close>

lemma role_of_name [simp]: "role_of (role_name r) = Some r"
  by (cases r) (simp_all add: role_of_def ROLES_def)

lemma role_of_Some: "role_of s = Some r \<Longrightarrow> s = role_name r"
  by (auto simp: role_of_def find_Some_iff)

lemma js_split_no_sep: "c \<notin> set s \<Longrightarrow> js_split c s = [s]"
  by (induction s) auto

lemma js_split_sep: "c \<notin> set p \<Longrightarrow> js_split c (p @ c # s) = p # js_split c s"
  by (induction p) auto

lemma js_split_nonempty [simp]: "js_split c s \<noteq> []"
  by (induction s) (auto split: list.splits)

lemma js_split_two:
  assumes "js_split c s = p # q # ps"
  shows "\<exists>rest. s = p @ c # rest \<and> (js_split c rest = q # ps)"
  using assms
proof (induction s arbitrary: p)
  case (Cons x xs)
  show ?case
  proof (cases "x = c")
    case False
    obtain p' ps' where s: "js_split c xs = p' # ps'" using js_split_nonempty by (metis neq_Nil_conv)
    with Cons.prems False have "p = x # p'" "ps' = q # ps" by auto
    with Cons.IH [of p'] s show ?thesis by auto
  qed (use Cons.prems in auto)
qed simp

lemma js_split_first:
  assumes "js_split c s = q # qs"
  shows "\<exists>rest. s = q @ rest \<and> (rest = [] \<or> hd rest = c)"
proof (cases qs)
  case Nil
  then have "s = q" using assms by (induction s arbitrary: q) (auto split: if_splits list.splits)
  then show ?thesis by auto
next
  case (Cons q' qs')
  with js_split_two [of c s q q' qs'] assms show ?thesis by auto
qed

lemma decode_parts:
  assumes "CHR ''.'' \<notin> set p" "CHR ''.'' \<notin> set sg"
  shows "decode hmac (p @ ''.'' @ sg) =
    (if p = [] \<or> sg = [] \<or> sg \<noteq> sign hmac p then None
     else case Option.bind (utf8_decode (b64_decode p)) json_parse of None \<Rightarrow> None | Some parsed \<Rightarrow> session_of parsed)"
  using assms by (simp add: decode_def js_split_sep js_split_no_sep)

lemma sign_no_dot: "CHR ''.'' \<notin> set (sign hmac p)"
  using b64_encode_chars b64_table(3) by (auto simp: sign_def)

lemma b64_no_dot: "CHR ''.'' \<notin> set (b64_encode bs)"
  using b64_encode_chars b64_table(3) by auto

lemma session_json_wf: "wf_json (session_json e r n) \<longleftrightarrow> fl (of_int n) = of_int n"
  by (simp add: session_json_def)

lemma session_of_json: "session_of (session_json e r n) = Some \<lparr>s_email = e, s_role = r, s_issuedAt = Some (JNum n)\<rparr>"
  by (simp add: session_of_def session_json_def str_field_def)

lemma decode_encode:
  assumes "\<And>k m. length (hmac k m) = 32" "fl (of_int n) = of_int n"
  shows "decode hmac (encode hmac e r n) = Some \<lparr>s_email = e, s_role = r, s_issuedAt = Some (JNum n)\<rparr>"
proof -
  let ?j = "session_json e r n"
  have wf: "wf_json ?j" using assms(2) by (simp add: session_json_wf)
  have "stringify ?j \<noteq> []" using stringify_length_pos [OF wf] by auto
  then have "utf8 (stringify ?j) \<noteq> []" by (cases "stringify ?j") (auto simp: utf8_def)
  then have p: "b64_encode (utf8 (stringify ?j)) \<noteq> []" by (simp add: b64_encode_Nil_iff)
  have "hmac k m \<noteq> []" for k m using assms(1) [of k m] by auto
  then have "sign hmac q \<noteq> []" for q by (simp add: sign_def b64_encode_Nil_iff)
  with p show ?thesis
    unfolding encode_def Let_def decode_parts [OF b64_no_dot sign_no_dot]
    by (simp add: b64_roundtrip json_parse_stringify [OF wf] session_of_json)
qed

lemma decode_Some:
  assumes "decode hmac token = Some s"
  shows "\<exists>payload rest. token = payload @ ''.'' @ sign hmac payload @ rest \<and> (rest = [] \<or> hd rest = CHR ''.'') \<and>
    Option.bind (Option.bind (utf8_decode (b64_decode payload)) json_parse) session_of = Some s"
proof -
  obtain p sg ps where split: "js_split CHR ''.'' token = p # sg # ps"
    using assms by (auto simp: decode_def split: list.splits)
  with assms have sg: "sg = sign hmac p"
    and body: "Option.bind (Option.bind (utf8_decode (b64_decode p)) json_parse) session_of = Some s"
    by (auto simp: decode_def Option.bind_eq_Some_conv split: if_splits option.splits)
  obtain rest where "token = p @ ''.'' @ rest" "js_split CHR ''.'' rest = sg # ps"
    using js_split_two [OF split] by auto
  moreover from js_split_first [OF this(2)] obtain r where "rest = sg @ r" "r = [] \<or> hd r = CHR ''.''" by auto
  ultimately show ?thesis using sg body by auto
qed

lemma decode_junk:
  assumes "CHR ''.'' \<notin> set p" "CHR ''.'' \<notin> set sg"
  shows "decode hmac (p @ ''.'' @ sg @ ''.'' @ junk) = decode hmac (p @ ''.'' @ sg)"
  using assms by (simp add: decode_def js_split_sep js_split_no_sep)

lemma session_created:
  assumes "\<And>k m. length (hmac k m) = 32" and "fl (of_int nowMs) = of_int nowMs"
  shows "getSession hmac (createSession hmac production nowMs e r jar) = Some \<lparr>s_email = e, s_role = r, s_issuedAt = Some (JNum nowMs)\<rparr>"
proof -
  have "encode hmac e r nowMs \<noteq> []" by (simp add: encode_def Let_def)
  then show ?thesis by (simp add: getSession_def createSession_def update_conv decode_encode [OF assms])
qed

section \<open>Properties\<close>

text \<open>
  C32: signing in and out. A form with a non-blank email and a known role sets the cookie from which
  \<^verbatim>\<open>getSession\<close> then reads exactly the trimmed email and the role, and leaves for \<^verbatim>\<open>from\<close> when that
  starts with a slash; any other form changes no cookie and returns to the login page; after signing
  out there is no session.
\<close>

theorem sign_in_out:
  assumes "\<And>k m. length (hmac k m) = 32" and "fl (of_int nowMs) = of_int nowMs"
  shows "(case role_of (form_get form ''role'' '''') of
        Some r \<Rightarrow>
          if trim (form_get form ''email'' '''') \<noteq> []
          then getSession hmac (fst (signIn hmac production nowMs form jar)) =
                 Some \<lparr>s_email = trim (form_get form ''email'' ''''), s_role = r, s_issuedAt = Some (JNum nowMs)\<rparr> \<and>
               snd (signIn hmac production nowMs form jar) =
                 (if starts_with (form_get form ''from'' ''/'') ''/'' then form_get form ''from'' ''/'' else ''/'')
          else signIn hmac production nowMs form jar = (jar, ''/login?error=invalid'')
      | None \<Rightarrow> signIn hmac production nowMs form jar = (jar, ''/login?error=invalid'')) \<and>
   getSession hmac (fst (signOutAction jar)) = None"
proof -
  note session_created [OF assms]
  moreover have "getSession hmac (fst (signOutAction jar)) = None"
    by (simp add: getSession_def signOutAction_def destroySession_def delete_conv)
  ultimately show ?thesis by (simp add: signIn_def Let_def split: option.split)
qed

definition sample_hmac :: hmac_fun where
  "sample_hmac k m = take 32 (rev m @ replicate 32 0)"

lemma sample_hmac_length: "length (sample_hmac k m) = 32"
  by (simp add: sample_hmac_def)

definition sample_form :: "(string \<times> string) list" where
  "sample_form = [(''email'', '' ana@tenant.example''), (''role'', ''auditor''), (''from'', ''/timeline'')]"

theorem sign_in_out_witness:
  "getSession sample_hmac (fst (signIn sample_hmac True 1767225600000 sample_form [])) =
     Some \<lparr>s_email = ''ana@tenant.example'', s_role = Auditor, s_issuedAt = Some (JNum 1767225600000)\<rparr>"
proof -
  have n: "fl (of_int 1767225600000) = of_int 1767225600000" by (rule fl_int) simp_all
  have "role_of ''auditor'' = Some Auditor" "trim '' ana@tenant.example'' = ''ana@tenant.example''" by code_simp+
  then show ?thesis
    using sign_in_out [where hmac = sample_hmac and form = sample_form and production = True and jar = "[]",
        OF sample_hmac_length n]
    by (simp add: sample_form_def form_get_def)
qed

text \<open>
  C16: an accepted token carries the signature of its own payload. Whatever text the cookie holds, a
  session is read from it only when the text is a payload, a dot and the HMAC of that payload
  (possibly followed by a further dot and ignored text), and the session is the one the payload
  spells out; pairing a payload with the signature of another is rejected unless the two HMACs
  are equal.
\<close>

theorem token_authentic:
  assumes "decode hmac token = Some s"
  shows "\<exists>payload rest. token = payload @ ''.'' @ sign hmac payload @ rest \<and> (rest = [] \<or> hd rest = CHR ''.'') \<and>
      Option.bind (Option.bind (utf8_decode (b64_decode payload)) json_parse) session_of = Some s \<and>
      (\<forall>other. CHR ''.'' \<notin> set other \<longrightarrow>
         hmac (utf8 DEV_SIGNING_SECRET) (utf8 other) \<noteq> hmac (utf8 DEV_SIGNING_SECRET) (utf8 payload) \<longrightarrow>
         decode hmac (other @ ''.'' @ sign hmac payload) = None)"
proof -
  have "decode hmac (other @ ''.'' @ sign hmac p) = None"
    if "CHR ''.'' \<notin> set other" "hmac (utf8 DEV_SIGNING_SECRET) (utf8 other) \<noteq> hmac (utf8 DEV_SIGNING_SECRET) (utf8 p)"
    for other p
    unfolding decode_parts [OF that(1) sign_no_dot] using that(2) by (auto simp: sign_def dest: b64_encode_inject)
  with decode_Some [OF assms] show ?thesis by blast
qed

theorem token_authentic_witness:
  "\<exists>payload rest. encode sample_hmac ''a@b'' Admin 5 = payload @ ''.'' @ sign sample_hmac payload @ rest \<and>
     (rest = [] \<or> hd rest = CHR ''.'')"
proof -
  have n: "fl (of_int 5) = of_int 5" by (rule fl_int) simp_all
  from token_authentic [OF decode_encode [where hmac = sample_hmac and e = "''a@b''" and r = Admin, OF sample_hmac_length n]] show ?thesis by blast
qed

text \<open>
  C33: the protected shell. A console page is rendered only for the session that \<^verbatim>\<open>getSession\<close> verified
  in the cookie; an API handler runs whenever a cookie of the right name is present, whatever its
  value, since the gate only looks for the name.
\<close>

theorem console_guarded:
  "(serve hmac jar path = Page p s \<longrightarrow> path = p \<and> p \<in> set console_pages \<and> getSession hmac jar = Some s) \<and>
   serve hmac (AList.update SESSION_COOKIE c jar) (''/api/'' @ rest) = Api (''/api/'' @ rest)"
proof (intro conjI impI)
  assume a: "serve hmac jar path = Page p s"
  have m: "middleware jar path \<noteq> Some (Page p s)" by (simp add: middleware_def Let_def)
  from a m have "route hmac jar path = Page p s" by (auto simp: serve_def split: if_splits option.splits)
  then show "path = p" "p \<in> set console_pages" "getSession hmac jar = Some s"
    by (auto simp: route_def ConsoleLayout_def split: if_splits option.splits)
next
  have "''/api/'' @ rest \<notin> set console_pages" by (simp add: console_pages_def)
  then show "serve hmac (AList.update SESSION_COOKIE c jar) (''/api/'' @ rest) = Api (''/api/'' @ rest)"
    by (simp add: serve_def middleware_def update_conv route_def)
qed

definition sample_cookie :: Cookie where
  "sample_cookie = \<lparr>ck_value = ''forged'', ck_httpOnly = False, ck_sameSite = '''', ck_secure = False, ck_path = ''/'', ck_maxAge = 0\<rparr>"

theorem console_guarded_witness:
  "serve sample_hmac (AList.update SESSION_COOKIE sample_cookie []) ''/api/stats'' = Api ''/api/stats''"
  using console_guarded [THEN conjunct2, of sample_hmac sample_cookie "[]" "''stats''"] by simp

lemma middleware_matches_console: "p \<in> set console_pages \<Longrightarrow> middleware_matches p \<and> \<not> starts_with p ''/login''"
  by (auto simp: console_pages_def middleware_matches_def)

lemma serve_login:
  "serve hmac jar ''/login'' = (if map_of jar SESSION_COOKIE = None then LoginPage else RedirectTo ''/'' [])"
  by (simp add: serve_def middleware_matches_def middleware_def route_def)

lemma serve_console:
  "p \<in> set console_pages \<Longrightarrow> serve hmac jar p =
     (if map_of jar SESSION_COOKIE = None then RedirectTo ''/login'' [(''from'', p)] else ConsoleLayout hmac jar p)"
  using middleware_matches_console [of p] by (auto simp: serve_def middleware_def Let_def route_def console_pages_def)

lemma follow_forged:
  assumes "map_of jar SESSION_COOKIE \<noteq> None" "getSession hmac jar = None"
  shows "(\<exists>q. follow hmac jar n ''/'' = RedirectTo ''/login'' q) \<and> follow hmac jar n ''/login'' = RedirectTo ''/'' [] \<or>
    (\<exists>q. follow hmac jar n ''/login'' = RedirectTo ''/login'' q) \<and> follow hmac jar n ''/'' = RedirectTo ''/'' []"
proof (induction n)
  case 0
  show ?case using assms by (simp add: serve_login serve_console console_pages_def ConsoleLayout_def)
next
  case (Suc n)
  then show ?case using assms by (auto simp: serve_login serve_console console_pages_def ConsoleLayout_def)
qed

text \<open>
  C34: where a browser ends up. Without the cookie every console page leads to the login page after
  one redirect; with a verified session it is rendered at once and the login page leads to the
  Watchfloor; with a cookie that does not verify the two redirects feed each other, so no number of
  them ends at a page.
\<close>

theorem navigation_settles:
  assumes "p \<in> set console_pages"
  shows "case (map_of jar SESSION_COOKIE, getSession hmac jar) of
     (None, _) \<Rightarrow> serve hmac jar p = RedirectTo ''/login'' [(''from'', p)] \<and> (\<forall>n. follow hmac jar (Suc n) p = LoginPage)
   | (Some _, Some s) \<Rightarrow> (\<forall>n. follow hmac jar n p = Page p s \<and> follow hmac jar (Suc n) ''/login'' = Page ''/'' s)
   | (Some _, None) \<Rightarrow> (\<forall>n. \<exists>path q. follow hmac jar n ''/login'' = RedirectTo path q)"
proof (cases "map_of jar SESSION_COOKIE")
  case None
  moreover have "follow hmac jar n ''/login'' = LoginPage" for n
    using None by (cases n) (simp_all add: serve_login)
  ultimately show ?thesis using assms by (simp add: serve_console)
next
  case (Some c)
  show ?thesis
  proof (cases "getSession hmac jar")
    case None
    have "\<exists>path q. follow hmac jar n ''/login'' = RedirectTo path q" for n
      using follow_forged [of jar hmac n] Some None by auto
    with Some None show ?thesis by simp
  next
    case s: (Some s)
    have "follow hmac jar n p' = Page p' s" if "p' \<in> set console_pages" for n p'
      using Some s that by (cases n) (simp_all add: serve_console ConsoleLayout_def)
    with Some s assms show ?thesis by (simp add: serve_login console_pages_def)
  qed
qed

theorem navigation_settles_witness:
  "serve sample_hmac [] ''/timeline'' = RedirectTo ''/login'' [(''from'', ''/timeline'')] \<and>
   (\<forall>n. follow sample_hmac [] (Suc n) ''/timeline'' = LoginPage)"
  using navigation_settles [where p = "''/timeline''" and jar = "[]" and hmac = sample_hmac] by (simp add: console_pages_def del: follow.simps)

end
