(* ===== verification/Html.thy ===== *)
theory Html
  imports Prelude
begin

text \<open>
  What a component renders. An element carries its tag (for a widget of the vendored UI kit under
  \<^verbatim>\<open>components/ui\<close> the name of the widget), the attributes that matter to a reader or to the keyboard, the
  event handlers as values of a type of actions, and its children. Style classes, purely decorative
  icons and layout wrappers without attributes of their own are left out. Texts are UTF-8, so that
  the few characters beyond Latin-1 in the literals can be written down.
\<close>

datatype 'a html =
    Txt string
  | El string "(string \<times> string) list" "(string \<times> 'a) list" "'a html list"

definition em_dash :: string where "em_dash = [CHR 0xE2, CHR 0x80, CHR 0x94]"
definition ellipsis :: string where "ellipsis = [CHR 0xE2, CHR 0x80, CHR 0xA6]"
definition arrow_right :: string where "arrow_right = [CHR 0xE2, CHR 0x86, CHR 0x92]"
definition middle_dot :: string where "middle_dot = [CHR 0xC2, CHR 0xB7]"
definition command_sign :: string where "command_sign = [CHR 0xE2, CHR 0x8C, CHR 0x98]"
definition minus_sign :: string where "minus_sign = [CHR 0xE2, CHR 0x88, CHR 0x92]"

text \<open>\<^verbatim>\<open>{cond && <el/>}\<close> and an attribute that is \<^verbatim>\<open>undefined\<close> unless a condition holds.\<close>

abbreviation when_shown :: "bool \<Rightarrow> 'b list \<Rightarrow> 'b list" where
  "when_shown b xs \<equiv> if b then xs else []"

definition attr :: "string \<Rightarrow> 'a html \<Rightarrow> string option" where
  "attr k h = (case h of Txt _ \<Rightarrow> None | El _ as _ _ \<Rightarrow> map_of as k)"

text \<open>The visible text, and the actions a user can trigger: those of elements that are not disabled.\<close>

fun html_text :: "'a html \<Rightarrow> string" where
  "html_text (Txt s) = s"
| "html_text (El t as hs cs) = concat (map html_text cs)"

fun actions :: "'a html \<Rightarrow> 'a list" where
  "actions (Txt s) = []"
| "actions (El t as hs cs) =
     (if map_of as ''disabled'' = None then map snd hs @ concat (map actions cs) else [])"

text \<open>The targets of the links.\<close>

fun hrefs :: "'a html \<Rightarrow> string list" where
  "hrefs (Txt s) = []"
| "hrefs (El t as hs cs) =
     opt_list (map_of as ''href'') @ concat (map hrefs cs)"

end
