(* ===== verification/Chrome.thy ===== *)
theory Chrome
  imports Session Html
begin

text \<open>
  The shell around every surface: \<^verbatim>\<open>web/src/lib/shortcuts.ts\<close> (the list of surfaces and the keyboard map),
  \<^verbatim>\<open>components/console-chrome-provider.tsx\<close> (overlay state and the global key handler),
  \<^verbatim>\<open>command-palette.tsx\<close>, \<^verbatim>\<open>sidebar-nav.tsx\<close>, \<^verbatim>\<open>topbar.tsx\<close>, \<^verbatim>\<open>shortcuts-help.tsx\<close>, \<^verbatim>\<open>session-context.tsx\<close>,
  \<^verbatim>\<open>page-header.tsx\<close>, \<^verbatim>\<open>empty-state.tsx\<close>, the login page and the tenant-admin page.
\<close>

section \<open>The keyboard map\<close>

record Surface =
  sf_href :: string
  sf_label :: string
  sf_chordKey :: string
  sf_roles :: "string list option"

definition SURFACES :: "Surface list" where
  "SURFACES = [
     \<lparr>sf_href = ''/'', sf_label = ''Watchfloor'', sf_chordKey = ''w'', sf_roles = None\<rparr>,
     \<lparr>sf_href = ''/investigation-canvas'', sf_label = ''Investigation Canvas'', sf_chordKey = ''i'', sf_roles = None\<rparr>,
     \<lparr>sf_href = ''/timeline'', sf_label = ''Timeline Reconstructor'', sf_chordKey = ''t'', sf_roles = None\<rparr>,
     \<lparr>sf_href = ''/verdict-ledger'', sf_label = ''Verdict Ledger'', sf_chordKey = ''v'', sf_roles = None\<rparr>,
     \<lparr>sf_href = ''/drift-monitor'', sf_label = ''Drift Monitor'', sf_chordKey = ''d'', sf_roles = None\<rparr>,
     \<lparr>sf_href = ''/response-console'', sf_label = ''Response Console'', sf_chordKey = ''r'', sf_roles = None\<rparr>,
     \<lparr>sf_href = ''/coverage-map'', sf_label = ''Coverage Map'', sf_chordKey = ''c'', sf_roles = None\<rparr>,
     \<lparr>sf_href = ''/detection-studio'', sf_label = ''Detection Studio'', sf_chordKey = ''s'', sf_roles = None\<rparr>,
     \<lparr>sf_href = ''/tenant-admin'', sf_label = ''Tenant Admin'', sf_chordKey = ''a'', sf_roles = Some [''admin'', ''auditor'']\<rparr>]"

record ShortcutEntry =
  sc_keys :: string
  sc_description :: string

definition QUEUE_SHORTCUTS :: "ShortcutEntry list" where
  "QUEUE_SHORTCUTS = [
     \<lparr>sc_keys = ''j'', sc_description = ''Next case in the queue''\<rparr>,
     \<lparr>sc_keys = ''k'', sc_description = ''Previous case in the queue''\<rparr>,
     \<lparr>sc_keys = ''e'', sc_description = ''Escalate the selected case''\<rparr>,
     \<lparr>sc_keys = ''d'', sc_description = ''Dismiss the selected case, with reason''\<rparr>,
     \<lparr>sc_keys = ''i'', sc_description = [CHR ''O''] @ ''pen the selected case'' @ [CHR 0x27] @ ''s investigation''\<rparr>]"

definition GLOBAL_SHORTCUTS :: "ShortcutEntry list" where
  "GLOBAL_SHORTCUTS = [
     \<lparr>sc_keys = ''/'', sc_description = ''Open the command palette''\<rparr>,
     \<lparr>sc_keys = command_sign @ ''/Ctrl K'', sc_description = ''Open the command palette''\<rparr>,
     \<lparr>sc_keys = ''?'', sc_description = ''Show this shortcut reference''\<rparr>,
     \<lparr>sc_keys = ''g then a letter'', sc_description = ''Jump to a surface (see below)''\<rparr>,
     \<lparr>sc_keys = ''Esc'', sc_description = ''Close the open dialog or overlay''\<rparr>]"

definition surfaceChordShortcuts :: "ShortcutEntry list" where
  "surfaceChordShortcuts = map (\<lambda>s. \<lparr>sc_keys = ''g '' @ sf_chordKey s, sc_description = sf_label s\<rparr>) SURFACES"

definition reachableSurfaces :: "Role \<Rightarrow> Surface list" where
  "reachableSurfaces role =
     filter (\<lambda>s. case sf_roles s of None \<Rightarrow> True | Some rs \<Rightarrow> role_name role \<in> set rs) SURFACES"

section \<open>Overlays and the key handler\<close>

record Chrome =
  ch_paletteOpen :: bool
  ch_helpOpen :: bool
  ch_chordActive :: bool
  ch_chordTimer :: bool \<comment> \<open>a timer is pending\<close>

definition chrome_init :: Chrome where
  "chrome_init = \<lparr>ch_paletteOpen = False, ch_helpOpen = False, ch_chordActive = False, ch_chordTimer = False\<rparr>"

definition CHORD_TIMEOUT_MS :: int where "CHORD_TIMEOUT_MS = 900"

text \<open>The target of an event: its tag and whether its content is editable; \<^const>\<open>None\<close> for no element.\<close>

definition isEditableTarget :: "(string \<times> bool) option \<Rightarrow> bool" where
  "isEditableTarget target =
     (case target of
        None \<Rightarrow> False
      | Some (tag, contentEditable) \<Rightarrow>
          tag = ''INPUT'' \<or> tag = ''TEXTAREA'' \<or> contentEditable \<or> tag = ''SELECT'')"

record KeyEvent =
  k_key :: string
  k_meta :: bool
  k_ctrl :: bool
  k_alt :: bool
  k_target :: "(string \<times> bool) option"
  k_defaultPrevented :: bool

definition clearChord :: "Chrome \<Rightarrow> Chrome" where
  "clearChord st = st\<lparr>ch_chordActive := False, ch_chordTimer := False\<rparr>"

text \<open>What the handler does besides the state: whether it prevents the default, and where it navigates.\<close>

record KeyEffect =
  ke_prevent :: bool
  ke_push :: "string option"

abbreviation no_effect :: KeyEffect where
  "no_effect \<equiv> \<lparr>ke_prevent = False, ke_push = None\<rparr>"

abbreviation prevent_only :: KeyEffect where
  "prevent_only \<equiv> \<lparr>ke_prevent = True, ke_push = None\<rparr>"

definition key_lower :: "string \<Rightarrow> string" where
  "key_lower s = map (\<lambda>c. let n = of_char c :: nat in
     if 65 \<le> n \<and> n \<le> 90 \<or> 192 \<le> n \<and> n \<le> 222 \<and> n \<noteq> 215 then char_of (n + 32) else c) s"

definition onKeyDown :: "Role \<Rightarrow> KeyEvent \<Rightarrow> Chrome \<Rightarrow> Chrome \<times> KeyEffect" where
  "onKeyDown role event st =
     (if k_defaultPrevented event then (st, no_effect)
      else if k_key event = ''Escape'' then
        (clearChord (st\<lparr>ch_paletteOpen := False, ch_helpOpen := False\<rparr>), no_effect)
      else
        let editable = isEditableTarget (k_target event) in
        if ch_chordActive st \<and> \<not> editable then
          (case find (\<lambda>s. sf_chordKey s = key_lower (k_key event)) (reachableSurfaces role) of
             Some surface \<Rightarrow> (clearChord st, \<lparr>ke_prevent = True, ke_push = Some (sf_href surface)\<rparr>)
           | None \<Rightarrow> (clearChord st, no_effect))
        else if editable \<or> k_meta event \<or> k_ctrl event \<or> k_alt event then
          (if (k_meta event \<or> k_ctrl event) \<and> key_lower (k_key event) = ''k''
           then (st\<lparr>ch_paletteOpen := True\<rparr>, prevent_only) else (st, no_effect))
        else if k_key event = ''/'' then (st\<lparr>ch_paletteOpen := True\<rparr>, prevent_only)
        else if k_key event = ''?'' then (st\<lparr>ch_helpOpen := True\<rparr>, prevent_only)
        else if k_key event = ''g'' then (st\<lparr>ch_chordActive := True, ch_chordTimer := True\<rparr>, no_effect)
        else (st, no_effect))"

text \<open>
  What can happen to the shell: a key, the chord timer running out, an overlay opened or closed by
  another component, and the re-registration of the handler when the provider renders again (its
  list of surfaces is a new array in every render), which clears the chord.
\<close>

datatype chrome_event =
    KeyDown KeyEvent
  | ChordTimeout
  | SetPaletteOpen bool
  | SetHelpOpen bool
  | Rerender

inductive chrome_step :: "Role \<Rightarrow> Chrome \<Rightarrow> chrome_event \<Rightarrow> string option \<Rightarrow> Chrome \<Rightarrow> bool" for role where
  key: "onKeyDown role e st = (st', eff) \<Longrightarrow> chrome_step role st (KeyDown e) (ke_push eff) st'"
| timeout: "ch_chordTimer st \<Longrightarrow> chrome_step role st ChordTimeout None (clearChord st)"
| palette_overlay: "chrome_step role st (SetPaletteOpen b) None (st\<lparr>ch_paletteOpen := b\<rparr>)"
| help_overlay: "chrome_step role st (SetHelpOpen b) None (st\<lparr>ch_helpOpen := b\<rparr>)"
| rerender: "chrome_step role st Rerender None (clearChord st)"

inductive_cases chrome_key_E: "chrome_step role st (KeyDown e) push st'"

text \<open>Runs of the shell, with the events in the order they happened and the pages they led to.\<close>

inductive chrome_run :: "Role \<Rightarrow> chrome_event list \<Rightarrow> string list \<Rightarrow> Chrome \<Rightarrow> bool" for role where
  start: "chrome_run role [] [] chrome_init"
| step: "chrome_run role evs pages st \<Longrightarrow> chrome_step role st ev push st' \<Longrightarrow>
    chrome_run role (evs @ [ev]) (pages @ opt_list push) st'"

section \<open>What the shell renders\<close>

datatype shell_action =
    SetPalette bool
  | SetHelp bool
  | PushRoute string
  | SetTheme string
  | SignOut
  | SubmitSignIn

type_synonym shell_html = "shell_action list html"

text \<open>\<^verbatim>\<open>useMountedTheme\<close>: before hydration there is no theme.\<close>

definition useMountedTheme :: "bool \<Rightarrow> string option \<Rightarrow> string option" where
  "useMountedTheme mounted theme = (if mounted then theme else None)"

abbreviation other_theme :: "string option \<Rightarrow> string" where
  "other_theme theme \<equiv> (if theme = Some ''dark'' then ''light'' else ''dark'')"

text \<open>\<^verbatim>\<open>useSession()\<close> throws outside the provider.\<close>

definition useSession :: "Session option \<Rightarrow> Session result" where
  "useSession ctx = (case ctx of None \<Rightarrow> Inl (Thrown ''useSession() called outside SessionProvider'') | Some s \<Rightarrow> Inr s)"

definition useConsoleChrome :: "Chrome option \<Rightarrow> Chrome result" where
  "useConsoleChrome ctx =
     (case ctx of None \<Rightarrow> Inl (Thrown ''useConsoleChrome() called outside ConsoleChromeProvider'') | Some c \<Rightarrow> Inr c)"

definition show_bool :: "bool \<Rightarrow> string" where
  "show_bool b = (if b then ''true'' else ''false'')"

definition go :: "string \<Rightarrow> shell_action list" where
  "go href = [SetPalette False, PushRoute href]"

definition CommandPalette :: "bool \<Rightarrow> Role \<Rightarrow> string option \<Rightarrow> shell_html" where
  "CommandPalette paletteOpen role theme =
     El ''CommandDialog''
       [(''open'', show_bool paletteOpen), (''title'', ''Command palette''), (''description'', ''Jump to a surface or run an action'')]
       [(''onOpenChange'', [SetPalette False])]
       [El ''CommandInput'' [(''placeholder'', ''Jump to a surface, or search an action'' @ ellipsis)] [] [],
        El ''CommandList'' [] []
          [El ''CommandEmpty'' [] [] [Txt ''No matches.''],
           El ''CommandGroup'' [(''heading'', ''Surfaces'')] []
             (map (\<lambda>surface. El ''CommandItem'' [] [(''onSelect'', go (sf_href surface))]
                [El ''span'' [] [] [Txt (sf_label surface)],
                 El ''CommandShortcut'' [] [] [Txt (''g '' @ sf_chordKey surface)]]) (reachableSurfaces role)),
           El ''CommandSeparator'' [] [] [],
           El ''CommandGroup'' [(''heading'', ''Actions'')] []
             [El ''CommandItem'' [] [(''onSelect'', [SetTheme (other_theme theme), SetPalette False])]
                [El ''span'' [] [] [Txt (''Switch to '' @ other_theme theme @ '' theme'')]],
              El ''CommandItem'' [] [(''onSelect'', [SetPalette False, SignOut])]
                [El ''span'' [] [] [Txt ''Sign out'']]]]]"

definition SidebarNav :: "string \<Rightarrow> Role \<Rightarrow> shell_html" where
  "SidebarNav pathname role =
     El ''nav'' [(''aria-label'', ''Primary'')] []
       (El ''Link'' [(''href'', ''/''), (''aria-label'', ''ATTESTA '' @ em_dash @ '' Watchfloor'')] [] [] #
        map (\<lambda>surface. let active = (pathname = sf_href surface) in
          El ''Tooltip'' [] []
            [El ''TooltipTrigger'' [] []
               [El ''Link''
                  ([(''href'', sf_href surface), (''aria-label'', sf_label surface)] @
                   when_shown active [(''aria-current'', ''page'')]) []
                  (when_shown active [El ''span'' [(''aria-hidden'', ''true'')] [] []])],
             El ''TooltipContent'' [(''side'', ''right'')] []
               [Txt (sf_label surface), El ''span'' [] [] [Txt (''g '' @ sf_chordKey surface)]]])
          (reachableSurfaces role))"

definition Topbar :: "Session \<Rightarrow> string option \<Rightarrow> shell_html" where
  "Topbar session theme =
     El ''header'' [] []
       [El ''button'' [(''type'', ''button'')] [(''onClick'', [SetPalette True])]
          [El ''span'' [] [] [Txt (''Jump to a surface'' @ ellipsis)], El ''kbd'' [] [] [Txt ''/'']],
        El ''Button'' [(''aria-label'', ''Keyboard shortcuts'')] [(''onClick'', [SetHelp True])] [],
        El ''Button'' [(''aria-label'', ''Switch to '' @ other_theme theme @ '' theme'')]
          [(''onClick'', [SetTheme (other_theme theme)])] [],
        El ''DropdownMenu'' [] []
          [El ''DropdownMenuTrigger'' [] [] [El ''Button'' [(''aria-label'', ''Account menu'')] [] []],
           El ''DropdownMenuContent'' [] []
             [El ''DropdownMenuLabel'' [] []
                [El ''span'' [] [] [Txt (s_email session)], El ''span'' [] [] [Txt (role_name (s_role session))]],
              El ''DropdownMenuSeparator'' [] [] [],
              El ''DropdownMenuItem'' [] [(''onSelect'', [SignOut])] [Txt ''Sign out'']]]]"

definition ShortcutRow :: "ShortcutEntry \<Rightarrow> shell_html" where
  "ShortcutRow entry =
     El ''div'' [] [] [El ''span'' [] [] [Txt (sc_description entry)], El ''kbd'' [] [] [Txt (sc_keys entry)]]"

definition ShortcutsHelp :: "bool \<Rightarrow> shell_html" where
  "ShortcutsHelp helpOpen =
     El ''Dialog'' [(''open'', show_bool helpOpen)] [(''onOpenChange'', [SetHelp False])]
       [El ''DialogTitle'' [] [] [Txt ''Keyboard shortcuts''],
        El ''DialogDescription'' [] [] [Txt ''Triage without leaving the keyboard.''],
        El ''div'' [] [] (El ''h3'' [] [] [Txt ''Global''] # map ShortcutRow GLOBAL_SHORTCUTS),
        El ''div'' [] [] (El ''h3'' [] [] [Txt ''Go to a surface''] # map ShortcutRow surfaceChordShortcuts),
        El ''div'' [] [] (El ''h3'' [] [] [Txt ''Watchfloor queue''] # map ShortcutRow QUEUE_SHORTCUTS)]"

definition PageHeader :: "string \<Rightarrow> string option \<Rightarrow> 'a html" where
  "PageHeader title description =
     El ''div'' [] []
       (El ''h1'' [] [] [Txt title] #
        (case description of None \<Rightarrow> [] | Some d \<Rightarrow> when_shown (d \<noteq> []) [El ''p'' [] [] [Txt d]]))"

definition EmptyState :: "string \<Rightarrow> string \<Rightarrow> string \<Rightarrow> 'a html" where
  "EmptyState title description phaseNote =
     El ''div'' [] []
       [El ''h2'' [] [] [Txt title], El ''p'' [] [] [Txt description], El ''span'' [] [] [Txt phaseNote]]"

definition ALLOWED_ROLES :: "string list" where
  "ALLOWED_ROLES = [''admin'', ''auditor'']"

definition TenantAdminPage :: "Session option \<Rightarrow> shell_html" where
  "TenantAdminPage session =
     (let allowed = (case session of None \<Rightarrow> False | Some s \<Rightarrow> role_name (s_role s) \<in> set ALLOWED_ROLES) in
      El ''div'' [] []
        [PageHeader ''Tenant Admin'' (Some ''Org, users, RBAC, retention, API keys, audit log''),
         if allowed then
           EmptyState ''No tenant configuration to show''
             (''Org settings, RBAC assignment, data residency, inference endpoint binding, and the audit log all need the control-plane API this console doesn'' @
              [CHR 0x27] @ ''t talk to yet.'')
             (''Built in Phase 12 '' @ em_dash @ '' multi-tenancy hardening and deployment'')
         else
           EmptyState ''Restricted to admin and auditor roles''
             ''Tenant Admin exposes RBAC, billing, and data-residency controls. Sign in with an admin or auditor role to reach it.''
             (''Signed in as '' @ (case session of None \<Rightarrow> ''unknown'' | Some s \<Rightarrow> role_name (s_role s)))])"

definition capitalised :: "string \<Rightarrow> string" where
  "capitalised s = map (\<lambda>c. let n = of_char c :: nat in if 97 \<le> n \<and> n \<le> 122 then char_of (n - 32) else c) (take 1 s) @ drop 1 s"

definition LoginForm :: "string option \<Rightarrow> string option \<Rightarrow> shell_html" where
  "LoginForm from err =
     El ''div'' [] []
       ([El ''span'' [] [] [Txt ''ATTESTA''], El ''h1'' [] [] [Txt ''Sign in''],
         El ''p'' [] [] [Txt ''Operator console access.'']] @
        when_shown (err \<noteq> None \<and> err \<noteq> Some [])
          [El ''p'' [(''role'', ''alert'')] [] [Txt ''Enter a work email and select a role to continue.'']] @
        [El ''form'' [] [(''action'', [SubmitSignIn])]
           [El ''input'' [(''type'', ''hidden''), (''name'', ''from''), (''value'', case from of None \<Rightarrow> ''/'' | Some f \<Rightarrow> f)] [] [],
            El ''label'' [(''htmlFor'', ''email'')] [] [Txt ''Email''],
            El ''input'' [(''id'', ''email''), (''name'', ''email''), (''type'', ''email''), (''required'', ''''),
              (''autoComplete'', ''username''), (''placeholder'', ''analyst@tenant.example'')] [] [],
            El ''label'' [(''htmlFor'', ''role'')] [] [Txt ''Role''],
            El ''select'' [(''id'', ''role''), (''name'', ''role''), (''required'', ''''), (''defaultValue'', '''')] []
              (El ''option'' [(''value'', ''''), (''disabled'', '''')] [] [Txt ''Select a role''] #
               map (\<lambda>role. El ''option'' [(''value'', role_name role)] [] [Txt (capitalised (role_name role))]) ROLES),
            El ''button'' [(''type'', ''submit'')] [] [Txt ''Continue'']]])"

section \<open>The chord read off the history of events\<close>

text \<open>
  The chord as a function of the events, the latest first: it is pending after an unmodified \<^verbatim>\<open>g\<close>
  outside a field, until the next key outside a field, \<^verbatim>\<open>Escape\<close>, the timeout or a render; a key
  outside a field while it is pending goes to the reachable surface with that letter. This is what the
  handler does, and in one point not what its comment says: there the second key is \<^verbatim>\<open>never\<close> read
  \<^verbatim>\<open>while an overlay is already open\<close>, but no test of \<^verbatim>\<open>paletteOpen\<close> or \<^verbatim>\<open>helpOpen\<close> stands in the code. Events
  that open or close an overlay therefore leave the chord as it is.
\<close>

abbreviation handled :: "KeyEvent \<Rightarrow> bool" where
  "handled e \<equiv> \<not> k_defaultPrevented e \<and> k_key e \<noteq> ''Escape'' \<and> \<not> isEditableTarget (k_target e)"

fun armed :: "chrome_event list \<Rightarrow> bool" where
  "armed [] = False"
| "armed (KeyDown e # evs) =
     (if handled e then \<not> armed evs \<and> k_key e = ''g'' \<and> \<not> (k_meta e \<or> k_ctrl e \<or> k_alt e)
      else armed evs \<and> (k_defaultPrevented e \<or> k_key e \<noteq> ''Escape''))"
| "armed (ChordTimeout # evs) = False"
| "armed (Rerender # evs) = False"
| "armed (SetPaletteOpen b # evs) = armed evs"
| "armed (SetHelpOpen b # evs) = armed evs"

definition chord_target :: "Role \<Rightarrow> string \<Rightarrow> string option" where
  "chord_target role key =
     map_option sf_href (find (\<lambda>s. sf_chordKey s = key_lower key) (reachableSurfaces role))"

fun visited :: "Role \<Rightarrow> chrome_event list \<Rightarrow> string list" where
  "visited role [] = []"
| "visited role (KeyDown e # evs) =
     visited role evs @
     (if handled e \<and> armed evs then opt_list (chord_target role (k_key e)) else [])"
| "visited role (ev # evs) = visited role evs"

lemma clearChord_simps [simp]:
  "ch_chordActive (clearChord st) = False" "ch_chordTimer (clearChord st) = False"
  "ch_paletteOpen (clearChord st) = ch_paletteOpen st" "ch_helpOpen (clearChord st) = ch_helpOpen st"
  by (simp_all add: clearChord_def)

lemma onKeyDown_armed:
  assumes "onKeyDown role e st = (st', eff)" "ch_chordActive st = armed evs" "ch_chordTimer st = ch_chordActive st"
  shows "ch_chordActive st' = armed (KeyDown e # evs)" "ch_chordTimer st' = ch_chordActive st'"
    and "ke_push eff = (if handled e \<and> armed evs then chord_target role (k_key e) else None)"
  using assms by (auto simp: onKeyDown_def chord_target_def Let_def split: if_splits option.splits)

lemma second_key:
  assumes "handled e" "ch_chordActive st"
  shows "ke_push (snd (onKeyDown role e st)) = chord_target role (k_key e)"
    and "ch_paletteOpen (fst (onKeyDown role e st)) = ch_paletteOpen st"
    and "ch_helpOpen (fst (onKeyDown role e st)) = ch_helpOpen st"
  using assms by (simp_all add: onKeyDown_def chord_target_def split: option.split)

lemma chrome_step_armed:
  assumes "chrome_step role st ev push st'" "ch_chordActive st = armed evs" "ch_chordTimer st = ch_chordActive st"
  shows "ch_chordActive st' = armed (ev # evs) \<and> ch_chordTimer st' = ch_chordActive st' \<and>
    visited role (ev # evs) = visited role evs @ opt_list push"
  using assms
proof cases
  case (key e eff)
  from onKeyDown_armed [OF key(3) assms(2,3)] show ?thesis by (simp add: key(1,2))
qed simp_all

lemma chrome_run_armed:
  "chrome_run role evs pages st \<Longrightarrow>
     ch_chordActive st = armed (rev evs) \<and> ch_chordTimer st = ch_chordActive st \<and> pages = visited role (rev evs)"
proof (induction rule: chrome_run.induct)
  case start
  show ?case by (simp add: chrome_init_def)
next
  case (step evs pages st ev push st')
  with chrome_step_armed [OF step.hyps(2), of "rev evs"] show ?case by simp
qed

lemma chord_target_reachable: "chord_target role key = Some p \<Longrightarrow> p \<in> sf_href ` set (reachableSurfaces role)"
  by (auto simp: chord_target_def find_Some_iff)

lemma visited_reachable: "set (visited role evs) \<subseteq> set (map sf_href (reachableSurfaces role))"
proof (induction evs)
  case (Cons ev evs)
  then show ?case by (cases ev) (auto dest: chord_target_reachable)
qed simp

section \<open>Properties\<close>

text \<open>
  C26: the chord. In every run of the shell the pages the chord led to are exactly those the history of
  events gives, the pending flag and its timer agree with the history and with each other, and every
  page is one the role may reach. In every state of a run, with the palette or the help open as well as
  without, a key outside a field while the chord is pending goes to the surface of its letter and leaves
  the overlays as they are; the comment above that branch says the key is not read while one is open.
\<close>

theorem chord_refines_history:
  assumes "chrome_run role evs pages st"
  shows "pages = visited role (rev evs) \<and> ch_chordActive st = armed (rev evs) \<and>
    ch_chordTimer st = ch_chordActive st \<and> set pages \<subseteq> set (map sf_href (reachableSurfaces role)) \<and>
    (\<forall>e. handled e \<and> ch_chordActive st \<longrightarrow>
       ke_push (snd (onKeyDown role e st)) = chord_target role (k_key e) \<and>
       ch_paletteOpen (fst (onKeyDown role e st)) = ch_paletteOpen st \<and>
       ch_helpOpen (fst (onKeyDown role e st)) = ch_helpOpen st)"
  using chrome_run_armed [OF assms] visited_reachable [of role "rev evs"] second_key by simp

abbreviation plain_key :: "string \<Rightarrow> KeyEvent" where
  "plain_key k \<equiv> \<lparr>k_key = k, k_meta = False, k_ctrl = False, k_alt = False, k_target = None, k_defaultPrevented = False\<rparr>"

text \<open>The help overlay is opened and the provider renders; then the chord \<^verbatim>\<open>g a\<close> leaves the page under it.\<close>

abbreviation sample_keys :: "chrome_event list" where
  "sample_keys \<equiv> [KeyDown (plain_key ''?''), Rerender, KeyDown (plain_key ''g''), KeyDown (plain_key ''A'')]"

lemma sample_run: "\<exists>st. chrome_run Admin sample_keys [''/tenant-admin''] st \<and> ch_helpOpen st"
proof -
  let ?h = "chrome_init\<lparr>ch_helpOpen := True\<rparr>"
  let ?g = "(clearChord ?h)\<lparr>ch_chordActive := True, ch_chordTimer := True\<rparr>"
  have "onKeyDown Admin (plain_key ''?'') chrome_init = (?h, prevent_only)"
    by (simp add: onKeyDown_def chrome_init_def isEditableTarget_def)
  from chrome_run.step [OF chrome_run.start chrome_step.key [OF this]]
  have "chrome_run Admin [KeyDown (plain_key ''?'')] [] ?h" by simp
  from chrome_run.step [OF this chrome_step.rerender]
  have 1: "chrome_run Admin [KeyDown (plain_key ''?''), Rerender] [] (clearChord ?h)" by simp
  have "onKeyDown Admin (plain_key ''g'') (clearChord ?h) = (?g, no_effect)"
    by (simp add: onKeyDown_def isEditableTarget_def)
  from chrome_run.step [OF 1 chrome_step.key [OF this]]
  have 2: "chrome_run Admin [KeyDown (plain_key ''?''), Rerender, KeyDown (plain_key ''g'')] [] ?g"
    by simp
  have "onKeyDown Admin (plain_key ''A'') ?g = (clearChord ?g, \<lparr>ke_prevent = True, ke_push = Some ''/tenant-admin''\<rparr>)"
    by code_simp
  from chrome_run.step [OF 2 chrome_step.key [OF this]]
  have "chrome_run Admin sample_keys [''/tenant-admin''] (clearChord ?g)" by simp
  moreover have "ch_helpOpen (clearChord ?g)" by simp
  ultimately show ?thesis by blast
qed

theorem chord_refines_history_witness:
  "\<exists>st. chrome_run Admin sample_keys [''/tenant-admin''] st \<and> ch_helpOpen st \<and>
     visited Admin (rev sample_keys) = [''/tenant-admin'']"
proof -
  obtain st where st: "chrome_run Admin sample_keys [''/tenant-admin''] st" "ch_helpOpen st" using sample_run by blast
  from chord_refines_history [OF st(1)] have "visited Admin (rev sample_keys) = [''/tenant-admin'']" by metis
  with st show ?thesis by blast
qed

text \<open>
  One list, three consumers. For every role the targets of the \<^verbatim>\<open>g\<close> chord, the navigation entries
  of the command palette and the links of the sidebar are the same pages, each of them a page of the
  console; the tenant-admin page is among them exactly for the roles to which that page shows its
  content.
\<close>

theorem navigation_agrees:
  "{p. \<exists>key. chord_target role key = Some p} = set (map sf_href (reachableSurfaces role)) \<and>
   {p. go p \<in> set (actions (CommandPalette shown role theme))} = set (map sf_href (reachableSurfaces role)) \<and>
   set (hrefs (SidebarNav path role)) = set (map sf_href (reachableSurfaces role)) \<and>
   set (map sf_href (reachableSurfaces role)) \<subseteq> set console_pages \<and>
   (''/tenant-admin'' \<in> set (map sf_href (reachableSurfaces role)) \<longleftrightarrow>
      El ''h2'' [] [] [Txt ''No tenant configuration to show''] \<in>
        set (case TenantAdminPage (Some \<lparr>s_email = email, s_role = role, s_issuedAt = i\<rparr>) of
               El _ _ _ [_, El _ _ _ cs] \<Rightarrow> cs | _ \<Rightarrow> []))"
proof (intro conjI)
  have keys: "list_all (\<lambda>s. find (\<lambda>x. sf_chordKey x = key_lower (sf_chordKey s)) (reachableSurfaces role) = Some s)
      (reachableSurfaces role)"
    by (cases role) (simp_all add: reachableSurfaces_def SURFACES_def key_lower_def)
  show "{p. \<exists>key. chord_target role key = Some p} = set (map sf_href (reachableSurfaces role))"
  proof (intro equalityI subsetI)
    fix p assume "p \<in> set (map sf_href (reachableSurfaces role))"
    then obtain s where "s \<in> set (reachableSurfaces role)" "p = sf_href s" by auto
    with keys show "p \<in> {p. \<exists>key. chord_target role key = Some p}"
      by (auto simp: list_all_iff chord_target_def)
  qed (auto dest: chord_target_reachable)
  show "{p. go p \<in> set (actions (CommandPalette shown role theme))} = set (map sf_href (reachableSurfaces role))"
    by (auto simp: CommandPalette_def go_def)
  have "''/'' \<in> sf_href ` set (reachableSurfaces role)" by (cases role) (simp_all add: reachableSurfaces_def SURFACES_def)
  then show "set (hrefs (SidebarNav path role)) = set (map sf_href (reachableSurfaces role))"
    by (auto simp: SidebarNav_def Let_def)
  show "set (map sf_href (reachableSurfaces role)) \<subseteq> set console_pages"
    by (auto simp: reachableSurfaces_def SURFACES_def console_pages_def)
  show "''/tenant-admin'' \<in> set (map sf_href (reachableSurfaces role)) \<longleftrightarrow>
      El ''h2'' [] [] [Txt ''No tenant configuration to show''] \<in>
        set (case TenantAdminPage (Some \<lparr>s_email = email, s_role = role, s_issuedAt = i\<rparr>) of
               El _ _ _ [_, El _ _ _ cs] \<Rightarrow> cs | _ \<Rightarrow> [])"
    by (cases role) (simp_all add: reachableSurfaces_def SURFACES_def TenantAdminPage_def ALLOWED_ROLES_def EmptyState_def)
qed

end
