(* ===== verification/Case_Stream.thy ===== *)
theory Case_Stream
  imports Store Kernel_Wasm
begin

text \<open>
  The live feed of the Watchfloor, end to end: the server half (\<^verbatim>\<open>app/api/cases/stream/route.ts\<close>), the
  text of its events, and the browser half (\<^verbatim>\<open>components/watchfloor/use-case-stream.ts\<close>), which folds the
  events into a replica of the server's case collection. React applies functional state updates in
  the order they were queued; a transition delays them but does not reorder them.
\<close>

section \<open>Events as text\<close>

fun entity_name :: "EntityType \<Rightarrow> string" where
  "entity_name HostEntity = ''host''"
| "entity_name UserEntity = ''user''"
| "entity_name ProcessEntity = ''process''"
| "entity_name IpEntity = ''ip''"
| "entity_name FileEntity = ''file''"
| "entity_name SessionEntity = ''session''"

fun status_name :: "CaseStatus \<Rightarrow> string" where
  "status_name Open = ''open''"
| "status_name Investigating = ''investigating''"
| "status_name Escalated = ''escalated''"
| "status_name Dismissed = ''dismissed''"
| "status_name Closed = ''closed''"

definition case_json :: "Case \<Rightarrow> json" where
  "case_json c = JObj ([
     (''id'', JStr (c_id c)),
     (''tenantId'', JStr (c_tenantId c)),
     (''title'', JStr (c_title c)),
     (''primaryEntity'', JStr (c_primaryEntity c)),
     (''entityType'', JStr (entity_name (c_entityType c))),
     (''severity'', JStr (severity_name (c_severity c))),
     (''disposition'', JStr (disposition_name (c_disposition c))),
     (''riskScore'', JNum (c_riskScore c)),
     (''tactics'', JArr (map (\<lambda>t. JStr (tactic_name t)) (c_tactics c))),
     (''claimCount'', JNum (c_claimCount c)),
     (''createdAtMs'', JNum (c_createdAtMs c)),
     (''updatedAtMs'', JNum (c_updatedAtMs c)),
     (''status'', JStr (status_name (c_status c))),
     (''assignee'', opt_json JStr (c_assignee c)),
     (''summary'', JStr (c_summary c))] @
     (case c_dismissReason c of None \<Rightarrow> [] | Some r \<Rightarrow> [(''dismissReason'', JStr r)]))"

definition fire_json :: "DetectorFireEvent \<Rightarrow> json" where
  "fire_json e = JObj ([(''id'', JStr (fe_id e)), (''atMs'', JNum (fe_atMs e))] @
     (case fe_ruleId e of None \<Rightarrow> [] | Some r \<Rightarrow> [(''ruleId'', JStr r)]) @
     [(''entity'', JStr (fe_entity e))])"

datatype StreamEvent = Hello int | New Case | Update Case | Fire DetectorFireEvent

fun stream_event :: "StoreEvent \<Rightarrow> StreamEvent" where
  "stream_event (NewEvent c) = New c"
| "stream_event (UpdateEvent c) = Update c"
| "stream_event (FireEvent e) = Fire e"

fun event_json :: "StreamEvent \<Rightarrow> json" where
  "event_json (Hello atMs) = JObj [(''kind'', JStr ''hello''), (''atMs'', JNum atMs)]"
| "event_json (New c) = JObj [(''kind'', JStr ''new''), (''case'', case_json c)]"
| "event_json (Update c) = JObj [(''kind'', JStr ''update''), (''case'', case_json c)]"
| "event_json (Fire e) = JObj [(''kind'', JStr ''fire''), (''event'', fire_json e)]"

text \<open>One frame of the stream, and the \<^verbatim>\<open>data\<close> the browser's \<^verbatim>\<open>EventSource\<close> hands on for it.\<close>

definition sse_frame :: "StreamEvent \<Rightarrow> string" where
  "sse_frame ev = ''data: '' @ stringify (event_json ev) @ [CHR 0x0A, CHR 0x0A]"

definition frame_data :: "string \<Rightarrow> string option" where
  "frame_data frame =
     (if take 6 frame = ''data: '' \<and> 8 \<le> length frame \<and> drop (length frame - 2) frame = [CHR 0x0A, CHR 0x0A]
      then Some (take (length frame - 8) (drop 6 frame)) else None)"

text \<open>\<^verbatim>\<open>JSON.parse(message.data) as StreamEvent\<close>: the fields the components read; the cast is unchecked,
  a document of another shape has no value here.\<close>

definition named :: "('a \<Rightarrow> string) \<Rightarrow> 'a list \<Rightarrow> string \<Rightarrow> 'a option" where
  "named name xs s = find (\<lambda>x. name x = s) xs"

definition ENTITY_KINDS :: "EntityType list" where
  "ENTITY_KINDS = [HostEntity, UserEntity, ProcessEntity, IpEntity, FileEntity, SessionEntity]"

definition nullable_string :: "json option \<Rightarrow> string option option" where
  "nullable_string j = (case j of Some JNull \<Rightarrow> Some None | Some (JStr s) \<Rightarrow> Some (Some s) | _ \<Rightarrow> None)"

definition optional_string :: "json option \<Rightarrow> string option option" where
  "optional_string j = (case j of None \<Rightarrow> Some None | Some (JStr s) \<Rightarrow> Some (Some s) | _ \<Rightarrow> None)"

definition tactic_of :: "json \<Rightarrow> Tactic option" where
  "tactic_of j = Option.bind (json_string j) (named tactic_name TACTICS)"

definition case_of :: "json \<Rightarrow> Case option" where
  "case_of j =
     Option.bind (str_field ''id'' j) (\<lambda>i.
     Option.bind (str_field ''tenantId'' j) (\<lambda>tenant.
     Option.bind (str_field ''title'' j) (\<lambda>title.
     Option.bind (str_field ''primaryEntity'' j) (\<lambda>entity.
     Option.bind (Option.bind (str_field ''entityType'' j) (named entity_name ENTITY_KINDS)) (\<lambda>kind.
     Option.bind (Option.bind (str_field ''severity'' j) (named severity_name SEVERITIES)) (\<lambda>sev.
     Option.bind (Option.bind (str_field ''disposition'' j) (named disposition_name DISPOSITIONS)) (\<lambda>disp.
     Option.bind (int_field ''riskScore'' j) (\<lambda>risk.
     Option.bind (list_field ''tactics'' tactic_of j) (\<lambda>tacs.
     Option.bind (int_field ''claimCount'' j) (\<lambda>claims.
     Option.bind (int_field ''createdAtMs'' j) (\<lambda>created.
     Option.bind (int_field ''updatedAtMs'' j) (\<lambda>updated.
     Option.bind (Option.bind (str_field ''status'' j) (named status_name CASE_STATUSES)) (\<lambda>status.
     Option.bind (nullable_string (json_get ''assignee'' j)) (\<lambda>assignee.
     Option.bind (str_field ''summary'' j) (\<lambda>summary.
     Option.bind (optional_string (json_get ''dismissReason'' j)) (\<lambda>reason.
     Some \<lparr>c_id = i, c_tenantId = tenant, c_title = title, c_primaryEntity = entity, c_entityType = kind,
       c_severity = sev, c_disposition = disp, c_riskScore = risk, c_tactics = tacs, c_claimCount = claims,
       c_createdAtMs = created, c_updatedAtMs = updated, c_status = status, c_assignee = assignee,
       c_summary = summary, c_dismissReason = reason\<rparr>))))))))))))))))"

definition fire_of :: "json \<Rightarrow> DetectorFireEvent option" where
  "fire_of j =
     Option.bind (str_field ''id'' j) (\<lambda>i.
     Option.bind (int_field ''atMs'' j) (\<lambda>atMs.
     Option.bind (optional_string (json_get ''ruleId'' j)) (\<lambda>rule.
     Option.bind (str_field ''entity'' j) (\<lambda>entity.
     Some \<lparr>fe_id = i, fe_atMs = atMs, fe_ruleId = rule, fe_entity = entity\<rparr>))))"

definition event_of :: "json \<Rightarrow> StreamEvent option" where
  "event_of j =
     (case str_field ''kind'' j of
        None \<Rightarrow> None
      | Some kind \<Rightarrow>
          if kind = ''hello'' then map_option Hello (int_field ''atMs'' j)
          else if kind = ''new'' then map_option New (Option.bind (json_get ''case'' j) case_of)
          else if kind = ''update'' then map_option Update (Option.bind (json_get ''case'' j) case_of)
          else map_option Fire (Option.bind (json_get ''event'' j) fire_of))"

definition receive :: "string \<Rightarrow> StreamEvent option" where
  "receive frame = Option.bind (Option.bind (frame_data frame) json_parse) event_of"

section \<open>The server half\<close>

text \<open>
  A connection: the store it ticks, whether its interval is still running, and the frames sent.
  The interval is cleared by an error of \<^verbatim>\<open>tick\<close> and by the client's disconnect.
\<close>

record Connection =
  cn_running :: bool
  cn_sent :: "string list"

definition stream_open :: "int \<Rightarrow> Connection" where
  "stream_open nowMs = \<lparr>cn_running = True, cn_sent = [sse_frame (Hello nowMs)]\<rparr>"

definition stream_interval ::
  "(rat \<Rightarrow> rat) \<Rightarrow> (nat \<Rightarrow> int) \<Rightarrow> Store \<times> Connection \<Rightarrow> Store \<times> Connection" where
  "stream_interval cube clock = (\<lambda>(store, conn).
     if cn_running conn then
       (case tick cube clock store of
          (Inr ev, store') \<Rightarrow> (store', conn\<lparr>cn_sent := cn_sent conn @ [sse_frame (stream_event ev)]\<rparr>)
        | (Inl e, store') \<Rightarrow> (store', conn\<lparr>cn_running := False\<rparr>))
     else (store, conn))"

definition stream_abort :: "Connection \<Rightarrow> Connection" where
  "stream_abort conn = conn\<lparr>cn_running := False\<rparr>"

section \<open>The browser half\<close>

record CaseStreamState =
  cs_cases :: "(string \<times> Case) list"
  cs_order :: "string list"
  cs_detectorFires :: "DetectorFireEvent list"
  cs_ingestRatePerSec :: rat
  cs_connected :: bool
  cs_fireTimestamps :: "int list" \<comment> \<open>\<^verbatim>\<open>fireTimestamps.current\<close>\<close>
  cs_seeded :: bool \<comment> \<open>\<^verbatim>\<open>seededRef.current\<close>\<close>

definition TICKER_LIMIT :: nat where "TICKER_LIMIT = 40"

definition stream_init :: CaseStreamState where
  "stream_init = \<lparr>cs_cases = [], cs_order = [], cs_detectorFires = [], cs_ingestRatePerSec = 0,
     cs_connected = False, cs_fireTimestamps = [], cs_seeded = False\<rparr>"

definition seed_cases :: "Case list \<Rightarrow> CaseStreamState \<Rightarrow> CaseStreamState" where
  "seed_cases initialCases s =
     (if cs_seeded s \<or> initialCases = [] then s
      else s\<lparr>cs_seeded := True, cs_cases := js_map_of (map (\<lambda>c. (c_id c, c)) initialCases),
             cs_order := map c_id initialCases\<rparr>)"

definition client_add :: "Case \<Rightarrow> CaseStreamState \<Rightarrow> CaseStreamState" where
  "client_add c s = s\<lparr>cs_cases := AList.update (c_id c) c (cs_cases s), cs_order := c_id c # cs_order s\<rparr>"

definition client_set :: "Case \<Rightarrow> CaseStreamState \<Rightarrow> CaseStreamState" where
  "client_set c s = s\<lparr>cs_cases := AList.update (c_id c) c (cs_cases s)\<rparr>"

definition client_fire :: "int \<Rightarrow> DetectorFireEvent \<Rightarrow> CaseStreamState \<Rightarrow> CaseStreamState" where
  "client_fire now e s =
     (let stamps = filter (\<lambda>t. now - t < 5000) (cs_fireTimestamps s @ [now]) in
      s\<lparr>cs_fireTimestamps := stamps, cs_detectorFires := take TICKER_LIMIT (e # cs_detectorFires s),
        cs_ingestRatePerSec := js_div (of_nat (length stamps)) 5\<rparr>)"

fun on_message :: "int \<Rightarrow> StreamEvent \<Rightarrow> CaseStreamState \<Rightarrow> CaseStreamState" where
  "on_message now (Hello atMs) s = s"
| "on_message now (New c) s = client_add c s"
| "on_message now (Update c) s = client_set c s"
| "on_message now (Fire e) s = client_fire now e s"

definition on_open :: "CaseStreamState \<Rightarrow> CaseStreamState" where
  "on_open s = s\<lparr>cs_connected := True\<rparr>"

definition on_error :: "CaseStreamState \<Rightarrow> CaseStreamState" where
  "on_error s = s\<lparr>cs_connected := False\<rparr>"

interpretation client: case_feed cs_cases cs_order client_add client_set
  by unfold_locales (simp_all add: client_add_def client_set_def)

section \<open>The wire\<close>

lemma named_name:
  "named entity_name ENTITY_KINDS (entity_name k) = Some k"
  "named severity_name SEVERITIES (severity_name s) = Some s"
  "named disposition_name DISPOSITIONS (disposition_name d) = Some d"
  "named status_name CASE_STATUSES (status_name st) = Some st"
  subgoal by (cases k) (simp_all add: named_def ENTITY_KINDS_def)
  subgoal by (cases s) (simp_all add: named_def SEVERITIES_def)
  subgoal by (cases d) (simp_all add: named_def DISPOSITIONS_def)
  subgoal by (cases st) (simp_all add: named_def CASE_STATUSES_def)
  done

lemma named_tactic: "named tactic_name TACTICS (tactic_name t) = Some t"
  by (cases t) (simp_all add: named_def TACTICS_def)

lemma tactic_of_JStr [simp]: "tactic_of (JStr (tactic_name t)) = Some t"
  by (simp add: tactic_of_def named_tactic)

lemma list_field_map:
  "(\<And>x. f (g x) = Some x) \<Longrightarrow> json_get k j = Some (JArr (map g xs)) \<Longrightarrow> list_field k f j = Some xs"
  by (simp add: list_field_def comp_def)

lemma case_fields:
  "str_field ''id'' (case_json c) = Some (c_id c)"
  "str_field ''tenantId'' (case_json c) = Some (c_tenantId c)"
  "str_field ''title'' (case_json c) = Some (c_title c)"
  "str_field ''primaryEntity'' (case_json c) = Some (c_primaryEntity c)"
  "str_field ''entityType'' (case_json c) = Some (entity_name (c_entityType c))"
  "str_field ''severity'' (case_json c) = Some (severity_name (c_severity c))"
  "str_field ''disposition'' (case_json c) = Some (disposition_name (c_disposition c))"
  "int_field ''riskScore'' (case_json c) = Some (c_riskScore c)"
  "list_field ''tactics'' tactic_of (case_json c) = Some (c_tactics c)"
  "int_field ''claimCount'' (case_json c) = Some (c_claimCount c)"
  "int_field ''createdAtMs'' (case_json c) = Some (c_createdAtMs c)"
  "int_field ''updatedAtMs'' (case_json c) = Some (c_updatedAtMs c)"
  "str_field ''status'' (case_json c) = Some (status_name (c_status c))"
  "nullable_string (json_get ''assignee'' (case_json c)) = Some (c_assignee c)"
  "str_field ''summary'' (case_json c) = Some (c_summary c)"
  "optional_string (json_get ''dismissReason'' (case_json c)) = Some (c_dismissReason c)"
  by (simp_all add: case_json_def str_field_def int_field_def nullable_string_def optional_string_def opt_json_def
      list_field_map [where g = "\<lambda>t. JStr (tactic_name t)"] split: option.split)

lemma case_of_json: "case_of (case_json c) = Some c"
  by (simp add: case_of_def case_fields named_name)

lemma fire_of_json: "fire_of (fire_json e) = Some e"
  by (cases "fe_ruleId e") (simp_all add: fire_of_def fire_json_def str_field_def int_field_def optional_string_def)

lemma event_of_json: "event_of (event_json ev) = Some ev"
  by (cases ev) (simp_all add: event_of_def str_field_def int_field_def case_of_json fire_of_json)

text \<open>Every number of the event is a double: milliseconds, scores and counts below \<open>2^53\<close> are.\<close>

definition exact_int :: "int \<Rightarrow> bool" where
  "exact_int n \<longleftrightarrow> fl (of_int n) = of_int n"

fun event_exact :: "StreamEvent \<Rightarrow> bool" where
  "event_exact (Hello atMs) = exact_int atMs"
| "event_exact (New c) = list_all exact_int [c_riskScore c, c_claimCount c, c_createdAtMs c, c_updatedAtMs c]"
| "event_exact (Update c) = list_all exact_int [c_riskScore c, c_claimCount c, c_createdAtMs c, c_updatedAtMs c]"
| "event_exact (Fire e) = exact_int (fe_atMs e)"

lemma case_json_wf:
  "list_all exact_int [c_riskScore c, c_claimCount c, c_createdAtMs c, c_updatedAtMs c] \<Longrightarrow> wf_json (case_json c)"
  by (simp add: case_json_def exact_int_def opt_json_def list_all_iff split: option.split)

lemma event_json_wf: "event_exact ev \<Longrightarrow> wf_json (event_json ev)"
  using case_json_wf by (cases ev) (simp_all add: exact_int_def fire_json_def split: option.split)

lemma frame_data_frame: "frame_data (sse_frame ev) = Some (stringify (event_json ev))"
  by (simp add: frame_data_def sse_frame_def)

lemma receive_frame: "event_exact ev \<Longrightarrow> receive (sse_frame ev) = Some ev"
  using json_parse_stringify [OF event_json_wf, of ev] by (simp add: receive_def frame_data_frame event_of_json)

section \<open>The page and the server\<close>

text \<open>
  One mounted Watchfloor against the server. \<^verbatim>\<open>tick\<close> runs once per interval of every open stream
  and always on the one store: \<open>fd_conns\<close> are the streams of other pages, and earlier streams of this
  one the server has not yet seen aborted. \<open>fd_conn\<close> is the page's own stream, of whose frames the
  first \<open>fd_got\<close> have been handed to \<^verbatim>\<open>onmessage\<close>; the others are in flight. \<open>fd_list\<close> is the answer to
  \<^verbatim>\<open>GET /api/cases\<close>, read from the store when the server handled the request and kept until the
  effect of the hook sees it; its JSON is that of the cases, which \<^const>\<open>case_of\<close> reads back. The page is
  mounted once: a later mount within the time React Query keeps the answer would be seeded with it again.
\<close>

record Feed =
  fd_store :: Store
  fd_conns :: "Connection list"
  fd_conn :: "Connection option"
  fd_got :: nat
  fd_list :: "Case list option"
  fd_client :: CaseStreamState

definition feed_init :: "Store \<Rightarrow> Connection list \<Rightarrow> Feed" where
  "feed_init store conns = \<lparr>fd_store = store, fd_conns = conns, fd_conn = None, fd_got = 0, fd_list = None,
     fd_client = stream_init\<rparr>"

definition in_flight :: "Feed \<Rightarrow> string list" where
  "in_flight f = (case fd_conn f of None \<Rightarrow> [] | Some conn \<Rightarrow> drop (fd_got f) (cn_sent conn))"

text \<open>The case an event carries, by its identifier.\<close>

fun carried :: "StreamEvent \<Rightarrow> (string \<times> Case) list" where
  "carried (Hello atMs) = []"
| "carried (New c) = [(c_id c, c)]"
| "carried (Update c) = [(c_id c, c)]"
| "carried (Fire e) = []"

definition event_ids :: "StreamEvent \<Rightarrow> string set" where
  "event_ids ev = fst ` set (carried ev)"

definition tick_ids :: "StoreEvent result \<Rightarrow> string set" where
  "tick_ids out = (case out of Inl e \<Rightarrow> {} | Inr ev \<Rightarrow> event_ids (stream_event ev))"

definition frame_ids :: "string \<Rightarrow> string set" where
  "frame_ids frame = (case receive frame of None \<Rightarrow> {} | Some ev \<Rightarrow> event_ids ev)"

definition flight_ids :: "Feed \<Rightarrow> string set" where
  "flight_ids f = \<Union> (frame_ids ` set (in_flight f))"

text \<open>
  The steps, in any order: the page's stream opens (\<open>connect\<close>), fires its interval (\<open>own_tick\<close>), hands
  over a frame (\<open>deliver\<close>) or drops with the frames in flight (\<open>lost\<close>); the server goes on serving the
  dropped stream until it is aborted. Other streams come, tick and go. The list is read from the
  store (\<open>fetch\<close>) and later reaches the hook (\<open>seed\<close>). Analysts decide.

  Beside the state runs the set of the identifiers of which the page has missed a change: a tick of
  another stream, whose event is sent to that stream alone; a frame lost with its connection; a
  frame handed over after the list was read and before the list replaced the collection. Reading
  the list makes up for what was missed until then, frames still in flight apart.

  Events carry doubles, and no tick draws a case with a missed pick.
\<close>

inductive feed_step :: "(rat \<Rightarrow> rat) \<Rightarrow> Feed \<times> string set \<Rightarrow> Feed \<times> string set \<Rightarrow> bool" for cube where
  connect: "fd_conn f = None \<Longrightarrow> exact_int nowMs \<Longrightarrow>
    feed_step cube (f, M) (f\<lparr>fd_conn := Some (stream_open nowMs), fd_got := 0\<rparr>, M)"
| opened: "fd_conn f \<noteq> None \<Longrightarrow> feed_step cube (f, M) (f\<lparr>fd_client := on_open (fd_client f)\<rparr>, M)"
| own_tick: "fd_conn f = Some conn \<Longrightarrow> cn_running conn \<Longrightarrow>
    tick cube clock (fd_store f) = (out, store') \<Longrightarrow> out \<noteq> Inl PickUndefined \<Longrightarrow>
    (\<And>ev. out = Inr ev \<Longrightarrow> event_exact (stream_event ev)) \<Longrightarrow>
    stream_interval cube clock (fd_store f, conn) = (store', conn') \<Longrightarrow>
    feed_step cube (f, M) (f\<lparr>fd_store := store', fd_conn := Some conn'\<rparr>, M)"
| deliver: "in_flight f = frame # rest \<Longrightarrow> receive frame = Some ev \<Longrightarrow>
    feed_step cube (f, M) (f\<lparr>fd_got := Suc (fd_got f), fd_client := on_message now ev (fd_client f)\<rparr>,
      if fd_list f \<noteq> None \<and> \<not> cs_seeded (fd_client f) then M \<union> event_ids ev else M)"
| lost: "fd_conn f = Some conn \<Longrightarrow>
    feed_step cube (f, M) (f\<lparr>fd_conn := None, fd_got := 0, fd_conns := fd_conns f @ [conn],
      fd_client := on_error (fd_client f)\<rparr>, M \<union> flight_ids f)"
| other_open: "feed_step cube (f, M) (f\<lparr>fd_conns := fd_conns f @ [stream_open nowMs]\<rparr>, M)"
| other_tick: "k < length (fd_conns f) \<Longrightarrow> cn_running (fd_conns f ! k) \<Longrightarrow>
    tick cube clock (fd_store f) = (out, store') \<Longrightarrow> out \<noteq> Inl PickUndefined \<Longrightarrow>
    stream_interval cube clock (fd_store f, fd_conns f ! k) = (store', conn') \<Longrightarrow>
    feed_step cube (f, M) (f\<lparr>fd_store := store', fd_conns := (fd_conns f)[k := conn']\<rparr>, M \<union> tick_ids out)"
| other_abort: "k < length (fd_conns f) \<Longrightarrow>
    feed_step cube (f, M) (f\<lparr>fd_conns := (fd_conns f)[k := stream_abort (fd_conns f ! k)]\<rparr>, M)"
| fetch: "fd_list f = None \<Longrightarrow> \<not> cs_seeded (fd_client f) \<Longrightarrow> listCases (fd_store f) = map Some cs \<Longrightarrow>
    feed_step cube (f, M) (f\<lparr>fd_list := Some cs\<rparr>, M \<inter> flight_ids f)"
| seed: "fd_list f = Some cs \<Longrightarrow> feed_step cube (f, M) (f\<lparr>fd_client := seed_cases cs (fd_client f)\<rparr>, M)"
| decided: "decideResponseAction i status (fd_store f) = (out, store') \<Longrightarrow>
    feed_step cube (f, M) (f\<lparr>fd_store := store'\<rparr>, M)"

inductive_cases feed_stepE: "feed_step cube (f, M) (f', M')"

section \<open>What the page knows\<close>

text \<open>
  The collection the page shows or is about to show: its own once seeded, else the list on its way.
\<close>

definition case_map :: "Case list \<Rightarrow> (string \<times> Case) list" where
  "case_map cs = js_map_of (map (\<lambda>c. (c_id c, c)) cs)"

definition view :: "Feed \<Rightarrow> ((string \<times> Case) list \<times> string list) option" where
  "view f = (if cs_seeded (fd_client f) then Some (cs_cases (fd_client f), cs_order (fd_client f))
             else map_option (\<lambda>cs. (case_map cs, map c_id cs)) (fd_list f))"

text \<open>The latest case in flight for an identifier, and the identifiers announced as new.\<close>

definition latest :: "StreamEvent list \<Rightarrow> string \<rightharpoonup> Case" where
  "latest evs = map_of (rev (concat (map carried evs)))"

fun new_ids :: "StreamEvent \<Rightarrow> string set" where
  "new_ids (New c) = {c_id c}"
| "new_ids ev = {}"

definition announced :: "StreamEvent list \<Rightarrow> string set" where
  "announced evs = \<Union> (new_ids ` set evs)"

text \<open>
  Of an identifier no change of which was missed: the latest event in flight carries the server's
  case; with none in flight the view holds it already. The order of the view lacks only what is
  announced.
\<close>

definition synced_id :: "Store \<Rightarrow> StreamEvent list \<Rightarrow> ((string \<times> Case) list \<times> string list) option \<Rightarrow> string \<Rightarrow> bool" where
  "synced_id store evs w i \<longleftrightarrow>
     (\<forall>c. latest evs i = Some c \<longrightarrow> map_of (s_cases store) i = Some c) \<and>
     (\<forall>m ord. w = Some (m, ord) \<longrightarrow>
        (latest evs i = None \<longrightarrow> map_of m i = map_of (s_cases store) i) \<and>
        (i \<in> set (s_order store) \<longleftrightarrow> i \<in> set ord \<or> i \<in> announced evs))"

definition synced :: "Store \<Rightarrow> StreamEvent list \<Rightarrow> ((string \<times> Case) list \<times> string list) option \<Rightarrow> string set \<Rightarrow> bool" where
  "synced store evs w M \<longleftrightarrow> announced evs \<subseteq> set (s_order store) \<and> (\<forall>i. i \<notin> M \<longrightarrow> synced_id store evs w i)"

definition feed_inv :: "Feed \<times> string set \<Rightarrow> bool" where
  "feed_inv = (\<lambda>(f, M). store_inv (fd_store f) \<and> fd_list f \<noteq> Some [] \<and>
     (\<exists>evs. in_flight f = map sse_frame evs \<and> list_all event_exact evs \<and> synced (fd_store f) evs (view f) M))"

lemma feed_invI:
  assumes "store_inv (fd_store f)" "fd_list f \<noteq> Some []" "in_flight f = map sse_frame evs" "list_all event_exact evs"
    and "synced (fd_store f) evs (view f) M"
  shows "feed_inv (f, M)"
  using assms by (auto simp: feed_inv_def)

lemma feed_invE:
  assumes "feed_inv (f, M)"
  obtains evs where "store_inv (fd_store f)" "fd_list f \<noteq> Some []" "in_flight f = map sse_frame evs"
    "list_all event_exact evs" "synced (fd_store f) evs (view f) M"
  using assms by (auto simp: feed_inv_def)

lemma latest_simps [simp]:
  "latest [] = Map.empty" "latest (evs @ [ev]) = latest evs ++ map_of (carried ev)"
  "latest (ev # evs) = map_of (carried ev) ++ latest evs"
  by (cases ev; simp add: latest_def map_add_def fun_eq_iff split: option.split)+

lemma announced_simps [simp]:
  "announced [] = {}" "announced (evs @ [ev]) = announced evs \<union> new_ids ev" "announced (ev # evs) = new_ids ev \<union> announced evs"
  by (auto simp: announced_def)

lemma event_ids_simps [simp]:
  "event_ids (Hello n) = {}" "event_ids (New c) = {c_id c}" "event_ids (Update c) = {c_id c}" "event_ids (Fire e) = {}"
  by (simp_all add: event_ids_def)

lemma new_event_ids: "new_ids ev \<subseteq> event_ids ev"
  by (cases ev) simp_all

lemma announced_ids: "i \<in> announced evs \<Longrightarrow> \<exists>ev \<in> set evs. i \<in> event_ids ev"
  using new_event_ids by (auto simp: announced_def)

lemma carried_None: "map_of (carried ev) i = None \<longleftrightarrow> i \<notin> event_ids ev"
  by (simp add: event_ids_def map_of_eq_None_iff)

lemma latest_ids: "latest evs i \<noteq> None \<longleftrightarrow> (\<exists>ev \<in> set evs. i \<in> event_ids ev)"
proof (induction evs)
  case (Cons ev evs)
  then show ?case by (cases ev) (auto simp: map_add_def split: option.splits)
qed simp

lemma flight_ids_events:
  assumes "in_flight f = map sse_frame evs" "list_all event_exact evs"
  shows "flight_ids f = \<Union> (event_ids ` set evs)"
  using assms by (simp add: flight_ids_def frame_ids_def list_all_iff receive_frame)

text \<open>What an event does to the server's collection and, when it is handed over, to the page's.\<close>

lemma effect_store:
  assumes "event_effect store ev store'"
  shows "map_of (s_cases store') = map_of (s_cases store) ++ map_of (carried (stream_event ev))"
    and "set (s_order store') = set (s_order store) \<union> new_ids (stream_event ev)"
proof -
  have "s_cases store' = foldr (\<lambda>(i, c). AList.update i c) (carried (stream_event ev)) (s_cases store) \<and>
      set (s_order store') = set (s_order store) \<union> new_ids (stream_event ev)"
    using assms by (cases ev) (auto simp: store_add_def store_set_def push_fire_def Let_def
        dest!: arg_cong [where f = "\<lambda>s. (s_cases s, s_order s)"])
  then show "map_of (s_cases store') = map_of (s_cases store) ++ map_of (carried (stream_event ev))"
    and "set (s_order store') = set (s_order store) \<union> new_ids (stream_event ev)"
    by (cases ev; simp add: update_conv')+
qed

lemma on_message_client:
  "map_of (cs_cases (on_message now ev c)) = map_of (cs_cases c) ++ map_of (carried ev)"
  "set (cs_order (on_message now ev c)) = new_ids ev \<union> set (cs_order c)"
  "cs_seeded (on_message now ev c) = cs_seeded c"
  by (cases ev; simp add: client_add_def client_set_def client_fire_def Let_def update_conv')+

lemma synced_own_tick:
  assumes "synced store evs w M" "event_effect store ev store'"
  shows "synced store' (evs @ [stream_event ev]) w M"
  unfolding synced_def
proof (intro conjI allI impI)
  note eff = effect_store [OF assms(2)]
  show "announced (evs @ [stream_event ev]) \<subseteq> set (s_order store')" using assms(1) eff(2) by (auto simp: synced_def)
  fix i assume "i \<notin> M"
  with assms(1) have "synced_id store evs w i" by (simp add: synced_def)
  then show "synced_id store' (evs @ [stream_event ev]) w i"
    by (cases "latest evs i"; cases "map_of (carried (stream_event ev)) i") (auto simp: synced_id_def eff map_add_def)
qed

lemma synced_other_tick:
  assumes "synced store evs w M" "event_effect store ev store'"
  shows "synced store' evs w (M \<union> event_ids (stream_event ev))"
  unfolding synced_def
proof (intro conjI allI impI)
  note eff = effect_store [OF assms(2)]
  show "announced evs \<subseteq> set (s_order store')" using assms(1) eff(2) by (auto simp: synced_def)
  fix i assume i: "i \<notin> M \<union> event_ids (stream_event ev)"
  then have "map_of (carried (stream_event ev)) i = None" "i \<notin> new_ids (stream_event ev)"
    using new_event_ids by (auto simp: carried_None)
  moreover have "synced_id store evs w i" using assms(1) i by (simp add: synced_def)
  ultimately show "synced_id store' evs w i" by (simp add: synced_id_def eff map_add_def)
qed

lemma synced_only_rng:
  assumes "synced store evs w M" "s_cases store' = s_cases store \<and> s_order store' = s_order store"
  shows "synced store' evs w M"
  using assms(1) unfolding synced_def synced_id_def assms(2) [THEN conjunct1] assms(2) [THEN conjunct2] .

lemma synced_deliver:
  assumes "synced store (ev # evs) (Some (cs_cases c, cs_order c)) M"
  shows "synced store evs (Some (cs_cases (on_message now ev c), cs_order (on_message now ev c))) M"
  unfolding synced_def
proof (intro conjI allI impI)
  show "announced evs \<subseteq> set (s_order store)" using assms by (auto simp: synced_def)
  fix i assume "i \<notin> M"
  with assms have "synced_id store (ev # evs) (Some (cs_cases c, cs_order c)) i" by (simp add: synced_def)
  then show "synced_id store evs (Some (cs_cases (on_message now ev c), cs_order (on_message now ev c))) i"
    by (cases "latest evs i"; cases "map_of (carried ev) i")
       (auto simp: synced_id_def on_message_client map_add_def)
qed

lemma synced_deliver_unread:
  assumes "synced store (ev # evs) None M"
  shows "synced store evs None M"
  using assms by (auto simp: synced_def synced_id_def map_add_Some_iff)

lemma synced_deliver_early:
  assumes "synced store (ev # evs) w M"
  shows "synced store evs w (M \<union> event_ids ev)"
  unfolding synced_def
proof (intro conjI allI impI)
  show "announced evs \<subseteq> set (s_order store)" using assms by (auto simp: synced_def)
  fix i assume i: "i \<notin> M \<union> event_ids ev"
  then have "map_of (carried ev) i = None" "i \<notin> new_ids ev" using new_event_ids by (auto simp: carried_None)
  moreover have "synced_id store (ev # evs) w i" using assms i by (simp add: synced_def)
  ultimately show "synced_id store evs w i" by (auto simp: synced_id_def map_add_def split: option.splits)
qed

lemma synced_lost:
  assumes "synced store evs w M"
  shows "synced store [] w (M \<union> \<Union> (event_ids ` set evs))"
  unfolding synced_def
proof (intro conjI allI impI)
  fix i assume i: "i \<notin> M \<union> \<Union> (event_ids ` set evs)"
  then have "latest evs i = None" "i \<notin> announced evs" using latest_ids [of evs i] announced_ids [of i evs] by auto
  with assms i show "synced_id store [] w i" by (auto simp: synced_def synced_id_def)
qed simp

text \<open>Reading the list: the fold over the listed cases gives back the map it was read from.\<close>

lemma map_of_case_map:
  "map_of (case_map cs) k = (if k \<in> c_id ` set cs then Some (last (filter (\<lambda>c. c_id c = k) cs)) else None)"
  unfolding case_map_def by (induction cs rule: rev_induct) (auto simp: js_map_of_def update_conv')

lemma list_is_store:
  assumes "store_inv store" "listCases store = map Some cs"
  shows "map_of (case_map cs) = map_of (s_cases store)" and "map c_id cs = s_order store" and "cs \<noteq> []"
proof -
  obtain ds where "listCases store = map Some ds" "map c_id ds = s_order store"
    using server.listing_total [OF store_inv_good [OF assms(1)]] listCases_listing by metis
  with assms(2) show ids: "map c_id cs = s_order store" by simp
  have get: "map_of (s_cases store) (c_id c) = Some c" if c: "c \<in> set cs" for c
  proof -
    obtain i where i: "i < length cs" "cs ! i = c" using c by (auto simp: in_set_conv_nth)
    then have "s_order store ! i = c_id c" "i < length (s_order store)" using ids by (metis nth_map, metis length_map)
    moreover have "listCases store ! i = Some c" using i assms(2) by simp
    ultimately show ?thesis by (simp add: listCases_def)
  qed
  have keys: "fst ` set (s_cases store) = c_id ` set cs"
    using assms(1) ids by (metis store_inv_def feed_ok_def list.set_map)
  show "map_of (case_map cs) = map_of (s_cases store)"
  proof
    fix k
    show "map_of (case_map cs) k = map_of (s_cases store) k"
    proof (cases "k \<in> c_id ` set cs")
      case True
      then have ne: "filter (\<lambda>c. c_id c = k) cs \<noteq> []" by (auto simp: filter_empty_conv)
      let ?c = "last (filter (\<lambda>c. c_id c = k) cs)"
      have "?c \<in> set cs" "c_id ?c = k" using last_in_set [OF ne] by auto
      with get [of ?c] True show ?thesis by (simp add: map_of_case_map)
    next
      case False
      with keys have "map_of (s_cases store) k = None" by (simp add: map_of_eq_None_iff)
      with False show ?thesis by (simp add: map_of_case_map)
    qed
  qed
  show "cs \<noteq> []" using ids assms(1) by (auto simp: store_inv_def)
qed

lemma synced_fetch:
  assumes "synced store evs w M" "store_inv store" "listCases store = map Some cs"
  shows "synced store evs (Some (case_map cs, map c_id cs)) (M \<inter> \<Union> (event_ids ` set evs))"
  unfolding synced_def
proof (intro conjI allI impI)
  show new: "announced evs \<subseteq> set (s_order store)" using assms(1) by (simp add: synced_def)
  fix i assume i: "i \<notin> M \<inter> \<Union> (event_ids ` set evs)"
  have "map_of (s_cases store) i = Some c" if "latest evs i = Some c" for c
    using that i latest_ids [of evs i] assms(1) by (auto simp: synced_def synced_id_def)
  then show "synced_id store evs (Some (case_map cs, map c_id cs)) i"
    using list_is_store [OF assms(2,3)] new by (auto simp: synced_id_def)
qed

section \<open>Every step keeps it\<close>

lemma view_seed: "fd_list f = Some cs \<Longrightarrow> cs \<noteq> [] \<Longrightarrow> view (f\<lparr>fd_client := seed_cases cs (fd_client f)\<rparr>) = view f"
  by (simp add: view_def seed_cases_def case_map_def)

lemma view_client:
  "cs_seeded c = cs_seeded (fd_client f) \<Longrightarrow> cs_cases c = cs_cases (fd_client f) \<Longrightarrow> cs_order c = cs_order (fd_client f) \<Longrightarrow>
     view (f\<lparr>fd_client := c\<rparr>) = view f"
  by (simp add: view_def)

lemma view_simps [simp]:
  "view (f\<lparr>fd_store := s\<rparr>) = view f" "view (f\<lparr>fd_conns := cns\<rparr>) = view f" "view (f\<lparr>fd_conn := cn\<rparr>) = view f"
  "view (f\<lparr>fd_got := n\<rparr>) = view f"
  by (simp_all add: view_def)

lemma in_flight_simps [simp]:
  "in_flight (f\<lparr>fd_store := s\<rparr>) = in_flight f" "in_flight (f\<lparr>fd_conns := cns\<rparr>) = in_flight f"
  "in_flight (f\<lparr>fd_client := c\<rparr>) = in_flight f" "in_flight (f\<lparr>fd_list := l\<rparr>) = in_flight f"
  "in_flight (f\<lparr>fd_conn := None\<rparr>) = []"
  by (simp_all add: in_flight_def cong: option.case_cong)

lemma tick_outcome:
  assumes "tick cube clock store = (out, store')" "out \<noteq> Inl PickUndefined" "store_inv store" "cube_nonneg cube"
  shows "store_inv store'" and "\<And>ev. out = Inr ev \<Longrightarrow> event_effect store ev store'"
    and "\<And>e. out = Inl e \<Longrightarrow> s_cases store' = s_cases store \<and> s_order store' = s_order store"
proof -
  have r: "tick_result store (out, store')" using tick_spec [OF assms(3,4)] assms(1) by metis
  show "store_inv store'" using r assms(3) by (rule tick_result_inv)
  show "event_effect store ev store'" if "out = Inr ev" for ev using r that by (simp add: tick_result_def)
  show "s_cases store' = s_cases store \<and> s_order store' = s_order store" if "out = Inl e" for e
    using r that by (auto simp: tick_result_def only_rng_def dest!: arg_cong [where f = "\<lambda>s. (s_cases s, s_order s)"])
qed

lemma drop_Cons_next: "drop n xs = y # ys \<Longrightarrow> n < length xs \<and> drop (Suc n) xs = ys"
  by (cases "n < length xs") (auto simp: Cons_nth_drop_Suc [symmetric])

lemma own_tick_inv:
  assumes "feed_inv (f, M)" "cube_nonneg cube" "fd_conn f = Some conn" "cn_running conn" "fd_got f \<le> length (cn_sent conn)"
    and "tick cube clock (fd_store f) = (out, store')" "out \<noteq> Inl PickUndefined"
    and "\<And>ev. out = Inr ev \<Longrightarrow> event_exact (stream_event ev)"
    and "stream_interval cube clock (fd_store f, conn) = (store', conn')"
  shows "feed_inv (f\<lparr>fd_store := store', fd_conn := Some conn'\<rparr>, M)"
  using assms(1)
proof (rule feed_invE)
  fix evs assume inv: "store_inv (fd_store f)" "fd_list f \<noteq> Some []" "in_flight f = map sse_frame evs"
    "list_all event_exact evs" "synced (fd_store f) evs (view f) M"
  note t = tick_outcome [OF assms(6,7) inv(1) assms(2)]
  show ?thesis
  proof (cases out)
    case (Inl e)
    with assms(4,6,9) have "cn_sent conn' = cn_sent conn" by (auto simp: stream_interval_def)
    with inv assms(3) t(1) synced_only_rng [OF inv(5) t(3) [OF Inl]] show ?thesis
      by (intro feed_invI [where evs = evs]) (simp_all add: in_flight_def)
  next
    case (Inr ev)
    with assms(4,6,9) have "cn_sent conn' = cn_sent conn @ [sse_frame (stream_event ev)]"
      by (auto simp: stream_interval_def)
    with inv assms(3,5) assms(8) [OF Inr] t(1) synced_own_tick [OF inv(5) t(2) [OF Inr]] show ?thesis
      by (intro feed_invI [where evs = "evs @ [stream_event ev]"]) (simp_all add: in_flight_def)
  qed
qed

lemma other_tick_inv:
  assumes "feed_inv (f, M)" "cube_nonneg cube" "tick cube clock (fd_store f) = (out, store')" "out \<noteq> Inl PickUndefined"
  shows "feed_inv (f\<lparr>fd_store := store', fd_conns := conns\<rparr>, M \<union> tick_ids out)"
  using assms(1)
proof (rule feed_invE)
  fix evs assume inv: "store_inv (fd_store f)" "fd_list f \<noteq> Some []" "in_flight f = map sse_frame evs"
    "list_all event_exact evs" "synced (fd_store f) evs (view f) M"
  note t = tick_outcome [OF assms(3,4) inv(1) assms(2)]
  have "synced store' evs (view f) (M \<union> tick_ids out)"
    using synced_only_rng [OF inv(5) t(3)] synced_other_tick [OF inv(5) t(2)] by (cases out) (simp_all add: tick_ids_def)
  with inv t(1) show ?thesis by (intro feed_invI [where evs = evs]) simp_all
qed

lemma deliver_inv:
  assumes "feed_inv (f, M)" "in_flight f = frame # rest" "receive frame = Some ev"
  shows "feed_inv (f\<lparr>fd_got := Suc (fd_got f), fd_client := on_message now ev (fd_client f)\<rparr>,
      if fd_list f \<noteq> None \<and> \<not> cs_seeded (fd_client f) then M \<union> event_ids ev else M)"
  using assms(1)
proof (rule feed_invE)
  let ?f = "f\<lparr>fd_got := Suc (fd_got f), fd_client := on_message now ev (fd_client f)\<rparr>"
  fix evs0 assume inv: "store_inv (fd_store f)" "fd_list f \<noteq> Some []" "in_flight f = map sse_frame evs0"
    "list_all event_exact evs0" "synced (fd_store f) evs0 (view f) M"
  obtain evs where evs: "evs0 = ev # evs" "rest = map sse_frame evs"
    using assms(2,3) inv(3,4) receive_frame by (cases evs0) auto
  have fl: "in_flight ?f = map sse_frame evs"
    using assms(2) evs(2) by (auto simp: in_flight_def dest: drop_Cons_next split: option.splits)
  have "synced (fd_store f) evs (view ?f) (if fd_list f \<noteq> None \<and> \<not> cs_seeded (fd_client f) then M \<union> event_ids ev else M)"
  proof (cases "cs_seeded (fd_client f)")
    case True
    with inv(5) evs(1) show ?thesis by (simp add: view_def on_message_client synced_deliver)
  next
    case False
    then have "view ?f = view f" by (simp add: view_def on_message_client)
    with False inv(5) evs(1) show ?thesis
      using synced_deliver_unread synced_deliver_early by (cases "fd_list f") (auto simp: view_def)
  qed
  with inv evs fl show ?thesis by (intro feed_invI [where evs = evs]) simp_all
qed

text \<open>The page has received no more frames than were sent.\<close>

definition got_ok :: "Feed \<Rightarrow> bool" where
  "got_ok f \<longleftrightarrow> (\<forall>conn. fd_conn f = Some conn \<longrightarrow> fd_got f \<le> length (cn_sent conn))"

lemma got_ok_step: "feed_step cube (f, M) (f', M') \<Longrightarrow> got_ok f \<Longrightarrow> got_ok f'"
  by (erule feed_stepE)
     (auto simp: got_ok_def stream_interval_def in_flight_def Suc_le_eq dest: drop_Cons_next
       split: prod.splits sum.splits option.splits if_splits)

lemma feed_step_inv:
  assumes "feed_step cube (f, M) (f', M')" "cube_nonneg cube" "got_ok f" "feed_inv (f, M)"
  shows "feed_inv (f', M')"
  using assms(4)
proof (rule feed_invE)
  fix evs assume inv: "store_inv (fd_store f)" "fd_list f \<noteq> Some []" "in_flight f = map sse_frame evs"
    "list_all event_exact evs" "synced (fd_store f) evs (view f) M"
  note same = feed_invI [where evs = evs]
  from assms(1) show ?thesis
  proof cases
    case (connect nowMs)
    then have "evs = []" using inv(3) by (simp add: in_flight_def)
    with connect inv show ?thesis
      by (intro feed_invI [where evs = "[Hello nowMs]"])
         (simp_all add: in_flight_def stream_open_def synced_def synced_id_def)
  next
    case opened
    with inv show ?thesis by (intro same) (simp_all add: view_client on_open_def)
  next
    case (own_tick conn clock out store' conn')
    with assms(3) show ?thesis using own_tick_inv [OF assms(4,2)] by (simp add: got_ok_def)
  next
    case (deliver frame rest ev now)
    then show ?thesis using deliver_inv [OF assms(4)] by simp
  next
    case (lost conn)
    have "view f' = view f" using lost by (simp add: view_def on_error_def)
    with lost inv synced_lost [OF inv(5)] flight_ids_events [OF inv(3,4)] show ?thesis
      by (intro feed_invI [where evs = "[]"]) (simp_all add: in_flight_def)
  next
    case (other_open nowMs)
    with inv show ?thesis by (intro same) simp_all
  next
    case (other_tick k clock out store' conn')
    then show ?thesis using other_tick_inv [OF assms(4,2)] by simp
  next
    case (other_abort k)
    with inv show ?thesis by (intro same) simp_all
  next
    case (fetch cs)
    then have "view f' = Some (case_map cs, map c_id cs)" by (simp add: view_def)
    with fetch inv synced_fetch [OF inv(5,1) fetch(5)] flight_ids_events [OF inv(3,4)] list_is_store(3) [OF inv(1) fetch(5)]
    show ?thesis by (intro same) simp_all
  next
    case (seed cs)
    with inv show ?thesis by (intro same) (auto simp: view_seed)
  next
    case (decided i status out store')
    have "store_inv store'" using decide_inv [OF decided(3) inv(1)] .
    moreover have "s_cases store' = s_cases (fd_store f) \<and> s_order store' = s_order (fd_store f)"
      using decided(3) by (auto simp: decideResponseAction_def Let_def split: option.splits)
    ultimately show ?thesis using decided inv synced_only_rng [OF inv(5)] by (intro same) simp_all
  qed
qed

lemma feed_run_inv:
  assumes "(feed_step cube)\<^sup>*\<^sup>* (feed_init store conns, M) p" "cube_nonneg cube" "store_inv store"
  shows "feed_inv p \<and> got_ok (fst p)"
  using assms(1)
proof (induction rule: rtranclp_induct)
  case base
  have "feed_inv (feed_init store conns, M)"
    using assms(3)
    by (intro feed_invI [where evs = "[]"])
       (simp_all add: feed_init_def in_flight_def stream_init_def view_def synced_def synced_id_def)
  then show ?case by (simp add: got_ok_def feed_init_def)
next
  case (step p q)
  then show ?case
    using feed_step_inv [of cube "fst p" "snd p" "fst q" "snd q"] got_ok_step [of cube "fst p" "snd p" "fst q" "snd q"] assms(2)
    by simp
qed

section \<open>Properties\<close>

text \<open>
  C37: what the server serialises the browser reads back: for every event whose numbers are doubles
  the frame of the event stream yields exactly that event again, every field of the case included.
\<close>

theorem stream_roundtrip:
  assumes "event_exact ev"
  shows "receive (sse_frame ev) = Some ev"
  using assms by (rule receive_frame)

theorem stream_roundtrip_witness: "receive (sse_frame (New sample_case)) = Some (New sample_case)"
proof -
  have "exact_int n" if "\<bar>n\<bar> \<le> 2 ^ 53" for n using fl_int [OF that] by (simp add: exact_int_def)
  then show ?thesis by (intro stream_roundtrip) (simp add: sample_case_def)
qed


lemma sample_feed:
  "\<exists>f. (feed_step sample_cube)\<^sup>*\<^sup>* (feed_init sample_store [], {}) (f, {}) \<and> cs_seeded (fd_client f) \<and>
     in_flight f = [] \<and> map_of (s_cases (fd_store f)) ''case-0'' = Some (tick_case sample_case (- 109) 9000)"
proof -
  define c where "c = tick_case sample_case (- 109) 9000"
  define store where "store = store_set c (sample_store\<lparr>s_liveRng := 587600269\<rparr>)"
  define f1 where "f1 = (feed_init sample_store [])\<lparr>fd_conn := Some (stream_open 8000), fd_got := 0\<rparr>"
  define f2 where "f2 = f1\<lparr>fd_list := Some [sample_case]\<rparr>"
  define f3 where "f3 = f2\<lparr>fd_client := seed_cases [sample_case] (fd_client f2)\<rparr>"
  define conn where "conn = (stream_open 8000)\<lparr>cn_sent := [sse_frame (Hello 8000), sse_frame (Update c)]\<rparr>"
  define f4 where "f4 = f3\<lparr>fd_store := store, fd_conn := Some conn\<rparr>"
  define f5 where "f5 = f4\<lparr>fd_got := Suc (fd_got f4), fd_client := on_message 9000 (Hello 8000) (fd_client f4)\<rparr>"
  define f6 where "f6 = f5\<lparr>fd_got := Suc (fd_got f5), fd_client := on_message 9000 (Update c) (fd_client f5)\<rparr>"
  have ex: "exact_int n" if "\<bar>n\<bar> \<le> 2 ^ 53" for n using fl_int [OF that] by (simp add: exact_int_def)
  have exact: "event_exact (Hello 8000)" "event_exact (Update c)"
    by (simp_all add: ex c_def tick_case_def sample_case_def Let_def)
  have id: "c_id c = ''case-0''" by (simp add: c_def tick_case_def sample_case_def Let_def)
  let ?step = "feed_step sample_cube"
  have s1: "?step (feed_init sample_store [], {}) (f1, {})"
    unfolding f1_def by (rule connect) (simp_all add: feed_init_def ex)
  have "?step (f1, {}) (f2, {} \<inter> flight_ids f1)"
    unfolding f2_def by (rule fetch) (simp_all add: f1_def feed_init_def stream_init_def listCases_def sample_store_def)
  then have s2: "?step (f1, {}) (f2, {})" by simp
  have s3: "?step (f2, {}) (f3, {})" unfolding f3_def by (rule seed) (simp add: f2_def)
  have s4: "?step (f3, {}) (f4, {})"
    unfolding f4_def
  proof (rule own_tick)
    show "fd_conn f3 = Some (stream_open 8000)" by (simp add: f3_def f2_def f1_def)
    have st: "fd_store f3 = sample_store" by (simp add: f3_def f2_def f1_def feed_init_def)
    show t: "tick sample_cube (\<lambda>k. 9000) (fd_store f3) = (Inr (UpdateEvent c), store)"
      by (simp only: st sample_tick c_def store_def)
    show "stream_interval sample_cube (\<lambda>k. 9000) (fd_store f3, stream_open 8000) = (store, conn)"
      using t by (simp add: stream_interval_def stream_open_def conn_def)
  qed (use exact in \<open>simp_all add: stream_open_def\<close>)
  have fl: "in_flight f4 = [sse_frame (Hello 8000), sse_frame (Update c)]"
    by (simp add: f4_def f3_def f2_def f1_def in_flight_def conn_def)
  have seeded: "cs_seeded (fd_client f4)" by (simp add: f4_def f3_def f2_def f1_def feed_init_def seed_cases_def stream_init_def)
  have s5: "?step (f4, {}) (f5, {})"
    using deliver [OF fl receive_frame [OF exact(1)], of sample_cube "{}" 9000] seeded by (simp add: f5_def)
  have fl5: "in_flight f5 = [sse_frame (Update c)]" by (simp add: f5_def f4_def f3_def f2_def f1_def in_flight_def conn_def)
  have s6: "?step (f5, {}) (f6, {})"
    using deliver [OF fl5 receive_frame [OF exact(2)], of sample_cube "{}" 9000] seeded by (simp add: f6_def f5_def)
  note go = converse_rtranclp_into_rtranclp [where r = "feed_step sample_cube"]
  have "?step\<^sup>*\<^sup>* (feed_init sample_store [], {}) (f6, {})"
    by (rule go [OF s1 go [OF s2 go [OF s3 go [OF s4 go [OF s5 go [OF s6 rtranclp.rtrancl_refl]]]]]])
  moreover have "cs_seeded (fd_client f6)" using seeded by (simp add: f6_def f5_def client_set_def)
  moreover have "in_flight f6 = []" by (simp add: f6_def f5_def f4_def f3_def f2_def f1_def in_flight_def conn_def)
  moreover have "map_of (s_cases (fd_store f6)) ''case-0'' = Some c"
    by (simp add: f6_def f5_def f4_def store_def store_set_def id update_conv')
  ultimately show ?thesis by (auto simp: c_def)
qed


text \<open>
  An event announced before the list was read and handed over after it arrived: the record is the
  right one, but its row is now there twice.
\<close>

lemma announced_twice:
  assumes "\<not> cs_seeded s" "c \<in> set cs"
  shows "count_list (cs_order (on_message now (New c) (seed_cases cs s))) (c_id c) = Suc (count_list (map c_id cs) (c_id c))"
  using assms by (auto simp: client_add_def seed_cases_def)

end
