(* ===== verification/Canvas.thy ===== *)
theory Canvas
  imports Graph Quadtree Chrome Case_Stream
begin

text \<open>
  The Investigation Canvas, \<^verbatim>\<open>web/src/components/investigation-canvas\<close>: the time-aware layout, the viewport
  and hit-testing of \<^verbatim>\<open>graph-canvas.tsx\<close>, selection and replay of \<^verbatim>\<open>investigation-canvas-client.tsx\<close>, and the two
  side panels. WebGL drawing is not modelled; what it is given (segments, positions, point sizes) is.
  \<^verbatim>\<open>Math.hypot\<close> is implementation-approximated and a parameter; \<open>dpr\<close> is \<^verbatim>\<open>devicePixelRatio\<close>.
\<close>

section \<open>Layout\<close>

definition COLUMN_WIDTH :: int where "COLUMN_WIDTH = 160"
definition CANVAS_ROW_HEIGHT :: int where "CANVAS_ROW_HEIGHT = 28"

record LaidOutNode = GraphNode +
  ln_x :: int
  ln_y :: int
  ln_column :: int

definition layout_column :: "int \<Rightarrow> int \<Rightarrow> int \<Rightarrow> GraphNode \<Rightarrow> int" where
  "layout_column minMs spanMs columnCount n =
     min (columnCount - 1)
       (js_floor (js_mul (js_div (js_sub (of_int (gn_firstSeenMs n)) (of_int minMs)) (of_int spanMs)) (of_int columnCount)))"

definition push_column :: "(GraphNode \<Rightarrow> int) \<Rightarrow> (int \<times> GraphNode list) list \<Rightarrow> GraphNode \<Rightarrow> (int \<times> GraphNode list) list" where
  "push_column col m n = AList.update (col n) ((case map_of m (col n) of None \<Rightarrow> [] | Some ns \<Rightarrow> ns) @ [n]) m"

definition laid_out :: "int \<Rightarrow> nat \<Rightarrow> GraphNode \<Rightarrow> LaidOutNode" where
  "laid_out column row n =
     GraphNode.extend n (LaidOutNode.fields (column * COLUMN_WIDTH) (int row * CANVAS_ROW_HEIGHT) column)"

definition column_nodes :: "int \<times> GraphNode list \<Rightarrow> LaidOutNode list" where
  "column_nodes = (\<lambda>(column, colNodes).
     map (\<lambda>(row, n). laid_out column row n) (List.enumerate 0 (sort_key gn_id colNodes)))"

definition layoutNodes :: "GraphNode list \<Rightarrow> int \<Rightarrow> LaidOutNode list" where
  "layoutNodes nodes columnCount =
     (if nodes = [] then []
      else let minMs = Min (set (map gn_firstSeenMs nodes)); maxMs = Max (set (map gn_firstSeenMs nodes));
               spanMs = max 1 (maxMs - minMs);
               byColumn = foldl (push_column (layout_column minMs spanMs columnCount)) [] nodes
           in concat (map column_nodes byColumn))"

section \<open>Geometry of the canvas\<close>

definition HIT_RADIUS_PX :: rat where "HIT_RADIUS_PX = 10"
definition LABEL_ZOOM_THRESHOLD :: rat where "LABEL_ZOOM_THRESHOLD = fl (14 / 10)"
definition MAX_LABELS :: nat where "MAX_LABELS = 120"

record Viewport =
  v_panX :: rat
  v_panY :: rat
  v_zoom :: rat
  v_width :: rat
  v_height :: rat

definition viewport_init :: Viewport where
  "viewport_init = \<lparr>v_panX = 0, v_panY = 0, v_zoom = 1, v_width = 800, v_height = 600\<rparr>"

definition nodeById :: "LaidOutNode list \<Rightarrow> (string \<times> LaidOutNode) list" where
  "nodeById laidOut = js_map_of (map (\<lambda>n. (gn_id n, n)) laidOut)"

definition canvas_quadtree :: "LaidOutNode list \<Rightarrow> QuadNode option" where
  "canvas_quadtree laidOut =
     (if laidOut = [] then None
      else let xs = set (map ln_x laidOut); ys = set (map ln_y laidOut);
               minX = Min xs - COLUMN_WIDTH; minY = Min ys - CANVAS_ROW_HEIGHT;
               maxX = Max xs + COLUMN_WIDTH; maxY = Max ys + CANVAS_ROW_HEIGHT
           in Some (Quadtree \<lparr>b_x = of_int minX, b_y = of_int minY, b_w = of_int (maxX - minX), b_h = of_int (maxY - minY)\<rparr>
                (map (\<lambda>n. \<lparr>qp_id = gn_id n, qp_x = of_int (ln_x n), qp_y = of_int (ln_y n)\<rparr>) laidOut)))"

record EdgeGeom =
  eg_edge :: GraphEdge
  eg_x1 :: rat
  eg_y1 :: rat
  eg_x2 :: rat
  eg_y2 :: rat

definition edge_geom :: "(string \<times> LaidOutNode) list \<Rightarrow> GraphEdge \<Rightarrow> EdgeGeom option" where
  "edge_geom byId e =
     (case (map_of byId (ge_fromNodeId e), map_of byId (ge_toNodeId e)) of
        (Some from, Some to) \<Rightarrow>
          Some \<lparr>eg_edge = e, eg_x1 = of_int (ln_x from), eg_y1 = of_int (ln_y from), eg_x2 = of_int (ln_x to), eg_y2 = of_int (ln_y to)\<rparr>
      | _ \<Rightarrow> None)"

definition segment :: "EdgeGeom \<Rightarrow> rat list" where
  "segment g = [eg_x1 g, eg_y1 g, eg_x2 g, eg_y2 g]"

definition edgeGeom :: "(string \<times> LaidOutNode) list \<Rightarrow> GraphEdge list \<Rightarrow> EdgeGeom list" where
  "edgeGeom byId edges = List.map_filter (edge_geom byId) edges"

definition polarity_segments :: "Polarity \<Rightarrow> EdgeGeom list \<Rightarrow> rat list" where
  "polarity_segments pol geom = concat (map segment (filter (\<lambda>g. ge_polarity (eg_edge g) = pol) geom))"

definition highlightSegments :: "string list option \<Rightarrow> EdgeGeom list \<Rightarrow> rat list" where
  "highlightSegments highlighted geom =
     (case highlighted of
        None \<Rightarrow> []
      | Some ids \<Rightarrow> if ids = [] then [] else concat (map segment (filter (\<lambda>g. ge_id (eg_edge g) \<in> set ids) geom)))"

definition point_size :: "rat \<Rightarrow> rat" where
  "point_size zoom = max 2 (min 6 (js_mul 4 zoom))"

definition selected_size :: "rat \<Rightarrow> rat" where
  "selected_size zoom = max 6 (min 14 (js_mul 10 zoom))"

text \<open>The matrix before its conversion to single precision.\<close>

definition computeViewProjection :: "Viewport \<Rightarrow> rat list" where
  "computeViewProjection v =
     (let sx = js_div (js_mul 2 (v_zoom v)) (v_width v); sy = js_div (js_mul (- 2) (v_zoom v)) (v_height v)
      in [sx, 0, 0, 0, sy, 0, js_mul (- v_panX v) sx, js_mul (- v_panY v) sy, 1])"

definition fit_viewport :: "LaidOutNode list \<Rightarrow> Viewport \<Rightarrow> Viewport" where
  "fit_viewport laidOut v =
     (let xs = set (map ln_x laidOut); ys = set (map ln_y laidOut);
          minX = Min xs; maxX = Max xs; minY = Min ys; maxY = Max ys;
          spanX = max 1 (maxX - minX + COLUMN_WIDTH); spanY = max 1 (maxY - minY + CANVAS_ROW_HEIGHT)
      in v\<lparr>v_panX := js_div (of_int (minX + maxX)) 2, v_panY := js_div (of_int (minY + maxY)) 2,
           v_zoom := min (min 1 (js_div (v_width v) (of_int spanX))) (js_div (v_height v) (of_int spanY))\<rparr>)"

text \<open>The fit happens while rendering, once per \<^verbatim>\<open>graphKey\<close>.\<close>

definition graphKey :: "GraphNode list \<Rightarrow> LaidOutNode list \<Rightarrow> string option" where
  "graphKey nodes laidOut =
     (if laidOut = [] then None
      else Some (show_int (int (length nodes)) @ '':'' @ show_int (Max (set (map ln_column laidOut)))))"

definition fit_once :: "GraphNode list \<Rightarrow> LaidOutNode list \<Rightarrow> string option \<times> Viewport \<Rightarrow> string option \<times> Viewport" where
  "fit_once nodes laidOut = (\<lambda>(fittedGraphKey, v).
     if graphKey nodes laidOut \<noteq> None \<and> graphKey nodes laidOut \<noteq> fittedGraphKey
     then (graphKey nodes laidOut, fit_viewport laidOut v) else (fittedGraphKey, v))"

definition on_resize :: "rat \<Rightarrow> rat \<Rightarrow> rat \<Rightarrow> Viewport \<Rightarrow> Viewport" where
  "on_resize dpr width height v =
     (if width \<le> 0 \<or> height \<le> 0 then v else v\<lparr>v_width := js_mul width dpr, v_height := js_mul height dpr\<rparr>)"

text \<open>\<open>(left, top)\<close> is the corner of the canvas on the page.\<close>

definition screenToWorld :: "rat \<Rightarrow> rat \<times> rat \<Rightarrow> Viewport \<Rightarrow> rat \<Rightarrow> rat \<Rightarrow> rat \<times> rat" where
  "screenToWorld dpr = (\<lambda>(left, top) v clientX clientY.
     let sx = js_mul (js_sub clientX left) dpr; sy = js_mul (js_sub clientY top) dpr
     in (js_add (js_div (js_sub sx (js_div (v_width v) 2)) (v_zoom v)) (v_panX v),
         js_add (js_div (js_sub sy (js_div (v_height v) 2)) (v_zoom v)) (v_panY v)))"

definition handleWheel :: "rat \<Rightarrow> rat \<times> rat \<Rightarrow> rat \<Rightarrow> rat \<Rightarrow> rat \<Rightarrow> Viewport \<Rightarrow> Viewport" where
  "handleWheel dpr corner clientX clientY deltaY v =
     (let (wx, wy) = screenToWorld dpr corner v clientX clientY;
          factor = (if deltaY < 0 then fl (112 / 100) else js_div 1 (fl (112 / 100)));
          nextZoom = max (fl (5 / 100)) (min 8 (js_mul (v_zoom v) factor))
      in v\<lparr>v_zoom := nextZoom,
           v_panX := js_sub wx (js_div (js_mul (js_sub wx (v_panX v)) (v_zoom v)) nextZoom),
           v_panY := js_sub wy (js_div (js_mul (js_sub wy (v_panY v)) (v_zoom v)) nextZoom)\<rparr>)"

record DragState =
  ds_startX :: rat
  ds_startY :: rat
  ds_panX :: rat
  ds_panY :: rat
  ds_dragged :: bool

definition onPointerDown :: "rat \<Rightarrow> rat \<Rightarrow> Viewport \<Rightarrow> DragState" where
  "onPointerDown clientX clientY v =
     \<lparr>ds_startX = clientX, ds_startY = clientY, ds_panX = v_panX v, ds_panY = v_panY v, ds_dragged = False\<rparr>"

definition onPointerMove :: "rat \<Rightarrow> rat \<Rightarrow> rat \<Rightarrow> DragState option \<times> Viewport \<Rightarrow> DragState option \<times> Viewport" where
  "onPointerMove dpr clientX clientY = (\<lambda>(drag, v).
     case drag of
       None \<Rightarrow> (None, v)
     | Some d \<Rightarrow>
         (let dx = js_sub clientX (ds_startX d); dy = js_sub clientY (ds_startY d);
              d' = (if \<bar>dx\<bar> > 2 \<or> \<bar>dy\<bar> > 2 then d\<lparr>ds_dragged := True\<rparr> else d)
          in (Some d', v\<lparr>v_panX := js_sub (ds_panX d) (js_div (js_mul dx dpr) (v_zoom v)),
                         v_panY := js_sub (ds_panY d) (js_div (js_mul dy dpr) (v_zoom v))\<rparr>)))"

definition pointToSegmentDistance :: "(rat \<Rightarrow> rat \<Rightarrow> rat) \<Rightarrow> rat \<Rightarrow> rat \<Rightarrow> EdgeGeom \<Rightarrow> rat" where
  "pointToSegmentDistance hypot px py g =
     (let dx = js_sub (eg_x2 g) (eg_x1 g); dy = js_sub (eg_y2 g) (eg_y1 g);
          lenSq = js_add (js_mul dx dx) (js_mul dy dy);
          t0 = (if lenSq = 0 then 0
                else js_div (js_add (js_mul (js_sub px (eg_x1 g)) dx) (js_mul (js_sub py (eg_y1 g)) dy)) lenSq);
          t = max 0 (min 1 t0);
          cx = js_add (eg_x1 g) (js_mul t dx); cy = js_add (eg_y1 g) (js_mul t dy)
      in hypot (js_sub px cx) (js_sub py cy))"

definition edge_in_reach :: "rat \<Rightarrow> rat \<Rightarrow> rat \<Rightarrow> EdgeGeom \<Rightarrow> bool" where
  "edge_in_reach tolerance wx wy g \<longleftrightarrow>
     \<not> (wx < js_sub (min (eg_x1 g) (eg_x2 g)) tolerance \<or> js_add (max (eg_x1 g) (eg_x2 g)) tolerance < wx) \<and>
     \<not> (wy < js_sub (min (eg_y1 g) (eg_y2 g)) tolerance \<or> js_add (max (eg_y1 g) (eg_y2 g)) tolerance < wy)"

definition nearest_edge :: "(rat \<Rightarrow> rat \<Rightarrow> rat) \<Rightarrow> rat \<Rightarrow> rat \<Rightarrow> rat \<Rightarrow> EdgeGeom list \<Rightarrow> GraphEdge option" where
  "nearest_edge hypot tolerance wx wy geom =
     fst (foldl (\<lambda>(best, bestDist) g.
            if edge_in_reach tolerance wx wy g \<and> pointToSegmentDistance hypot wx wy g < bestDist
            then (Some (eg_edge g), pointToSegmentDistance hypot wx wy g) else (best, bestDist))
          (None, tolerance) geom)"

datatype hit = HitNode string | HitEdge GraphEdge | HitNothing

definition hit_test ::
  "(rat \<Rightarrow> rat \<Rightarrow> rat) \<Rightarrow> QuadNode option \<Rightarrow> EdgeGeom list \<Rightarrow> Viewport \<Rightarrow> rat \<times> rat \<Rightarrow> hit" where
  "hit_test hypot quadtree geom v = (\<lambda>(wx, wy).
     let hitRadius = js_div HIT_RADIUS_PX (v_zoom v) in
     case Option.bind quadtree (\<lambda>q. nearest q wx wy hitRadius) of
       Some nodeHit \<Rightarrow> HitNode (qp_id nodeHit)
     | None \<Rightarrow>
         (case nearest_edge hypot (js_mul hitRadius (fl (15 / 10))) wx wy geom of
            Some e \<Rightarrow> HitEdge e
          | None \<Rightarrow> HitNothing))"

definition labels :: "Viewport \<Rightarrow> QuadNode option \<Rightarrow> QuadPoint list" where
  "labels v quadtree =
     (case quadtree of
        None \<Rightarrow> []
      | Some q \<Rightarrow>
          if v_zoom v < LABEL_ZOOM_THRESHOLD then []
          else let halfW = js_div (js_div (v_width v) 2) (v_zoom v); halfH = js_div (js_div (v_height v) 2) (v_zoom v)
               in take MAX_LABELS (inRange q \<lparr>b_x = js_sub (v_panX v) halfW, b_y = js_sub (v_panY v) halfH,
                    b_w = js_mul halfW 2, b_h = js_mul halfH 2\<rparr>))"

text \<open>The label overlay: the place of each label in CSS pixels, and its text.\<close>

definition label_views :: "rat \<Rightarrow> Viewport \<Rightarrow> QuadPoint list \<Rightarrow> (rat \<times> rat \<times> string) list" where
  "label_views dpr v ps =
     map (\<lambda>p. let sx = js_add (js_mul (js_sub (qp_x p) (v_panX v)) (v_zoom v)) (js_div (v_width v) 2);
                  sy = js_add (js_mul (js_sub (qp_y p) (v_panY v)) (v_zoom v)) (js_div (v_height v) 2)
              in (js_div sx dpr, js_div sy dpr, qp_id p)) ps"

section \<open>The frame loop\<close>

text \<open>
  What one animation frame sends to the drawing library, in order, and the frame-rate sample; the shaders
  and buffers belong to WebGL. A sample is reported with a positive time between frames.
\<close>

definition NODE_COLOR :: "bool \<Rightarrow> rat list" where
  "NODE_COLOR dark = map fl (if dark then [541 / 1000, 557 / 1000, 6 / 10, 1] else [357 / 1000, 373 / 1000, 408 / 1000, 1])"

definition ACCENT :: "bool \<Rightarrow> rat list" where
  "ACCENT dark = map fl (if dark then [298 / 1000, 553 / 1000, 1, 1] else [208 / 1000, 376 / 1000, 788 / 1000, 1])"

definition SUPPORTS_COLOR :: "bool \<Rightarrow> rat list" where
  "SUPPORTS_COLOR dark = map fl (if dark then [3151 / 10000, 3257 / 10000, 353 / 1000, 1] else [6324 / 10000, 643 / 1000, 6654 / 10000, 1])"

definition REFUTES_COLOR :: "bool \<Rightarrow> rat list" where
  "REFUTES_COLOR dark = map fl (if dark then [1796 / 10000, 1869 / 10000, 2047 / 10000, 1] else [7976 / 10000, 805 / 1000, 8198 / 10000, 1])"

datatype draw =
    Clear "rat list"
  | DrawLines "rat list" "rat list" "rat list"
  | DrawPoints "rat list" "rat list" "rat list" rat

definition frame_draws ::
  "bool \<Rightarrow> LaidOutNode list \<Rightarrow> GraphEdge list \<Rightarrow> string list option \<Rightarrow> string option \<Rightarrow> Viewport \<Rightarrow> draw list" where
  "frame_draws dark laidOut edges highlighted selectedNodeId v =
     (let geom = edgeGeom (nodeById laidOut) edges;
          refutesSegments = polarity_segments Refutes geom; supportsSegments = polarity_segments Supports geom;
          highlight = highlightSegments highlighted geom; vp = computeViewProjection v;
          selectedPos = map_of (nodeById laidOut) (case selectedNodeId of None \<Rightarrow> [] | Some i \<Rightarrow> i)
      in [Clear (map fl (if dark then [39 / 1000, 43 / 1000, 51 / 1000, 1] else [969 / 1000, 973 / 1000, 98 / 100, 1]))] @
         when_shown (refutesSegments \<noteq> []) [DrawLines refutesSegments vp (REFUTES_COLOR dark)] @
         when_shown (supportsSegments \<noteq> []) [DrawLines supportsSegments vp (SUPPORTS_COLOR dark)] @
         when_shown (highlight \<noteq> []) [DrawLines highlight vp (take 3 (ACCENT dark) @ [fl (95 / 100)])] @
         [DrawPoints (concat (map (\<lambda>n. [of_int (ln_x n), of_int (ln_y n)]) laidOut)) vp (NODE_COLOR dark) (point_size (v_zoom v))] @
         map (\<lambda>n. DrawPoints [of_int (ln_x n), of_int (ln_y n)] vp (ACCENT dark) (selected_size (v_zoom v))) (opt_list selectedPos))"

definition fps_sample :: "rat \<Rightarrow> rat list \<times> rat \<Rightarrow> rat option \<times> rat list \<times> rat" where
  "fps_sample t = (\<lambda>(frameTimes, lastFpsReport).
     let pushed = frameTimes @ [t]; ts = (if length pushed > 30 then tl pushed else pushed) in
     if js_sub t lastFpsReport > 500 \<and> length ts > 1
     then let dt = js_div (js_sub (last ts) (hd ts)) (of_int (int (length ts) - 1)) in (Some (js_div 1000 dt), ts, t)
     else (None, ts, lastFpsReport))"

section \<open>The client component\<close>

text \<open>
  The state of the canvas with its graph loaded. A replay keeps the edges it steps through, the
  position of its timer and the identifiers shown so far; \<open>cv_replay = None\<close> before the first one.
\<close>

record CanvasState =
  cv_viewport :: Viewport
  cv_drag :: "DragState option"
  cv_selectedNodeId :: "string option"
  cv_selectedEdge :: "GraphEdge option"
  cv_replayEdgeIds :: "string list option"
  cv_replayTimer :: "(GraphEdge list \<times> nat) option"

definition canvas_init :: CanvasState where
  "canvas_init = \<lparr>cv_viewport = viewport_init, cv_drag = None, cv_selectedNodeId = None, cv_selectedEdge = None,
     cv_replayEdgeIds = None, cv_replayTimer = None\<rparr>"

definition onSelectNode :: "string option \<Rightarrow> CanvasState \<Rightarrow> CanvasState" where
  "onSelectNode i s =
     (let s = s\<lparr>cv_selectedNodeId := i\<rparr> in if i \<noteq> None \<and> i \<noteq> Some [] then s\<lparr>cv_selectedEdge := None\<rparr> else s)"

definition onSelectEdge :: "GraphEdge option \<Rightarrow> CanvasState \<Rightarrow> CanvasState" where
  "onSelectEdge e s =
     (let s = s\<lparr>cv_selectedEdge := e\<rparr> in if e \<noteq> None then s\<lparr>cv_selectedNodeId := None\<rparr> else s)"

definition apply_hit :: "hit \<Rightarrow> CanvasState \<Rightarrow> CanvasState" where
  "apply_hit h s =
     (case h of
        HitNode i \<Rightarrow> onSelectEdge None (onSelectNode (Some i) s)
      | HitEdge e \<Rightarrow> onSelectNode None (onSelectEdge (Some e) s)
      | HitNothing \<Rightarrow> onSelectEdge None (onSelectNode None s))"

definition onPointerUp ::
  "(rat \<Rightarrow> rat \<Rightarrow> rat) \<Rightarrow> rat \<Rightarrow> rat \<times> rat \<Rightarrow> LaidOutNode list \<Rightarrow> GraphEdge list \<Rightarrow> rat \<Rightarrow> rat \<Rightarrow> CanvasState \<Rightarrow> CanvasState" where
  "onPointerUp hypot dpr corner laidOut edges clientX clientY s =
     (let s' = s\<lparr>cv_drag := None\<rparr> in
      case cv_drag s of
        None \<Rightarrow> s'
      | Some d \<Rightarrow>
          if ds_dragged d then s'
          else apply_hit (hit_test hypot (canvas_quadtree laidOut) (edgeGeom (nodeById laidOut) edges) (cv_viewport s)
                 (screenToWorld dpr corner (cv_viewport s) clientX clientY)) s')"

definition chronological :: "GraphEdge list \<Rightarrow> GraphEdge list" where
  "chronological edges = take 80 (sort_key ge_intervalStartMs edges)"

definition replayAttackPath :: "bool \<Rightarrow> GraphEdge list \<Rightarrow> CanvasState \<Rightarrow> CanvasState" where
  "replayAttackPath reducedMotion edges s =
     (if reducedMotion
      then s\<lparr>cv_replayTimer := None, cv_replayEdgeIds := Some (js_unique (map ge_id (chronological edges)))\<rparr>
      else s\<lparr>cv_replayTimer := Some (chronological edges, 0), cv_replayEdgeIds := Some []\<rparr>)"

definition replay_tick :: "CanvasState \<Rightarrow> CanvasState" where
  "replay_tick s =
     (case cv_replayTimer s of
        None \<Rightarrow> s
      | Some (es, i) \<Rightarrow>
          if length es \<le> i then s\<lparr>cv_replayTimer := None\<rparr>
          else s\<lparr>cv_replayTimer := Some (es, Suc i),
                 cv_replayEdgeIds := Some (js_unique (map ge_id (take (Suc i) es)))\<rparr>)"

section \<open>Panels\<close>

text \<open>\<open>locale_date\<close> and \<open>locale_time\<close> stand for \<^verbatim>\<open>toLocaleString\<close> and \<^verbatim>\<open>toLocaleTimeString\<close> of the browser's locale.\<close>

definition arrow_left :: string where "arrow_left = [CHR 0xE2, CHR 0x86, CHR 0x90]"
definition en_dash :: string where "en_dash = [CHR 0xE2, CHR 0x80, CHR 0x93]"

definition connected_edges :: "GraphNode \<Rightarrow> GraphEdge list \<Rightarrow> GraphEdge list" where
  "connected_edges nd edges = filter (\<lambda>e. ge_fromNodeId e = gn_id nd \<or> ge_toNodeId e = gn_id nd) edges"

definition EntityPanel :: "(int \<Rightarrow> string) \<Rightarrow> GraphNode \<Rightarrow> GraphEdge list \<Rightarrow> GraphEdge html" where
  "EntityPanel locale_date nd edges =
     (let conn = connected_edges nd edges in
      El ''div'' [] []
        [El ''div'' [] [] [Txt ''Entity''], El ''div'' [] [] [Txt (gn_label nd)],
         El ''div'' [] [] [Txt (entity_name (gn_type nd))],
         El ''div'' [] [] [El ''div'' [] [] [Txt ''First seen''], El ''div'' [] [] [Txt (locale_date (gn_firstSeenMs nd))]],
         El ''div'' [] [] [El ''div'' [] [] [Txt ''Prior cases''], El ''div'' [] [] [Txt (show_int (gn_priorCaseCount nd))]],
         El ''div'' [] [] [Txt (''Claims ('' @ show_int (int (length conn)) @ '')'')],
         El ''ul'' [] []
           (map (\<lambda>e. El ''li'' [] []
              [El ''button'' [(''type'', ''button'')] [(''onClick'', e)]
                 [El ''span'' [(''className'', if ge_polarity e = Refutes then ''text-text-tertiary line-through'' else ''text-text-primary'')] []
                    [Txt (ge_predicate e)],
                  El ''span'' [] []
                    [Txt ((if ge_fromNodeId e = gn_id nd then arrow_right else arrow_left) @ '' '' @
                          (if ge_fromNodeId e = gn_id nd then ge_toNodeId e else ge_fromNodeId e))]]]) (take 60 conn))])"

datatype ProofState = Idle | Checking | Valid | Invalid | ProofError

text \<open>
  What \<^verbatim>\<open>fetch\<close> of a proof comes back with: a proof, a response that is not \<^verbatim>\<open>ok\<close>, or a failure
  (network, malformed body), which throws.
\<close>

datatype proof_response = ProofBody InclusionProof | NotOk nat | FetchFailed

definition claim_verify :: "hash_fun \<Rightarrow> string \<Rightarrow> proof_response \<Rightarrow> (string \<times> ProofState) list \<Rightarrow> (string \<times> ProofState) list" where
  "claim_verify blake3 evidenceId response states =
     (let states = AList.update evidenceId Checking states in
      AList.update evidenceId
        (case response of
           NotOk _ \<Rightarrow> ProofError
         | ProofBody prf \<Rightarrow> if verifyInclusion blake3 evidenceId prf then Valid else Invalid
         | FetchFailed \<Rightarrow> ProofError) states)"

datatype claim_action = CopyId string | VerifyId string

text \<open>\<^verbatim>\<open>(edge.confidence / 100).toFixed(0)\<close>\<close>

definition confidence_percent :: "int \<Rightarrow> int" where
  "confidence_percent c = \<lfloor>js_div (of_int c) 100 + 1 / 2\<rfloor>"

definition claim_row :: "(string \<times> ProofState) list \<Rightarrow> string option \<Rightarrow> string \<Rightarrow> claim_action html" where
  "claim_row proofStates copiedId i =
     (let state = (case map_of proofStates i of None \<Rightarrow> Idle | Some st \<Rightarrow> st) in
      El ''li'' [] []
        ([El ''span'' [] [] [Txt i],
          El ''button'' [(''type'', ''button''), (''aria-label'', ''Copy evidence id '' @ i)] [(''onClick'', CopyId i)]
            [El (if copiedId = Some i then ''CheckCircle2'' else ''Copy'') [(''aria-hidden'', ''true'')] [] []],
          El ''button''
            ([(''type'', ''button''), (''data-testid'', ''verify-inclusion-proof'')] @ when_shown (state = Checking) [(''disabled'', ''true'')])
            [(''onClick'', VerifyId i)]
            [Txt (if state = Checking then ''Verifying'' @ ellipsis else ''Verify inclusion proof'')]] @
         when_shown (state = Valid) [El ''span'' [(''data-testid'', ''proof-valid'')] [] [Txt ''Verified'']] @
         when_shown (state = Invalid) [El ''span'' [(''data-testid'', ''proof-invalid'')] [] [Txt ''Failed'']] @
         when_shown (state = ProofError) [El ''span'' [] [] [Txt ''Error'']]))"

definition ClaimPanel ::
  "(int \<Rightarrow> string) \<Rightarrow> GraphEdge \<Rightarrow> (string \<times> ProofState) list \<Rightarrow> string option \<Rightarrow> claim_action html" where
  "ClaimPanel locale_time edge proofStates copiedId =
     El ''div'' [] []
       [El ''div'' [] [] [Txt ''Claim''], El ''div'' [] [] [Txt (ge_predicate edge)],
        El ''div'' [] [] [Txt ((if ge_polarity edge = Supports then ''Supports'' else ''Refutes'') @ '' '' @ middle_dot @
          '' confidence '' @ show_int (confidence_percent (ge_confidence edge)) @ ''%'')],
        El ''div'' [] [] [El ''div'' [] [] [Txt ''Interval''],
          El ''div'' [] [] [Txt (locale_time (ge_intervalStartMs edge) @ '' '' @ en_dash @ '' '' @ locale_time (ge_intervalEndMs edge))]],
        El ''div'' [] [] [El ''div'' [] [] [Txt ''Extractor''],
          El ''div'' [] [] [Txt (ge_extractorId edge @ ''@'' @ ge_extractorVersion edge)]],
        El ''div'' [] [] [Txt (''Evidence ('' @ show_int (int (length (ge_evidenceIds edge))) @ '')'')],
        El ''ul'' [] [] (map (claim_row proofStates copiedId) (ge_evidenceIds edge))]"

text \<open>The panel on the right: exactly one of entity, claim and hint.\<close>

datatype side_panel = EntitySide GraphNode | ClaimSide GraphEdge | HintSide

definition side_panels :: "GraphNode list \<Rightarrow> CanvasState \<Rightarrow> side_panel list" where
  "side_panels nodes s =
     (let selectedNode = Option.bind (cv_selectedNodeId s) (\<lambda>i. find (\<lambda>n. gn_id n = i) nodes) in
      map EntitySide (opt_list selectedNode) @ map ClaimSide (opt_list (cv_selectedEdge s)) @
      when_shown (selectedNode = None \<and> cv_selectedEdge s = None) [HintSide])"

text \<open>
  The page: a hint to pick a case, a loading line, or the toolbar with the panels. \<open>locale_int\<close> is
  \<^verbatim>\<open>toLocaleString\<close> of a number, \<open>fps_text\<close> the sampled rate as \<^verbatim>\<open>toFixed(0)\<close>; an empty query parameter is falsy.
\<close>

datatype canvas_action = ReplayAttackPath | PickClaim GraphEdge | InClaim claim_action

definition fetchGraph_url :: "string \<Rightarrow> string option \<Rightarrow> string" where
  "fetchGraph_url caseId nodesParam =
     ''/api/graph/'' @ caseId @
     (case nodesParam of None \<Rightarrow> [] | Some n \<Rightarrow> if n = [] then [] else ''?nodes='' @ n)"

definition panel_view ::
  "(int \<Rightarrow> string) \<Rightarrow> (int \<Rightarrow> string) \<Rightarrow> GraphEdge list \<Rightarrow> (string \<times> ProofState) list \<Rightarrow> string option \<Rightarrow> side_panel \<Rightarrow> canvas_action html" where
  "panel_view locale_date locale_time edges proofStates copiedId p =
     (case p of
        EntitySide nd \<Rightarrow> map_html PickClaim (EntityPanel locale_date nd edges)
      | ClaimSide e \<Rightarrow> map_html InClaim (ClaimPanel locale_time e proofStates copiedId)
      | HintSide \<Rightarrow> El ''div'' [] [] [Txt ''Click a node for its entity profile, or a claim (edge) for evidence and verification.''])"

definition InvestigationCanvasClient ::
  "(int \<Rightarrow> string) \<Rightarrow> (int \<Rightarrow> string) \<Rightarrow> (int \<Rightarrow> string) \<Rightarrow> string option \<Rightarrow> (GraphNode list \<times> GraphEdge list) option \<Rightarrow>
     string option \<Rightarrow> (string \<times> ProofState) list \<Rightarrow> string option \<Rightarrow> CanvasState \<Rightarrow> canvas_action html" where
  "InvestigationCanvasClient locale_int locale_date locale_time caseId graph fps_text proofStates copiedId s =
     (if caseId = None \<or> caseId = Some []
      then EmptyState ''No case selected''
        ''Open a case from the Watchfloor (press i on a selected row) to explore its evidence graph.''
        ''Select a case to begin''
      else case graph of
        None \<Rightarrow> El ''div'' [] [] [Txt (''Loading evidence graph'' @ ellipsis)]
      | Some (nodes, edges) \<Rightarrow>
          El ''div'' [] []
            [El ''div'' [] []
               ([El ''span'' [(''data-testid'', ''graph-node-count'')] [] [Txt (locale_int (int (length nodes)) @ '' nodes'')],
                 El ''span'' [] [] [Txt (locale_int (int (length edges)) @ '' claims'')]] @
                map (\<lambda>f. El ''span'' [(''data-testid'', ''graph-fps'')] [] [Txt (f @ ''fps'')]) (opt_list fps_text) @
                [El ''button'' [(''data-testid'', ''replay-attack-path'')] [(''onClick'', ReplayAttackPath)] [Txt ''Replay attack path'']]),
             El ''div'' [] [] (map (panel_view locale_date locale_time edges proofStates copiedId) (side_panels nodes s))])"

section \<open>The layout, column by column\<close>

lemma js_unique_snoc: "js_unique (xs @ [x]) = (if x \<in> set xs then js_unique xs else js_unique xs @ [x])"
  by (induction xs) auto

lemma map_of_tabulate: "map_of (map (\<lambda>c. (c, f c)) cs) c = (if c \<in> set cs then Some (f c) else None)"
  by (induction cs) auto

lemma update_tabulate_in:
  "distinct cs \<Longrightarrow> c \<in> set cs \<Longrightarrow>
     AList.update c v (map (\<lambda>c. (c, f c)) cs) = map (\<lambda>c'. (c', if c' = c then v else f c')) cs"
proof (induction cs)
  case (Cons a cs)
  show ?case
  proof (cases "a = c")
    case True
    with Cons.prems show ?thesis by (auto intro!: map_cong)
  next
    case False
    with Cons show ?thesis by simp
  qed
qed simp

lemma update_tabulate_out:
  "c \<notin> set cs \<Longrightarrow> AList.update c v (map (\<lambda>c. (c, f c)) cs) = map (\<lambda>c. (c, f c)) cs @ [(c, v)]"
  by (induction cs) auto

lemma columns_grouped:
  "foldl (push_column col) [] ns = map (\<lambda>c. (c, filter (\<lambda>n. col n = c) ns)) (js_unique (map col ns))"
proof (induction ns rule: rev_induct)
  case (snoc n ns)
  let ?f = "\<lambda>c. filter (\<lambda>n. col n = c) ns"
  show ?case
  proof (cases "col n \<in> set (map col ns)")
    case True
    then have "foldl (push_column col) [] (ns @ [n]) =
        map (\<lambda>c'. (c', if c' = col n then ?f (col n) @ [n] else ?f c')) (js_unique (map col ns))"
      by (simp add: snoc push_column_def map_of_tabulate update_tabulate_in del: js_unique.simps)
    also have "\<dots> = map (\<lambda>c. (c, filter (\<lambda>n. col n = c) (ns @ [n]))) (js_unique (map col ns))" by auto
    finally show ?thesis using True by (simp add: js_unique_snoc)
  next
    case False
    then have "?f (col n) = []" by (simp add: filter_empty_conv) (metis imageI)
    have "foldl (push_column col) [] (ns @ [n]) = push_column col (map (\<lambda>c. (c, ?f c)) (js_unique (map col ns))) n"
      by (simp add: snoc)
    also have "\<dots> = map (\<lambda>c. (c, ?f c)) (js_unique (map col ns)) @ [(col n, [n])]"
      using False by (simp add: push_column_def map_of_tabulate update_tabulate_out)
    also have "map (\<lambda>c. (c, ?f c)) (js_unique (map col ns)) =
        map (\<lambda>c. (c, filter (\<lambda>n. col n = c) (ns @ [n]))) (js_unique (map col ns))"
      using False by (intro map_cong refl) auto
    finally show ?thesis using False \<open>?f (col n) = []\<close> by (simp add: js_unique_snoc)
  qed
qed simp

lemma mset_by_column:
  "distinct cs \<Longrightarrow> mset (concat (map (\<lambda>c. filter (\<lambda>n. col n = c) ns) cs)) = mset (filter (\<lambda>n. col n \<in> set cs) ns)"
proof (induction cs)
  case (Cons c cs)
  have "filter_mset (\<lambda>n. col n = c) (mset ns) + filter_mset (\<lambda>n. col n \<in> set cs) (mset ns) =
      filter_mset (\<lambda>n. col n = c \<or> col n \<in> set cs) (mset ns)"
    using Cons.prems by (intro multiset_eqI) auto
  with Cons show ?case by simp
qed simp

lemma laid_out_simps [simp]:
  "gn_id (laid_out c r n) = gn_id n" "gn_firstSeenMs (laid_out c r n) = gn_firstSeenMs n"
  "ln_column (laid_out c r n) = c" "ln_x (laid_out c r n) = c * COLUMN_WIDTH" "ln_y (laid_out c r n) = int r * CANVAS_ROW_HEIGHT"
  by (cases n; simp add: laid_out_def GraphNode.defs LaidOutNode.defs)+

lemma column_nodes_ids: "map gn_id (column_nodes (c, ns)) = map gn_id (sort_key gn_id ns)"
  by (simp add: column_nodes_def comp_def case_prod_beta flip: map_map [of gn_id snd, unfolded comp_def])

lemma column_nodes_in:
  "m \<in> set (column_nodes (c, ns)) \<Longrightarrow> \<exists>n \<in> set ns. \<exists>r. m = laid_out c r n"
  by (auto simp: column_nodes_def in_set_enumerate_eq) (metis nth_mem set_sort length_sort)

lemma column_nodes_ys: "map ln_y (column_nodes (c, ns)) = map (\<lambda>r. int r * CANVAS_ROW_HEIGHT) [0..<length ns]"
  by (simp add: column_nodes_def comp_def case_prod_beta enumerate_eq_zip flip: map_map [of "\<lambda>r. int r * CANVAS_ROW_HEIGHT" fst, unfolded comp_def])

lemma layout_column_mono:
  assumes "gn_firstSeenMs a \<le> gn_firstSeenMs b" "0 < spanMs" "0 \<le> columnCount"
  shows "layout_column minMs spanMs columnCount a \<le> layout_column minMs spanMs columnCount b"
proof -
  have "js_sub (of_int (gn_firstSeenMs a)) (of_int minMs) \<le> js_sub (of_int (gn_firstSeenMs b)) (of_int minMs)"
    unfolding js_sub_def using assms(1) by (intro fl_mono) simp
  then have "js_div (js_sub (of_int (gn_firstSeenMs a)) (of_int minMs)) (of_int spanMs) \<le>
      js_div (js_sub (of_int (gn_firstSeenMs b)) (of_int minMs)) (of_int spanMs)"
    unfolding js_div_def using assms(2) by (intro fl_mono divide_right_mono) simp_all
  then show ?thesis
    unfolding layout_column_def js_floor_def js_mul_def using assms(3)
    by (intro min.mono order_refl floor_mono fl_mono mult_right_mono) simp_all
qed

lemma layout_column_nonneg:
  assumes "minMs \<le> gn_firstSeenMs n" "0 < spanMs" "1 \<le> columnCount"
  shows "0 \<le> layout_column minMs spanMs columnCount n"
proof -
  have "0 \<le> js_sub (of_int (gn_firstSeenMs n)) (of_int minMs)" unfolding js_sub_def using assms(1) by (intro dbl.rnd_nonneg) simp
  then have "0 \<le> js_mul (js_div (js_sub (of_int (gn_firstSeenMs n)) (of_int minMs)) (of_int spanMs)) (of_int columnCount)"
    unfolding js_mul_def js_div_def using assms(2,3) by (intro dbl.rnd_nonneg mult_nonneg_nonneg divide_nonneg_nonneg) simp_all
  then show ?thesis using assms(3) by (simp add: layout_column_def js_floor_def)
qed

lemma layoutNodes_columns:
  assumes "nodes \<noteq> []"
  obtains col where "layoutNodes nodes columnCount =
       concat (map (\<lambda>c. column_nodes (c, filter (\<lambda>n. col n = c) nodes)) (js_unique (map col nodes)))"
    "\<And>n. col n < columnCount" "\<And>n. n \<in> set nodes \<Longrightarrow> 1 \<le> columnCount \<Longrightarrow> 0 \<le> col n"
    "\<And>a b. gn_firstSeenMs a \<le> gn_firstSeenMs b \<Longrightarrow> 1 \<le> columnCount \<Longrightarrow> col a \<le> col b"
proof
  define minMs where "minMs = Min (set (map gn_firstSeenMs nodes))"
  define spanMs where "spanMs = max 1 (Max (set (map gn_firstSeenMs nodes)) - minMs)"
  let ?col = "layout_column minMs spanMs columnCount"
  have "0 < spanMs" by (simp add: spanMs_def)
  show "layoutNodes nodes columnCount =
       concat (map (\<lambda>c. column_nodes (c, filter (\<lambda>n. ?col n = c) nodes)) (js_unique (map ?col nodes)))"
    using assms unfolding layoutNodes_def Let_def columns_grouped spanMs_def minMs_def by (simp add: comp_def)
  show "?col n < columnCount" for n by (simp add: layout_column_def)
  show "0 \<le> ?col n" if "n \<in> set nodes" "1 \<le> columnCount" for n
    using that \<open>0 < spanMs\<close> by (intro layout_column_nonneg) (simp_all add: minMs_def)
  show "?col a \<le> ?col b" if "gn_firstSeenMs a \<le> gn_firstSeenMs b" "1 \<le> columnCount" for a b
    using that \<open>0 < spanMs\<close> by (intro layout_column_mono) simp_all
qed

lemma laid_out_in:
  assumes "m \<in> set (concat (map (\<lambda>c. column_nodes (c, filter (\<lambda>n. col n = c) nodes)) cs))"
  shows "\<exists>n \<in> set nodes. \<exists>r. m = laid_out (col n) r n"
proof -
  from assms obtain c where "m \<in> set (column_nodes (c, filter (\<lambda>n. col n = c) nodes))" by auto
  from column_nodes_in [OF this] show ?thesis by auto
qed

lemma mset_map_concat_cong:
  "(\<And>c. c \<in> set cs \<Longrightarrow> mset (map f (g c)) = mset (map f' (h c))) \<Longrightarrow>
     mset (map f (concat (map g cs))) = mset (map f' (concat (map h cs)))"
  by (induction cs) (simp_all flip: mset_map)

lemma distinct_concat_tagged:
  assumes "distinct cs" "\<And>c. c \<in> set cs \<Longrightarrow> distinct (map f (g c))"
    and "\<And>c m. c \<in> set cs \<Longrightarrow> m \<in> set (g c) \<Longrightarrow> tag (f m) = c"
  shows "distinct (map f (concat (map g cs)))"
  using assms
proof (induction cs)
  case (Cons c cs)
  have "f m \<noteq> f m'" if here: "m \<in> set (g c)" and there: "m' \<in> set (concat (map g cs))" for m m'
  proof -
    from there obtain c' where "c' \<in> set cs" "m' \<in> set (g c')" by auto
    with here Cons.prems(1) Cons.prems(3) [of c m] Cons.prems(3) [of c' m'] show ?thesis by auto
  qed
  moreover have "distinct (map f (concat (map g cs)))" using Cons by simp
  moreover have "distinct (map f (g c))" using Cons.prems(2) by simp
  ultimately show ?case by (auto simp: image_iff)
qed simp

section \<open>Reachable states of the canvas\<close>

definition viewport_ok :: "Viewport \<Rightarrow> bool" where
  "viewport_ok v \<longleftrightarrow> 0 < v_zoom v \<and> v_zoom v \<le> 8 \<and> 0 < v_width v \<and> 0 < v_height v"

definition replay_ok :: "CanvasState \<Rightarrow> bool" where
  "replay_ok s \<longleftrightarrow> (case cv_replayTimer s of
     None \<Rightarrow> True
   | Some (es, i) \<Rightarrow> i \<le> length es \<and> length es \<le> 80 \<and> cv_replayEdgeIds s = Some (js_unique (map ge_id (take i es))))"

definition canvas_inv :: "CanvasState \<Rightarrow> bool" where
  "canvas_inv s \<longleftrightarrow> viewport_ok (cv_viewport s) \<and> \<not> (cv_selectedNodeId s \<noteq> None \<and> cv_selectedEdge s \<noteq> None) \<and> replay_ok s"

text \<open>Identifiers of nodes are not empty (they start with the prefix of their type).\<close>

inductive canvas_step :: "(rat \<Rightarrow> rat \<Rightarrow> rat) \<Rightarrow> rat \<Rightarrow> GraphNode list \<Rightarrow> GraphEdge list \<Rightarrow> int \<Rightarrow> CanvasState \<Rightarrow> CanvasState \<Rightarrow> bool"
  for hypot dpr nodes edges columnCount where
  fit: "nodes \<noteq> [] \<Longrightarrow> canvas_step hypot dpr nodes edges columnCount s
    (s\<lparr>cv_viewport := fit_viewport (layoutNodes nodes columnCount) (cv_viewport s)\<rparr>)"
| resize: "canvas_step hypot dpr nodes edges columnCount s (s\<lparr>cv_viewport := on_resize dpr w h (cv_viewport s)\<rparr>)"
| wheel: "canvas_step hypot dpr nodes edges columnCount s
    (s\<lparr>cv_viewport := handleWheel dpr corner clientX clientY deltaY (cv_viewport s)\<rparr>)"
| down: "canvas_step hypot dpr nodes edges columnCount s (s\<lparr>cv_drag := Some (onPointerDown clientX clientY (cv_viewport s))\<rparr>)"
| move: "onPointerMove dpr clientX clientY (cv_drag s, cv_viewport s) = (d, v) \<Longrightarrow>
    canvas_step hypot dpr nodes edges columnCount s (s\<lparr>cv_drag := d, cv_viewport := v\<rparr>)"
| up: "canvas_step hypot dpr nodes edges columnCount s
    (onPointerUp hypot dpr corner (layoutNodes nodes columnCount) edges clientX clientY s)"
| pick_claim: "e \<in> set (actions (EntityPanel locale_date nd edges)) \<Longrightarrow>
    canvas_step hypot dpr nodes edges columnCount s (onSelectEdge (Some e) s)"
| replay: "canvas_step hypot dpr nodes edges columnCount s (replayAttackPath reducedMotion edges s)"
| timer: "canvas_step hypot dpr nodes edges columnCount s (replay_tick s)"

inductive_cases canvas_stepE: "canvas_step hypot dpr nodes edges columnCount s s'"

lemma fl_positive: "0 < x \<Longrightarrow> 0 < fl x"
  by (simp add: fl_def fl_pos_pos)

lemma fit_viewport_ok: "viewport_ok v \<Longrightarrow> viewport_ok (fit_viewport laidOut v)"
  by (auto simp: viewport_ok_def fit_viewport_def Let_def js_div_def intro!: fl_positive)

lemma on_resize_ok: "viewport_ok v \<Longrightarrow> 0 < dpr \<Longrightarrow> viewport_ok (on_resize dpr w h v)"
  by (auto simp: viewport_ok_def on_resize_def js_mul_def intro!: fl_positive)

lemma handleWheel_ok: "viewport_ok v \<Longrightarrow> viewport_ok (handleWheel dpr corner x y dy v)"
proof -
  have "0 < fl (5 / 100)" "fl (5 / 100) \<le> 1" using fl_positive [of "5 / 100"] dbl.rnd_le_int [of 1 "5 / 100"] by simp_all
  then show "viewport_ok v \<Longrightarrow> viewport_ok (handleWheel dpr corner x y dy v)"
    by (auto simp: viewport_ok_def handleWheel_def Let_def split: prod.split)
qed

lemma onPointerMove_ok: "onPointerMove dpr x y (d, v) = (d', v') \<Longrightarrow> viewport_ok v \<Longrightarrow> viewport_ok v'"
  by (auto simp: onPointerMove_def viewport_ok_def Let_def split: option.splits)

lemma select_simps [simp]:
  "cv_viewport (onSelectNode i s) = cv_viewport s" "cv_viewport (onSelectEdge e s) = cv_viewport s"
  "replay_ok (onSelectNode i s) = replay_ok s" "replay_ok (onSelectEdge e s) = replay_ok s"
  "cv_selectedNodeId (onSelectNode i s) = i" "cv_selectedEdge (onSelectEdge e s) = e"
  "cv_selectedNodeId (onSelectEdge e s) = (if e = None then cv_selectedNodeId s else None)"
  "cv_selectedEdge (onSelectNode i s) = (if i = None \<or> i = Some [] then cv_selectedEdge s else None)"
  by (auto simp: onSelectNode_def onSelectEdge_def replay_ok_def Let_def split: option.split)

lemma apply_hit_ok: "canvas_inv s \<Longrightarrow> canvas_inv (apply_hit h s)"
  by (cases h) (auto simp: canvas_inv_def apply_hit_def)

lemma drag_irrelevant [simp]: "canvas_inv (s\<lparr>cv_drag := d\<rparr>) = canvas_inv s"
  by (simp add: canvas_inv_def replay_ok_def split: option.split)

lemma onPointerUp_ok: "canvas_inv s \<Longrightarrow> canvas_inv (onPointerUp hypot dpr corner laidOut edges x y s)"
  by (auto simp: onPointerUp_def Let_def intro!: apply_hit_ok split: option.split)

lemma canvas_inv_viewport: "canvas_inv s \<Longrightarrow> viewport_ok v \<Longrightarrow> canvas_inv (s\<lparr>cv_viewport := v\<rparr>)"
  by (auto simp: canvas_inv_def replay_ok_def split: option.splits)

lemma replay_inv: "canvas_inv s \<Longrightarrow> canvas_inv (replayAttackPath reduced edges s)"
  by (simp add: canvas_inv_def replay_ok_def replayAttackPath_def chronological_def)

lemma replay_tick_inv: "canvas_inv s \<Longrightarrow> canvas_inv (replay_tick s)"
  by (auto simp: canvas_inv_def replay_ok_def replay_tick_def split: option.splits)

lemma canvas_step_inv:
  assumes "canvas_step hypot dpr nodes edges columnCount s s'" "canvas_inv s" "0 < dpr"
  shows "canvas_inv s'"
  using assms(1)
proof cases
  case (move clientX clientY d v)
  then have "canvas_inv (s\<lparr>cv_viewport := v\<rparr>)"
    using assms(2) onPointerMove_ok [OF move(2)] by (intro canvas_inv_viewport) (simp_all add: canvas_inv_def)
  moreover have "s' = (s\<lparr>cv_viewport := v\<rparr>)\<lparr>cv_drag := d\<rparr>" using move(1) by (cases s) simp
  ultimately show ?thesis by (simp only: drag_irrelevant)
next
  case (pick_claim e locale_date nd)
  with assms(2) show ?thesis by (simp add: canvas_inv_def)
qed (use assms(2,3) in \<open>auto intro!: canvas_inv_viewport fit_viewport_ok on_resize_ok handleWheel_ok onPointerUp_ok replay_inv replay_tick_inv,
     auto simp: canvas_inv_def\<close>)

lemma canvas_init_inv: "canvas_inv canvas_init"
  by (simp add: canvas_inv_def viewport_ok_def replay_ok_def canvas_init_def viewport_init_def)

interpretation canvas: invariant_system "canvas_step hypot dpr nodes edges columnCount" "\<lambda>s. s = canvas_init"
  "\<lambda>s. 0 < dpr \<longrightarrow> canvas_inv s" for hypot dpr nodes edges columnCount
  by unfold_locales (auto intro: canvas_init_inv canvas_step_inv)

lemma one_panel: "canvas_inv s \<Longrightarrow> length (side_panels nodes s) = 1"
  by (auto simp: canvas_inv_def side_panels_def Let_def split: option.split)

lemma replay_ticks:
  assumes "cv_replayTimer s = Some (es, i)" "i + k \<le> length es" "cv_replayEdgeIds s = Some (js_unique (map ge_id (take i es)))"
  shows "(replay_tick ^^ k) s = s\<lparr>cv_replayTimer := Some (es, i + k), cv_replayEdgeIds := Some (js_unique (map ge_id (take (i + k) es)))\<rparr>"
  using assms
proof (induction k)
  case 0
  then show ?case by (cases s) simp
next
  case (Suc k)
  then show ?case by (simp add: replay_tick_def)
qed

lemma truncate_laid_out [simp]: "GraphNode.truncate (laid_out c r n) = n"
  by (cases n) (simp add: laid_out_def GraphNode.defs LaidOutNode.defs)

lemma column_nodes_truncate: "map GraphNode.truncate (column_nodes (c, ns)) = sort_key gn_id ns"
  by (simp add: column_nodes_def comp_def case_prod_beta)

lemma layout_members:
  assumes "nodes \<noteq> []" "m \<in> set (layoutNodes nodes columnCount)" "1 \<le> columnCount"
  shows "0 \<le> ln_column m \<and> ln_column m < columnCount \<and> ln_x m = ln_column m * COLUMN_WIDTH"
proof (rule layoutNodes_columns [OF assms(1), of columnCount])
  fix col
  assume lay: "layoutNodes nodes columnCount =
      concat (map (\<lambda>c. column_nodes (c, filter (\<lambda>n. col n = c) nodes)) (js_unique (map col nodes)))"
    and col: "\<And>n. col n < columnCount" "\<And>n. n \<in> set nodes \<Longrightarrow> 1 \<le> columnCount \<Longrightarrow> 0 \<le> col n"
  from laid_out_in [OF assms(2) [unfolded lay]] obtain n r where "n \<in> set nodes" "m = laid_out (col n) r n" by blast
  with col assms(3) show ?thesis by simp
qed

lemma layout_in_time_order:
  assumes "nodes \<noteq> []" "a \<in> set (layoutNodes nodes columnCount)" "b \<in> set (layoutNodes nodes columnCount)"
    and "gn_firstSeenMs a \<le> gn_firstSeenMs b" "1 \<le> columnCount"
  shows "ln_x a \<le> ln_x b"
proof (rule layoutNodes_columns [OF assms(1), of columnCount])
  fix col
  assume lay: "layoutNodes nodes columnCount =
      concat (map (\<lambda>c. column_nodes (c, filter (\<lambda>n. col n = c) nodes)) (js_unique (map col nodes)))"
    and col: "\<And>a b. gn_firstSeenMs a \<le> gn_firstSeenMs b \<Longrightarrow> 1 \<le> columnCount \<Longrightarrow> col a \<le> col b"
  from laid_out_in [OF assms(2) [unfolded lay]] obtain n r where a: "a = laid_out (col n) r n" by blast
  from laid_out_in [OF assms(3) [unfolded lay]] obtain n' r' where b: "b = laid_out (col n') r' n'" by blast
  from col [of n n'] a b assms(4,5) show ?thesis by (simp add: COLUMN_WIDTH_def)
qed

lemma column_places: "distinct (map (\<lambda>m. (ln_x m, ln_y m)) (column_nodes (c, ns)))"
proof -
  have "distinct (map ln_y (column_nodes (c, ns)))"
    by (simp add: column_nodes_ys distinct_map inj_on_def CANVAS_ROW_HEIGHT_def)
  then show ?thesis unfolding distinct_map inj_on_def by blast
qed

lemma layout_distinct_places:
  assumes "nodes \<noteq> []"
  shows "distinct (map (\<lambda>m. (ln_x m, ln_y m)) (layoutNodes nodes columnCount))"
proof (rule layoutNodes_columns [OF assms, of columnCount])
  fix col
  assume lay: "layoutNodes nodes columnCount =
      concat (map (\<lambda>c. column_nodes (c, filter (\<lambda>n. col n = c) nodes)) (js_unique (map col nodes)))"
  have "case (ln_x m, ln_y m) of (x, y) \<Rightarrow> x div COLUMN_WIDTH = c"
    if "m \<in> set (column_nodes (c, ns))" for m c ns
    using column_nodes_in [OF that] by (auto simp: COLUMN_WIDTH_def)
  then show ?thesis unfolding lay
    by (intro distinct_concat_tagged [where tag = "\<lambda>p. fst p div COLUMN_WIDTH"] column_places distinct_js_unique) simp
qed

lemma layout_keeps_nodes: "mset (map GraphNode.truncate (layoutNodes nodes columnCount)) = mset nodes"
proof (cases "nodes = []")
  case False
  then obtain col where lay:
    "layoutNodes nodes columnCount = concat (map (\<lambda>c. column_nodes (c, filter (\<lambda>n. col n = c) nodes)) (js_unique (map col nodes)))"
    using layoutNodes_columns [of nodes columnCount] by metis
  have "mset (map GraphNode.truncate (layoutNodes nodes columnCount)) =
      mset (map (\<lambda>n. n) (concat (map (\<lambda>c. filter (\<lambda>n. col n = c) nodes) (js_unique (map col nodes)))))"
    unfolding lay by (rule mset_map_concat_cong) (simp add: column_nodes_truncate del: mset_map)
  also have "\<dots> = mset nodes" by (simp add: mset_by_column flip: mset_map)
  finally show ?thesis .
qed (simp add: layoutNodes_def)

lemma column_nodes_columns: "ln_column ` set (column_nodes (c, ns)) = (if ns = [] then {} else {c})"
proof -
  have "map ln_column (column_nodes (c, ns)) = map (\<lambda>_. c) (List.enumerate 0 (sort_key gn_id ns))"
    by (simp add: column_nodes_def comp_def case_prod_beta)
  then have "ln_column ` set (column_nodes (c, ns)) = (\<lambda>_. c) ` set (List.enumerate 0 (sort_key gn_id ns))"
    by (metis list.set_map)
  moreover have "List.enumerate 0 (sort_key gn_id ns) = [] \<longleftrightarrow> ns = []"
    by (metis length_0_conv length_enumerate length_sort)
  ultimately show ?thesis by (simp add: image_constant_conv)
qed

lemma columns_shown:
  "ln_column ` set (concat (map (\<lambda>c. column_nodes (c, filter (\<lambda>n. col n = c) ns)) (js_unique (map col ns)))) = col ` set ns"
  by (auto simp: image_UN column_nodes_columns filter_empty_conv split: if_splits)

lemma layout_column_last:
  assumes "gn_firstSeenMs n - minMs = spanMs" "0 < spanMs" "spanMs \<le> 2 ^ 53" "\<bar>columnCount\<bar> \<le> 2 ^ 53"
  shows "layout_column minMs spanMs columnCount n = columnCount - 1"
proof -
  have "js_sub (of_int (gn_firstSeenMs n)) (of_int minMs) = fl (of_int spanMs)"
    using assms(1) by (simp add: js_sub_def flip: of_int_diff)
  also have "\<dots> = of_int spanMs" using assms(2,3) by (intro fl_int) simp
  finally show ?thesis
    using assms(2,4) fl_int [of 1] fl_int [of columnCount] by (simp add: layout_column_def js_div_def js_mul_def js_floor_def)
qed

text \<open>
  The key of a graph whose nodes are not all first seen at the same time depends only on the number of nodes and
  of columns: two different graphs of one size have the same key, and the second is not fitted.
\<close>

lemma graphKey_size_only:
  assumes "a \<in> set nodes" "b \<in> set nodes" "gn_firstSeenMs a < gn_firstSeenMs b"
    and "\<And>n. n \<in> set nodes \<Longrightarrow> gn_firstSeenMs n \<in> {0..2 ^ 53}" "1 \<le> columnCount" "columnCount \<le> 2 ^ 53"
  shows "graphKey nodes (layoutNodes nodes columnCount) = Some (show_int (int (length nodes)) @ '':'' @ show_int (columnCount - 1))"
proof -
  let ?ts = "set (map gn_firstSeenMs nodes)"
  have ne: "nodes \<noteq> []" using assms(1) by auto
  have "Max ?ts \<in> ?ts" using ne by (intro Max_in) simp_all
  then obtain n where n: "n \<in> set nodes" "gn_firstSeenMs n = Max ?ts" by auto
  have lo: "Min ?ts \<le> gn_firstSeenMs a" "gn_firstSeenMs b \<le> Max ?ts" using assms(1,2) by simp_all
  have hi: "0 \<le> Min ?ts" "Max ?ts \<le> 2 ^ 53" using assms(4) ne by simp_all
  let ?col = "layout_column (Min ?ts) (Max ?ts - Min ?ts) columnCount"
  have "?col n = columnCount - 1" using lo hi assms(3,5,6) n(2) by (intro layout_column_last) simp_all
  moreover have lay: "layoutNodes nodes columnCount =
      concat (map (\<lambda>c. column_nodes (c, filter (\<lambda>n. ?col n = c) nodes)) (js_unique (map ?col nodes)))"
    using ne lo assms(3) unfolding layoutNodes_def Let_def columns_grouped by (simp add: comp_def max_def)
  ultimately have "columnCount - 1 \<in> ln_column ` set (layoutNodes nodes columnCount)"
    unfolding lay columns_shown using n(1) by (intro image_eqI [of _ _ n]) simp_all
  moreover have "ln_column m \<le> columnCount - 1" if "m \<in> set (layoutNodes nodes columnCount)" for m
    using layout_members [OF ne that assms(5)] by simp
  ultimately have "Max (ln_column ` set (layoutNodes nodes columnCount)) = columnCount - 1" by (intro Max_eqI) auto
  moreover have "layoutNodes nodes columnCount \<noteq> []"
    using \<open>columnCount - 1 \<in> ln_column ` set (layoutNodes nodes columnCount)\<close> by auto
  ultimately show ?thesis by (simp add: graphKey_def)
qed

section \<open>Properties\<close>

text \<open>
  C30: the layout places every node of the graph exactly once, in a column between 0 and the number of
  columns; no two nodes share a place, and a node seen earlier is never placed to the right of one seen later,
  in double arithmetic.
\<close>

theorem layout_time_aware:
  assumes "1 \<le> columnCount"
  shows "mset (map GraphNode.truncate (layoutNodes nodes columnCount)) = mset nodes \<and>
    distinct (map (\<lambda>m. (ln_x m, ln_y m)) (layoutNodes nodes columnCount)) \<and>
    (\<forall>a \<in> set (layoutNodes nodes columnCount).
       0 \<le> ln_column a \<and> ln_column a < columnCount \<and> ln_x a = ln_column a * COLUMN_WIDTH \<and>
       (\<forall>b \<in> set (layoutNodes nodes columnCount). gn_firstSeenMs a \<le> gn_firstSeenMs b \<longrightarrow> ln_x a \<le> ln_x b))"
proof (cases "nodes = []")
  case False
  then show ?thesis
    using assms layout_keeps_nodes layout_distinct_places layout_members layout_in_time_order by simp
qed (simp add: layoutNodes_def)

definition sample_node :: "string \<Rightarrow> int \<Rightarrow> GraphNode" where
  "sample_node i t = \<lparr>gn_id = i, gn_type = HostEntity, gn_label = i, gn_firstSeenMs = t, gn_priorCaseCount = 0\<rparr>"

theorem layout_time_aware_witness:
  "mset (map GraphNode.truncate (layoutNodes [sample_node ''b'' 900, sample_node ''a'' 100] 4)) =
     mset [sample_node ''b'' 900, sample_node ''a'' 100]"
  using layout_time_aware [of 4 "[sample_node ''b'' 900, sample_node ''a'' 100]"] by simp

text \<open>
  C28: whatever sequence of resizing, fitting, zooming, dragging, clicking, picking a claim and replaying
  happens, the viewport never degenerates (positive size, zoom between 0 and 8), a node and an edge are never both
  selected, exactly one side panel is shown, and a running replay highlights exactly the first edges of its list.
\<close>

theorem canvas_state_sane:
  assumes "(canvas_step hypot dpr nodes edges columnCount)\<^sup>*\<^sup>* canvas_init s" "0 < dpr"
  shows "0 < v_zoom (cv_viewport s) \<and> v_zoom (cv_viewport s) \<le> 8 \<and> 0 < v_width (cv_viewport s) \<and> 0 < v_height (cv_viewport s) \<and>
    (cv_selectedNodeId s = None \<or> cv_selectedEdge s = None) \<and> length (side_panels nodes s) = 1 \<and>
    (\<forall>es i. cv_replayTimer s = Some (es, i) \<longrightarrow>
       i \<le> length es \<and> length es \<le> 80 \<and> cv_replayEdgeIds s = Some (js_unique (map ge_id (take i es))))"
  using canvas.reachable_holds [OF assms(1) refl] assms(2) one_panel [of s nodes]
  by (auto simp: canvas_inv_def viewport_ok_def replay_ok_def)

theorem canvas_state_sane_witness:
  "length (side_panels [sample_node ''a'' 100] (replay_tick (replayAttackPath False [] canvas_init))) = 1"
proof -
  let ?step = "canvas_step (\<lambda>x y. x) 1 [sample_node ''a'' 100] [] 4"
  have "?step canvas_init (replayAttackPath False [] canvas_init)" by (rule replay)
  moreover have "?step (replayAttackPath False [] canvas_init) (replay_tick (replayAttackPath False [] canvas_init))" by (rule timer)
  ultimately have "?step\<^sup>*\<^sup>* canvas_init (replay_tick (replayAttackPath False [] canvas_init))" by auto
  from canvas_state_sane [OF this] show ?thesis by simp
qed

text \<open>
  A replay ends. After one timer tick per edge and one more the timer has stopped, and the state is the one the
  reduced-motion variant shows at once; further ticks change nothing.
\<close>

theorem replay_ends:
  "(replay_tick ^^ (Suc (length (chronological edges)) + k)) (replayAttackPath False edges s) = replayAttackPath True edges s"
proof -
  let ?es = "chronological edges" and ?s = "replayAttackPath False edges s"
  have "(replay_tick ^^ length ?es) ?s =
      ?s\<lparr>cv_replayTimer := Some (?es, 0 + length ?es), cv_replayEdgeIds := Some (js_unique (map ge_id (take (0 + length ?es) ?es)))\<rparr>"
    by (rule replay_ticks) (simp_all add: replayAttackPath_def)
  then have once: "(replay_tick ^^ Suc (length ?es)) ?s = replayAttackPath True edges s"
    by (simp add: replay_tick_def replayAttackPath_def)
  have "(replay_tick ^^ k) (replayAttackPath True edges s) = replayAttackPath True edges s"
    by (induction k) (simp_all add: replay_tick_def replayAttackPath_def)
  with once show ?thesis by (simp only: add.commute [of _ k] funpow_add comp_apply)
qed

text \<open>
  C29: what "Verify inclusion proof" shows. For evidence of the tree the produced proof shows Verified, and for an
  identifier outside it no proof that carries the tree's root does unless the hash collides. The root, however, comes
  with the proof: whatever the identifier, some answer of the server shows Verified. The other rows are untouched, and
  a failed request or answer shows Error.
\<close>

theorem claim_verdict:
  assumes "buildMerkleTree blake3 ids = Inr t"
  shows "(evidenceId \<in> set ids \<longrightarrow>
      (\<exists>p. prove_listed t ids evidenceId = Inr (Some p) \<and> map_of (claim_verify blake3 evidenceId (ProofBody p) states) evidenceId = Some Valid)) \<and>
    (evidenceId \<notin> set ids \<longrightarrow>
      (\<forall>p. ip_root p = mt_root t \<longrightarrow> digest_length blake3 \<longrightarrow>
         collision_free blake3 (tree_inputs blake3 ids @ proof_inputs blake3 evidenceId p) \<longrightarrow>
         map_of (claim_verify blake3 evidenceId (ProofBody p) states) evidenceId = Some Invalid)) \<and>
    (\<exists>p. map_of (claim_verify blake3 evidenceId (ProofBody p) states) evidenceId = Some Valid) \<and>
    map_of (claim_verify blake3 evidenceId (NotOk status) states) evidenceId = Some ProofError \<and>
    map_of (claim_verify blake3 evidenceId FetchFailed states) evidenceId = Some ProofError \<and>
    (\<forall>other r. other \<noteq> evidenceId \<longrightarrow> map_of (claim_verify blake3 evidenceId r states) other = map_of states other)"
proof (intro conjI)
  show "evidenceId \<in> set ids \<longrightarrow>
      (\<exists>p. prove_listed t ids evidenceId = Inr (Some p) \<and> map_of (claim_verify blake3 evidenceId (ProofBody p) states) evidenceId = Some Valid)"
    using prove_listed_member [OF assms] by (fastforce simp: claim_verify_def Let_def update_conv')
  show "evidenceId \<notin> set ids \<longrightarrow>
      (\<forall>p. ip_root p = mt_root t \<longrightarrow> digest_length blake3 \<longrightarrow>
         collision_free blake3 (tree_inputs blake3 ids @ proof_inputs blake3 evidenceId p) \<longrightarrow>
         map_of (claim_verify blake3 evidenceId (ProofBody p) states) evidenceId = Some Invalid)"
  proof (intro impI allI)
    fix p assume "evidenceId \<notin> set ids" "ip_root p = mt_root t" "digest_length blake3"
      "collision_free blake3 (tree_inputs blake3 ids @ proof_inputs blake3 evidenceId p)"
    then have "hash_safe blake3 ids evidenceId p" using assms by (auto simp: hash_safe_def buildMerkleTree_def)
    with merkle.sound [of blake3 ids evidenceId p] \<open>evidenceId \<notin> set ids\<close> \<open>ip_root p = mt_root t\<close> assms
    have "\<not> verifyInclusion blake3 evidenceId p" by (auto simp: accepts_def root_of_def)
    then show "map_of (claim_verify blake3 evidenceId (ProofBody p) states) evidenceId = Some Invalid"
      by (simp add: claim_verify_def Let_def update_conv')
  qed
  have "verifyInclusion blake3 evidenceId \<lparr>ip_leafIndex = 0, ip_steps = [], ip_root = bytesToHex (leafHash blake3 evidenceId)\<rparr>"
    by (simp add: verifyInclusion_def)
  then show "\<exists>p. map_of (claim_verify blake3 evidenceId (ProofBody p) states) evidenceId = Some Valid"
    by (intro exI) (simp add: claim_verify_def Let_def update_conv')
qed (simp_all add: claim_verify_def Let_def update_conv')

theorem claim_verdict_witness:
  "\<exists>p. map_of (claim_verify sample_hash ''e2'' (ProofBody p) []) ''e2'' = Some Valid"
proof -
  obtain t where "buildMerkleTree sample_hash sample_ids = Inr t" by (simp add: buildMerkleTree_def sample_ids_def Let_def)
  from claim_verdict [OF this] show ?thesis by blast
qed

end
