(* ===== verification/Cross_Check.thy ===== *)
theory Cross_Check
  imports Kernel_Adjudicate Session
begin

text \<open>
  The check that the kernel computes the same verdicts natively and as WebAssembly: the fixed scenarios
  (\<^verbatim>\<open>kernel/src/fixtures.rs\<close>), the native program that prints their hashes (\<^verbatim>\<open>kernel/src/bin/print_fixed_hashes.rs\<close>) and the
  script that compares them with the module's export (\<^verbatim>\<open>kernel/wasm_cross_check.mjs\<close>). A 64-bit result crosses into
  JavaScript as a signed integer; \<^const>\<open>None\<close> is a panic or a trap.
\<close>

section \<open>The fixed scenarios\<close>

definition cnc_claim ::
  "string \<Rightarrow> string \<Rightarrow> string option \<Rightarrow> int \<Rightarrow> int \<Rightarrow> string \<Rightarrow> string \<Rightarrow> int option \<Rightarrow> Claim" where
  "cnc_claim predicate subject object start_ns end_ns e extractor observed = \<lparr>cl_predicate = predicate, cl_subject = subject,
     cl_object = object, cl_interval_start_ns = start_ns, cl_interval_end_ns = end_ns, cl_evidence = [e],
     cl_extractor_kind = ''rule'', cl_extractor_id = extractor, cl_extractor_version = ''1'',
     cl_observed_value = observed, cl_polarity = Supports, cl_hypothesis_ref = None\<rparr>"

definition brute_force_then_cnc_scenario :: "Claim list" where
  "brute_force_then_cnc_scenario =
     [cnc_claim ''AUTH_FAILED_BURST'' ''user:jdoe'' None 1000000000 1060000000 ''blake3:auth-fail-1''
        ''cdl.credential.auth-burst-then-success'' (Some 43),
      cnc_claim ''AUTH_SUCCEEDED_AFTER_FAILURES'' ''user:jdoe'' None 1060000000 1061000000 ''blake3:auth-succ-1''
        ''cdl.credential.auth-burst-then-success'' (Some 118),
      cnc_claim ''INTERPRETER_SPAWNED_BY'' ''host:WIN-CLIENT-04'' (Some ''powershell.exe'') 1070000000 1070000000 ''blake3:proc-1''
        ''cdl.execution.interpreter-spawned'' None,
      cnc_claim ''ENCODED_COMMAND'' ''host:WIN-CLIENT-04'' (Some ''powershell.exe'') 1070000000 1070000000 ''blake3:proc-2''
        ''cdl.execution.encoded-command'' None,
      cnc_claim ''INTERPRETER_NETWORK_EGRESS'' ''host:WIN-CLIENT-04'' (Some ''45.61.0.12'') 1080000000 1080000000 ''blake3:net-1''
        ''cdl.c2.interpreter-network-egress'' None,
      cnc_claim ''CONNECTED_TO_INDICATOR'' ''host:WIN-CLIENT-04'' (Some ''45.61.0.12'') 1080000000 1080000000 ''blake3:net-1''
        ''cdl.c2.connected-to-indicator'' None]"

definition brute_force_then_cnc_policy :: "int \<Rightarrow> InvalidPolicyError + KPolicyBundle" where
  "brute_force_then_cnc_policy indicator_weight = PolicyBundle_new ''policy.v1-test''
     [''AUTH_FAILED_BURST'' \<mapsto> \<lparr>kw_tactic = CredentialAccess, kw_weight = 2000, kw_techniques = [''T1110.001'']\<rparr>,
      ''AUTH_SUCCEEDED_AFTER_FAILURES'' \<mapsto> \<lparr>kw_tactic = CredentialAccess, kw_weight = 1000, kw_techniques = [''T1078'']\<rparr>,
      ''INTERPRETER_SPAWNED_BY'' \<mapsto> \<lparr>kw_tactic = Execution, kw_weight = 1500, kw_techniques = [''T1059.001'']\<rparr>,
      ''ENCODED_COMMAND'' \<mapsto> \<lparr>kw_tactic = Execution, kw_weight = 1500, kw_techniques = [''T1059.001'']\<rparr>,
      ''INTERPRETER_NETWORK_EGRESS'' \<mapsto> \<lparr>kw_tactic = CommandAndControl, kw_weight = 2000, kw_techniques = [''T1071.001'']\<rparr>,
      ''CONNECTED_TO_INDICATOR'' \<mapsto> \<lparr>kw_tactic = CommandAndControl, kw_weight = indicator_weight, kw_techniques = [''T1071.001'']\<rparr>]
     Map.empty [(0, Info), (2000, Low), (5000, Medium), (8000, High), (12000, Critical)]"

definition fixed_scenario :: "nat \<Rightarrow> (Claim list \<times> (InvalidPolicyError + KPolicyBundle)) option" where
  "fixed_scenario index =
     (if index = 0 then Some (brute_force_then_cnc_scenario, brute_force_then_cnc_policy 0)
      else if index = 1 then Some (brute_force_then_cnc_scenario, brute_force_then_cnc_policy 5000)
      else if index = 2 then Some ([], brute_force_then_cnc_policy 0)
      else if index = 3 then Some (adjacent_tactics_scenario, adjacent_tactics_policy 500)
      else if index = 4 then Some (adjacent_tactics_scenario, adjacent_tactics_policy 0)
      else None)"

text \<open>\<^verbatim>\<open>u64::from_be_bytes\<close>.\<close>

definition u64_from_be_bytes :: "bytes \<Rightarrow> 64 word" where
  "u64_from_be_bytes bs = of_nat (foldl (\<lambda>a b. a * 256 + unat b) 0 bs)"

definition fixed_scenario_hash_u64 :: "hash_fun \<Rightarrow> nat \<Rightarrow> 64 word option option" where
  "fixed_scenario_hash_u64 blake3 index =
     (case fixed_scenario index of
        None \<Rightarrow> Some None
      | Some (claims, Inl _) \<Rightarrow> None
      | Some (claims, Inr policy) \<Rightarrow>
          map_option (\<lambda>verdict. Some (u64_from_be_bytes (take 8 (v_verdict_hash verdict)))) (adjudicate blake3 claims policy ''0.0.0-test''))"

definition FIXED_SCENARIO_COUNT :: nat where
  "FIXED_SCENARIO_COUNT = 5"

definition wasm_fixed_scenario_hash_u64 :: "hash_fun \<Rightarrow> nat \<Rightarrow> 64 word option" where
  "wasm_fixed_scenario_hash_u64 blake3 index =
     map_option (\<lambda>r. case r of None \<Rightarrow> 0 | Some h \<Rightarrow> h) (fixed_scenario_hash_u64 blake3 index)"

section \<open>The native printer\<close>

text \<open>\<^verbatim>\<open>{hash:016x}\<close>, and in the script \<^verbatim>\<open>toString(16).padStart(16, "0")\<close>.\<close>

definition hex016 :: "nat \<Rightarrow> string" where
  "hex016 n = pad_start 16 CHR ''0'' (to_radix 16 n)"

definition hash_line :: "nat \<Rightarrow> 64 word \<Rightarrow> string" where
  "hash_line i hash = show_int (int i) @ '' '' @ hex016 (unat hash)"

definition print_fixed_hashes :: "hash_fun \<Rightarrow> string option" where
  "print_fixed_hashes blake3 =
     map_option concat (those (map (\<lambda>i.
       case fixed_scenario_hash_u64 blake3 i of
         Some (Some hash) \<Rightarrow> Some (hash_line i hash @ [CHR 0x0A])
       | _ \<Rightarrow> None) [0..<FIXED_SCENARIO_COUNT]))"

section \<open>The comparing script\<close>

text \<open>\<^verbatim>\<open>s.split(/\s+/)\<close>.\<close>

function js_split_ws :: "string \<Rightarrow> string list" where
  "js_split_ws s =
     (let w = takeWhile (\<lambda>c. \<not> js_space c) s; r = dropWhile (\<lambda>c. \<not> js_space c) s
      in if r = [] then [w] else w # js_split_ws (dropWhile js_space r))"
  by pat_completeness auto

termination
proof (relation "measure length")
  fix s w r :: string
  assume r: "r = dropWhile (\<lambda>c. \<not> js_space c) s" "r \<noteq> []"
  then have "js_space (hd r)" using hd_dropWhile [of "\<lambda>c. \<not> js_space c" s] by simp
  then have "length (dropWhile js_space r) < length r" using r(2) by (cases r) (simp_all add: length_dropWhile_le le_imp_less_Suc)
  also have "\<dots> \<le> length s" using r(1) by (simp add: length_dropWhile_le)
  finally show "(dropWhile js_space r, s) \<in> measure length" by simp
qed simp

declare js_split_ws.simps [simp del]

text \<open>
  \<^verbatim>\<open>Number(s)\<close> where the module's export takes a 32-bit integer: a string of decimal digits is its value. Other texts, which
  the printer never writes, count as not a number, passed on as 0.
\<close>

definition number_u32 :: "string \<Rightarrow> nat" where
  "number_u32 s = (if s \<noteq> [] \<and> list_all is_digit s then radix_value 10 (map digit_val s) mod 2 ^ 32 else 0)"

text \<open>\<^verbatim>\<open>BigInt.asUintN(64, n)\<close>.\<close>

definition asUintN64 :: "int \<Rightarrow> nat" where
  "asUintN64 n = nat (n mod 2 ^ 64)"

text \<open>One line: whether it is a mismatch. A line without a second word compares with \<^verbatim>\<open>undefined\<close>.\<close>

definition line_mismatch :: "(nat \<Rightarrow> int option) \<Rightarrow> string \<Rightarrow> bool option" where
  "line_mismatch exportFn line =
     (let parts = js_split_ws (trim line);
          index = number_u32 (hd parts);
          nativeHex = (case tl parts of [] \<Rightarrow> None | h # _ \<Rightarrow> Some h)
      in map_option (\<lambda>n. Some (hex016 (asUintN64 n)) \<noteq> nativeHex) (exportFn index))"

text \<open>The exit code of the script. A trap is an exception nobody catches, which ends the process with code 1.\<close>

definition wasm_cross_check ::
  "string option \<Rightarrow> string option \<Rightarrow> (nat \<Rightarrow> int option) option \<Rightarrow> string \<Rightarrow> nat" where
  "wasm_cross_check wasmPath nativeHashesPath exportFn nativeText =
     (if wasmPath \<in> {None, Some []} \<or> nativeHashesPath \<in> {None, Some []} then 2
      else case exportFn of
        None \<Rightarrow> 2
      | Some f \<Rightarrow>
          (let nativeLines = filter (\<lambda>l. l \<noteq> []) (js_split CHR 0x0A (trim nativeText))
           in case those (map (line_mismatch f) nativeLines) of
                None \<Rightarrow> 1
              | Some ms \<Rightarrow> if 0 < length (filter (\<lambda>b. b) ms) then 1 else if nativeLines = [] then 2 else 0))"

section \<open>Texts and numbers\<close>

definition plain_line :: "string \<Rightarrow> bool" where
  "plain_line l \<longleftrightarrow> l \<noteq> [] \<and> \<not> js_space (hd l) \<and> \<not> js_space (last l) \<and> CHR 0x0A \<notin> set l"

lemma dropWhile_hd: "xs = [] \<or> \<not> P (hd xs) \<Longrightarrow> dropWhile P xs = xs"
  by (cases xs) auto

lemma trim_id: "l \<noteq> [] \<Longrightarrow> \<not> js_space (hd l) \<Longrightarrow> \<not> js_space (last l) \<Longrightarrow> trim l = l"
  by (simp add: trim_def dropWhile_hd hd_rev)

lemma trim_newline: "l \<noteq> [] \<Longrightarrow> \<not> js_space (hd l) \<Longrightarrow> \<not> js_space (last l) \<Longrightarrow> trim (l @ [CHR 0x0A]) = l"
  by (simp add: trim_def dropWhile_hd hd_rev js_space_def)

lemma split_joined:
  "list_all plain_line (l # ls) \<Longrightarrow> js_split CHR 0x0A (l @ concat (map (\<lambda>l. CHR 0x0A # l) ls)) = l # ls"
proof (induction ls arbitrary: l)
  case Nil
  then show ?case by (simp add: js_split_no_sep plain_line_def)
next
  case (Cons k ls)
  then show ?case using js_split_sep [of "CHR 0x0A" l] by (simp add: plain_line_def)
qed

lemma joined_ends:
  "list_all plain_line (l # ls) \<Longrightarrow> \<not> js_space (last (l @ concat (map (\<lambda>l. CHR 0x0A # l) ls)))"
  by (induction ls arbitrary: l) (auto simp: plain_line_def)

lemma split_lines:
  assumes "list_all plain_line (l # ls)"
  shows "js_split CHR 0x0A (trim (concat (map (\<lambda>l. l @ [CHR 0x0A]) (l # ls)))) = l # ls"
proof -
  have "concat (map (\<lambda>l. l @ [CHR 0x0A]) (l # ls)) = (l @ concat (map (\<lambda>l. CHR 0x0A # l) ls)) @ [CHR 0x0A]" for l ls
    by (induction ls arbitrary: l) simp_all
  moreover have "trim ((l @ concat (map (\<lambda>l. CHR 0x0A # l) ls)) @ [CHR 0x0A]) = l @ concat (map (\<lambda>l. CHR 0x0A # l) ls)"
    using assms joined_ends [OF assms] by (intro trim_newline) (auto simp: plain_line_def)
  ultimately show ?thesis using split_joined [OF assms] by simp
qed

lemma hex_chars: "c \<in> set (hex016 n) \<Longrightarrow> \<not> js_space c"
proof -
  have "\<not> js_space (digit_char d)" if "d \<in> set (radix_digits 16 n)" for d
    using radix_digits_bound [OF _ that] hex_digit_facts(2) by simp
  then show "c \<in> set (hex016 n) \<Longrightarrow> \<not> js_space c"
    by (auto simp: hex016_def pad_start_def to_radix_def) (auto simp: js_space_def)
qed

lemma hex016_inject: "hex016 m = hex016 n \<longleftrightarrow> m = n"
proof -
  define val where "val s = radix_value 16 (map (\<lambda>c. the (hex_digit_value c)) s)" for s
  have "val (hex016 k) = k" for k
  proof -
    have d: "map (\<lambda>c. the (hex_digit_value c)) (to_radix 16 k) = radix_digits 16 k"
      using radix_digits_bound [of 16 _ k] hex_digit_facts(1) by (auto simp: to_radix_def intro!: map_idI)
    have z: "the (hex_digit_value CHR ''0'') = 0" by (simp add: hex_digit_value_def)
    have r: "foldl (\<lambda>a d. a * 16 + d) 0 (replicate j 0) = (0 :: nat)" for j
      by (induction j) simp_all
    have "val (hex016 k) = radix_value 16 (radix_digits 16 k)"
      by (simp add: val_def hex016_def pad_start_def d z radix_value_def r)
    then show ?thesis by (simp add: radix_value_digits)
  qed
  then show ?thesis by metis
qed

lemma hex016_nonempty: "hex016 n \<noteq> []"
  by (simp add: hex016_def pad_start_def to_radix_def radix_digits.simps [of 16 n])

lemma small_index:
  assumes "i < FIXED_SCENARIO_COUNT"
  shows "show_int (int i) = [digit_char i]" "number_u32 [digit_char i] = i" "\<not> js_space (digit_char i)"
proof -
  have i: "i \<in> {0, 1, 2, 3, 4}" using assms by (auto simp: FIXED_SCENARIO_COUNT_def)
  then show "show_int (int i) = [digit_char i]"
    by (auto simp: show_int_def to_radix_def radix_digits.simps)
  from i show "number_u32 [digit_char i] = i"
    by (auto simp: number_u32_def digit_char_def digit_chars_def is_digit_def less_eq_char_def digit_val_def radix_value_def)
  show "\<not> js_space (digit_char i)" using assms by (intro hex_digit_facts(2)) (simp add: FIXED_SCENARIO_COUNT_def)
qed

lemma takeWhile_words:
  assumes "\<And>c. c \<in> set w \<Longrightarrow> \<not> js_space c" "js_space d"
  shows "takeWhile (\<lambda>c. \<not> js_space c) (w @ d # r) = w" "dropWhile (\<lambda>c. \<not> js_space c) (w @ d # r) = d # r"
  using assms by (simp_all add: takeWhile_append2 dropWhile_append2)

lemma split_words:
  assumes "\<And>c. c \<in> set w \<Longrightarrow> \<not> js_space c" "\<And>c. c \<in> set v \<Longrightarrow> \<not> js_space c" "v \<noteq> []"
  shows "js_split_ws (w @ '' '' @ v) = [w, v]"
proof -
  have sp: "js_space CHR 0x20" by (simp add: js_space_def)
  have "js_split_ws v = [v]"
    using assms(2) by (subst js_split_ws.simps) (simp add: Let_def takeWhile_eq_all_conv [THEN iffD2] dropWhile_eq_Nil_conv)
  moreover have "dropWhile js_space (CHR 0x20 # v) = v" using assms(2,3) sp by (cases v) auto
  ultimately show ?thesis
    using takeWhile_words [of w, OF assms(1) sp, of v] by (subst js_split_ws.simps) (simp add: Let_def)
qed

lemma hash_line_plain:
  assumes "i < FIXED_SCENARIO_COUNT"
  shows "plain_line (hash_line i hash)"
proof -
  have "js_space CHR 0x0A" by (simp add: js_space_def)
  then have "CHR 0x0A \<notin> set (hex016 (unat hash))" "CHR 0x0A \<noteq> digit_char i" using hex_chars small_index(3) [OF assms] by metis+
  then show ?thesis
    using small_index(1,3) [OF assms] hex_chars [of "last (hex016 (unat hash))" "unat hash"] hex016_nonempty [of "unat hash"]
    by (simp add: plain_line_def hash_line_def)
qed

lemma line_mismatch_hash:
  assumes "i < FIXED_SCENARIO_COUNT"
  shows "line_mismatch f (hash_line i hash) = map_option (\<lambda>n. word_of_int n \<noteq> hash) (f i)"
proof -
  have "trim (hash_line i hash) = hash_line i hash"
    using hash_line_plain [OF assms, of hash] by (simp add: plain_line_def trim_id)
  moreover have "js_split_ws (hash_line i hash) = [[digit_char i], hex016 (unat hash)]"
    unfolding hash_line_def small_index(1) [OF assms]
    by (rule split_words) (use small_index(3) [OF assms] hex_chars hex016_nonempty in auto)
  moreover have "asUintN64 n = unat hash \<longleftrightarrow> word_of_int n = hash" for n
  proof -
    have "asUintN64 n = unat (word_of_int n :: 64 word)"
      by (simp add: asUintN64_def unat_eq_nat_uint uint_word_of_int)
    then show ?thesis by (simp add: word_unat_eq_iff)
  qed
  ultimately show ?thesis by (simp add: line_mismatch_def small_index(2) [OF assms] hex016_inject)
qed

section \<open>The scenarios resolve\<close>

lemma fixed_policies:
  "\<exists>p. brute_force_then_cnc_policy w = Inr p \<and> kp_severity_thresholds p \<noteq> []"
  "\<exists>p. adjacent_tactics_policy w = Inr p \<and> kp_severity_thresholds p \<noteq> []"
  by (simp_all add: brute_force_then_cnc_policy_def adjacent_tactics_policy_def PolicyBundle_new_def)

lemma fixed_scenario_resolves:
  assumes "i < FIXED_SCENARIO_COUNT"
  shows "\<exists>hash. fixed_scenario_hash_u64 blake3 i = Some (Some hash)"
proof -
  have "i \<in> {0, 1, 2, 3, 4}" using assms by (auto simp: FIXED_SCENARIO_COUNT_def)
  then obtain claims policy where s: "fixed_scenario i = Some (claims, Inr policy)" "kp_severity_thresholds policy \<noteq> []"
    using fixed_policies(1) [of 0] fixed_policies(1) [of 5000] fixed_policies(2) [of 500] fixed_policies(2) [of 0]
    by (auto simp: fixed_scenario_def)
  then show ?thesis using adjudicate_total [OF s(2), of blake3 claims] by (fastforce simp: fixed_scenario_hash_u64_def)
qed

definition scenario_hash :: "hash_fun \<Rightarrow> nat \<Rightarrow> 64 word" where
  "scenario_hash blake3 i = the (wasm_fixed_scenario_hash_u64 blake3 i)"

lemma scenario_hash:
  assumes "i < FIXED_SCENARIO_COUNT"
  shows "fixed_scenario_hash_u64 blake3 i = Some (Some (scenario_hash blake3 i))"
    "wasm_fixed_scenario_hash_u64 blake3 i = Some (scenario_hash blake3 i)"
  using fixed_scenario_resolves [OF assms, of blake3] by (auto simp: scenario_hash_def wasm_fixed_scenario_hash_u64_def)

lemma those_map_cong: "(\<And>x. x \<in> set xs \<Longrightarrow> f x = Some (g x)) \<Longrightarrow> those (map f xs) = Some (map g xs)"
  by (induction xs) auto

lemma those_None_iff: "those xs = None \<longleftrightarrow> None \<in> set xs"
  by (induction xs) (auto split: option.splits)

lemma those_SomeD: "those xs = Some ys \<Longrightarrow> xs = map Some ys"
  by (induction xs arbitrary: ys) (auto split: option.splits)

abbreviation scenario_lines :: "hash_fun \<Rightarrow> string list" where
  "scenario_lines blake3 \<equiv> map (\<lambda>i. hash_line i (scenario_hash blake3 i)) [0..<FIXED_SCENARIO_COUNT]"

lemma printed: "print_fixed_hashes blake3 = Some (concat (map (\<lambda>l. l @ [CHR 0x0A]) (scenario_lines blake3)))"
  unfolding print_fixed_hashes_def
  by (subst those_map_cong [where g = "\<lambda>i. hash_line i (scenario_hash blake3 i) @ [CHR 0x0A]"]) (simp_all add: scenario_hash(1) comp_def)

lemma scenario_lines_split:
  "js_split CHR 0x0A (trim (concat (map (\<lambda>l. l @ [CHR 0x0A]) (scenario_lines blake3)))) = scenario_lines blake3"
proof -
  obtain l ls where l: "scenario_lines blake3 = l # ls" by (cases "scenario_lines blake3") (simp_all add: FIXED_SCENARIO_COUNT_def)
  have "list_all plain_line (scenario_lines blake3)" by (simp add: list_all_iff hash_line_plain)
  then show ?thesis unfolding l by (rule split_lines)
qed

lemma cross_check_of_lines:
  assumes "wasmPath \<noteq> []" "nativePath \<noteq> []"
    and "js_split CHR 0x0A (trim out) = ls" "filter (\<lambda>l. l \<noteq> []) ls = ls" "ls \<noteq> []" "map (line_mismatch f) ls = ms"
  shows "wasm_cross_check (Some wasmPath) (Some nativePath) (Some f) out =
    (case those ms of None \<Rightarrow> 1 | Some bs \<Rightarrow> if 0 < length (filter (\<lambda>b. b) bs) then 1 else 0)"
  using assms by (simp add: wasm_cross_check_def Let_def split: option.splits)

lemma upt_options:
  assumes "map m [0..<n] = map Some ms"
  shows "True \<in> set ms \<longleftrightarrow> (\<exists>i < n. m i = Some True)" "\<forall>i < n. m i \<noteq> None"
proof -
  have n: "length ms = n" using arg_cong [OF assms, of length] by simp
  then have "\<forall>i < n. m i = Some (ms ! i)" using arg_cong [OF assms, of "\<lambda>xs. xs ! i" for i] by (metis add_0 diff_zero length_upt nth_map nth_upt)
  then show "True \<in> set ms \<longleftrightarrow> (\<exists>i < n. m i = Some True)" "\<forall>i < n. m i \<noteq> None" using n by (auto simp: in_set_conv_nth)
qed

lemma cross_check_lines:
  assumes "wasmPath \<noteq> []" "nativePath \<noteq> []"
  shows "wasm_cross_check (Some wasmPath) (Some nativePath) (Some f) (concat (map (\<lambda>l. l @ [CHR 0x0A]) (scenario_lines blake3))) =
    (if \<forall>i < FIXED_SCENARIO_COUNT. \<exists>n. f i = Some n \<and> word_of_int n = scenario_hash blake3 i then 0 else 1)"
proof -
  let ?ls = "scenario_lines blake3" and ?m = "\<lambda>i. map_option (\<lambda>n. word_of_int n \<noteq> scenario_hash blake3 i) (f i)"
  have "list_all plain_line ?ls" by (simp add: list_all_iff hash_line_plain)
  then have ne: "filter (\<lambda>l. l \<noteq> []) ?ls = ?ls" by (intro filter_True) (auto simp: list_all_iff plain_line_def)
  have m: "map (line_mismatch f) ?ls = map ?m [0..<FIXED_SCENARIO_COUNT]" by (simp add: line_mismatch_hash)
  have l: "?ls \<noteq> []" by (simp add: FIXED_SCENARIO_COUNT_def)
  have code: "wasm_cross_check (Some wasmPath) (Some nativePath) (Some f) (concat (map (\<lambda>l. l @ [CHR 0x0A]) ?ls)) =
      (case those (map ?m [0..<FIXED_SCENARIO_COUNT]) of None \<Rightarrow> 1 | Some ms \<Rightarrow> if 0 < length (filter (\<lambda>b. b) ms) then 1 else 0)"
    by (rule cross_check_of_lines [OF assms scenario_lines_split ne l m])
  show ?thesis
  proof (cases "those (map ?m [0..<FIXED_SCENARIO_COUNT])")
    case None
    then obtain i where "i < FIXED_SCENARIO_COUNT" "f i = None" by (auto simp: those_None_iff)
    with None show ?thesis unfolding code by auto
  next
    case (Some ms)
    then have "map ?m [0..<FIXED_SCENARIO_COUNT] = map Some ms" by (rule those_SomeD)
    note s = upt_options [OF this]
    have "filter (\<lambda>b. b) ms = [] \<longleftrightarrow> True \<notin> set ms" by (auto simp: filter_empty_conv)
    also have "\<dots> \<longleftrightarrow> (\<forall>i < FIXED_SCENARIO_COUNT. \<exists>n. f i = Some n \<and> word_of_int n = scenario_hash blake3 i)"
      unfolding s(1) using s(2) by fastforce
    finally have "filter (\<lambda>b. b) ms = [] \<longleftrightarrow> (\<forall>i < FIXED_SCENARIO_COUNT. \<exists>n. f i = Some n \<and> word_of_int n = scenario_hash blake3 i)" .
    with Some show ?thesis unfolding code by simp
  qed
qed

section \<open>Properties\<close>

text \<open>A file has no line to compare exactly when it holds white space only.\<close>

lemma trim_start: "trim s \<noteq> [] \<Longrightarrow> \<not> js_space (hd (trim s))"
proof -
  define t where "t = dropWhile js_space s"
  assume ne: "trim s \<noteq> []"
  then have "t \<noteq> []" by (auto simp: trim_def t_def [symmetric] simp del: dropWhile_eq_Nil_conv)
  obtain u where u: "t = trim s @ u"
    unfolding trim_def t_def [symmetric] by (metis rev_append rev_rev_ident takeWhile_dropWhile_id)
  have "\<not> js_space (hd t)" using \<open>t \<noteq> []\<close> hd_dropWhile [of js_space s] by (simp add: t_def)
  with u ne show ?thesis by simp
qed

lemma no_lines: "filter (\<lambda>l. l \<noteq> []) (js_split CHR 0x0A (trim s)) = [] \<longleftrightarrow> trim s = []"
proof (cases "trim s")
  case (Cons c t)
  then have "c \<noteq> CHR 0x0A" using trim_start [of s] by (auto simp: js_space_def)
  with Cons show ?thesis by (simp split: list.split)
qed simp

lemma exit_two:
  "wasm_cross_check wasmPath nativePath exportFn nativeText = 2 \<longleftrightarrow>
     wasmPath \<in> {None, Some []} \<or> nativePath \<in> {None, Some []} \<or> exportFn = None \<or> trim nativeText = []"
  unfolding no_lines [symmetric] by (auto simp: wasm_cross_check_def Let_def split: option.split)

text \<open>
  C39: the cross-target check says what it is for. Given files that can be read, the script ends with 2 exactly if a path is
  missing, the module lacks the export or the file of native hashes is empty but for white space. The native program never
  panics, and on its output the script ends with 0 exactly if the module answers all five scenarios with the same 64 bits,
  read as signed or as unsigned, and with 1 otherwise, a trap included; a module compiled from the same source passes,
  whatever the hash function.
\<close>

theorem cross_check_exact:
  assumes "wasmPath \<noteq> []" "nativePath \<noteq> []"
  shows "(\<forall>wp np exportFn nativeText. wasm_cross_check wp np exportFn nativeText = 2 \<longleftrightarrow>
      wp \<in> {None, Some []} \<or> np \<in> {None, Some []} \<or> exportFn = None \<or> trim nativeText = []) \<and>
    (\<exists>text. print_fixed_hashes blake3 = Some text \<and>
      (\<forall>f. wasm_cross_check (Some wasmPath) (Some nativePath) (Some f) text =
         (if \<forall>i < FIXED_SCENARIO_COUNT. \<exists>n. f i = Some n \<and> Some (word_of_int n) = wasm_fixed_scenario_hash_u64 blake3 i then 0 else 1)) \<and>
      wasm_cross_check (Some wasmPath) (Some nativePath) (Some (\<lambda>i. map_option sint (wasm_fixed_scenario_hash_u64 blake3 i))) text = 0)"
proof (intro exI conjI allI)
  let ?out = "concat (map (\<lambda>l. l @ [CHR 0x0A]) (scenario_lines blake3))"
  show "print_fixed_hashes blake3 = Some ?out" by (rule printed)
  show code: "wasm_cross_check (Some wasmPath) (Some nativePath) (Some f) ?out =
      (if \<forall>i < FIXED_SCENARIO_COUNT. \<exists>n. f i = Some n \<and> Some (word_of_int n) = wasm_fixed_scenario_hash_u64 blake3 i then 0 else 1)" for f
    unfolding cross_check_lines [OF assms] by (simp add: scenario_hash(2))
  show "wasm_cross_check (Some wasmPath) (Some nativePath) (Some (\<lambda>i. map_option sint (wasm_fixed_scenario_hash_u64 blake3 i))) ?out = 0"
    unfolding code by (simp add: scenario_hash(2))
qed (rule exit_two)

theorem cross_check_exact_witness:
  "wasm_cross_check (Some ''kernel.wasm'') (Some ''hashes.txt'') (Some (\<lambda>i. None)) [CHR 0x0A] = 2 \<and>
   wasm_cross_check (Some ''kernel.wasm'') (Some ''hashes.txt'') None ''0 00'' = 2 \<and>
   (\<exists>text. print_fixed_hashes sample_hash = Some text \<and>
     wasm_cross_check (Some ''kernel.wasm'') (Some ''hashes.txt'') (Some (\<lambda>i. map_option sint (wasm_fixed_scenario_hash_u64 sample_hash i))) text = 0 \<and>
     wasm_cross_check (Some ''kernel.wasm'') (Some ''hashes.txt'') (Some (\<lambda>i. None)) text = 1)"
proof -
  have p: "''kernel.wasm'' \<noteq> []" "''hashes.txt'' \<noteq> []" by simp_all
  note exact = cross_check_exact [OF p, of sample_hash]
  obtain out where t: "print_fixed_hashes sample_hash = Some out"
    "\<forall>f. wasm_cross_check (Some ''kernel.wasm'') (Some ''hashes.txt'') (Some f) out =
       (if \<forall>i < FIXED_SCENARIO_COUNT. \<exists>n. f i = Some n \<and> Some (word_of_int n) = wasm_fixed_scenario_hash_u64 sample_hash i then 0 else 1)"
    "wasm_cross_check (Some ''kernel.wasm'') (Some ''hashes.txt'') (Some (\<lambda>i. map_option sint (wasm_fixed_scenario_hash_u64 sample_hash i))) out = 0"
    using exact [THEN conjunct2] by blast
  have "\<not> (\<forall>i < FIXED_SCENARIO_COUNT. False)" by (auto simp: FIXED_SCENARIO_COUNT_def intro: exI [of _ 0])
  then have one: "wasm_cross_check (Some ''kernel.wasm'') (Some ''hashes.txt'') (Some (\<lambda>i. None)) out = 1" using t(2) by simp
  have "trim [CHR 0x0A] = []" by (simp add: trim_def js_space_def)
  then show ?thesis using exact [THEN conjunct1] t one by blast
qed

text \<open>What the fixtures demonstrate: pricing the indicator moves the score by its weight.\<close>

lemma indicator_priced:
  assumes "brute_force_then_cnc_policy w = Inr p"
  shows "score_spec p brute_force_then_cnc_scenario = 8000 + w"
proof -
  have "kp_chain_multipliers p = Map.empty" using assms by (auto simp: brute_force_then_cnc_policy_def PolicyBundle_new_def split: if_splits)
  then have "bonus_of p = (\<lambda>_. 0)" by (simp add: fun_eq_iff bonus_of_def)
  moreover have "map (signed_price p) brute_force_then_cnc_scenario = [2000, 1000, 1500, 1500, 2000, w]"
    using assms
    by (auto simp: brute_force_then_cnc_policy_def PolicyBundle_new_def brute_force_then_cnc_scenario_def cnc_claim_def
        signed_price_def price_of_def)
  ultimately show ?thesis by (simp add: score_spec_def sum_list_0)
qed

end
