(* ===== verification/Kernel_Cli.thy ===== *)
theory Kernel_Cli
  imports Kernel_Bridge
begin

text \<open>
  The command line of the kernel (\<^verbatim>\<open>kernel/src/bin/adjudicate_cli.rs\<close>), for callers that are not written in Rust. Its request
  and response types and the functions \<^verbatim>\<open>build_policy\<close>, \<^verbatim>\<open>build_claim\<close> and \<^verbatim>\<open>hex_encode\<close> repeat those of the bridge line by line, so
  the model is the same; what differs is how a request arrives and how the answer leaves.
\<close>

section \<open>The program\<close>

text \<open>What a run leaves: standard output and exit code; \<^const>\<open>None\<close> is a panic.\<close>

type_synonym run = "(string \<times> nat) option"

definition cli_fail :: "json_writer \<Rightarrow> string \<Rightarrow> run" where
  "cli_fail to_string msg =
     Some (case to_string (JObj [(''error'', JStr msg)]) of Inl _ \<Rightarrow> [] | Inr s \<Rightarrow> s @ [CHR 0x0A], 2)"

text \<open>
  \<open>stdin\<close> is the text read or why it could not be (not UTF-8, an I/O error). \<^verbatim>\<open>to_writer\<close> is \<^verbatim>\<open>to_string\<close> on an output that
  accepts every byte; a failure is reported on standard error only.
\<close>

definition adjudicate_cli :: "json_reader \<Rightarrow> json_writer \<Rightarrow> hash_fun \<Rightarrow> string + string \<Rightarrow> run" where
  "adjudicate_cli from_str to_string blake3 stdin =
     (case stdin of
        Inl e \<Rightarrow> cli_fail to_string (''reading stdin: '' @ e)
      | Inr inp \<Rightarrow>
          (case from_str inp of
             Inl e \<Rightarrow> cli_fail to_string (''parsing input JSON: '' @ e)
           | Inr request \<Rightarrow>
               (case build_policy (ri_policy request) of
                  Inl e \<Rightarrow> cli_fail to_string (''building policy: '' @ e)
                | Inr policy \<Rightarrow>
                    (case build_claims (ri_claims request) of
                       Inl e \<Rightarrow> cli_fail to_string e
                     | Inr claims \<Rightarrow>
                         map_option (\<lambda>verdict.
                             case to_string (verdict_output verdict (map (\<lambda>c. hex_encode (claim_id blake3 c)) claims)) of
                               Inl e \<Rightarrow> ([], 2)
                             | Inr s \<Rightarrow> (s @ [CHR 0x0A], 0))
                           (adjudicate blake3 claims policy (ri_kernel_version request))))))"

section \<open>Properties\<close>

text \<open>Whether an outcome is a verdict.\<close>

fun is_verdict :: "KernelResult \<Rightarrow> bool" where
  "is_verdict (KernelOk v) = True"
| "is_verdict (KernelError e) = False"

context serde
begin

lemma cli_fail_eq: "cli_fail to_string msg = Some (err_json to_string msg @ [CHR 0x0A], 2)"
  by (simp only: cli_fail_def err_json_def writes [OF output_wf(3,4)] sum.case)

lemma cli_outcome:
  "adjudicate_cli from_str to_string blake3 (Inr inp) =
    map_option (\<lambda>s. (s @ [CHR 0x0A], if is_verdict (kernel_outcome blake3 (from_str inp)) then 0 else 2))
      (adjudicate_json from_str to_string blake3 inp)"
  by (auto simp: adjudicate_cli_def adjudicate_json_def kernel_outcome_def cli_fail_eq writes [OF output_wf(1,2)]
      option.map_comp comp_def split: sum.split intro!: option.map_cong0)

end

text \<open>
  C38: both front ends answer alike. On every input the command line prints one line, the very document the bridge puts
  into its result buffer for the same request, and the exit code tells how to read it: 0 for a verdict, 2 for an object
  with an error, never anything else; input that cannot be read is answered with an error object and exit code 2 as well.
\<close>

theorem cli_like_bridge:
  assumes "serde from_str to_string"
  shows "\<exists>doc. adjudicate_json from_str to_string blake3 inp = Some (json_text doc) \<and>
      adjudicate_cli from_str to_string blake3 (Inr inp) =
        Some (json_text doc @ [CHR 0x0A], case parsed_result (map_nums js_number doc) of Inr (KernelOk _) \<Rightarrow> 0 | _ \<Rightarrow> 2) \<and>
      adjudicate_cli from_str to_string blake3 (Inl e) =
        Some (json_text (JObj [(''error'', JStr (''reading stdin: '' @ e))]) @ [CHR 0x0A], 2)"
proof -
  obtain doc where doc: "adjudicate_json from_str to_string blake3 inp = Some (json_text doc)"
    "parsed_result (map_nums js_number doc) = Inr (kernel_outcome blake3 (from_str inp))"
    using serde.adjudicate_json_eq [OF assms] by blast
  moreover have "(case KernelResult of KernelOk _ \<Rightarrow> 0 | KernelError _ \<Rightarrow> 2) = (if is_verdict KernelResult then 0 else 2 :: nat)"
    for KernelResult by (cases KernelResult) simp_all
  moreover have "adjudicate_cli from_str to_string blake3 (Inl e) =
      Some (json_text (JObj [(''error'', JStr (''reading stdin: '' @ e))]) @ [CHR 0x0A], 2)"
    by (simp only: adjudicate_cli_def sum.case serde.cli_fail_eq [OF assms] serde.err_json_text [OF assms])
  ultimately show ?thesis by (intro exI [of _ doc]) (simp add: serde.cli_outcome [OF assms])
qed

theorem cli_like_bridge_witness:
  "\<exists>doc. adjudicate_json exact_from_str exact_to_string sample_hash [] = Some (json_text doc) \<and>
     adjudicate_cli exact_from_str exact_to_string sample_hash (Inr []) = Some (json_text doc @ [CHR 0x0A], 2)"
proof -
  have "exact_from_str [] = Inl ''expected value''" by code_simp
  then have "kernel_outcome sample_hash (exact_from_str []) = KernelError (''parsing input JSON: '' @ ''expected value'')"
    by (simp only: kernel_outcome_def sum.case)
  then have "adjudicate_cli exact_from_str exact_to_string sample_hash (Inr []) =
      map_option (\<lambda>s. (s @ [CHR 0x0A], 2)) (adjudicate_json exact_from_str exact_to_string sample_hash [])"
    by (simp add: exact.cli_outcome)
  then show ?thesis using cli_like_bridge [OF exact.serde_axioms, of sample_hash "[]" "[]"] by auto
qed

end
