(* ===== verification/Kernel_Memory.thy ===== *)
theory Kernel_Memory
  imports Kernel_Bridge
begin

text \<open>
  The linear memory between the loaders (\<^verbatim>\<open>verifyClaimSet\<close> in \<^verbatim>\<open>lib/kernel/kernel-wasm.ts\<close> and its copy in
  \<^verbatim>\<open>kernel-wasm-server.ts\<close>) and the module (\<^verbatim>\<open>wasm_alloc\<close>, \<^verbatim>\<open>wasm_dealloc\<close>, \<^verbatim>\<open>wasm_adjudicate\<close> and the two readers of the result
  buffer in \<^verbatim>\<open>kernel/wasm_bridge/src/lib.rs\<close>): one instance that serves call after call computes the pure function
  \<^const>\<open>kernel_wasm\<close> the other theories use, and keeps none of the requests. The allocator of Rust is an argument.
\<close>

section \<open>An instance\<close>

text \<open>A block of the heap: its first address and its size.\<close>

type_synonym block = "nat \<times> nat"

text \<open>\<^verbatim>\<open>RESULT\<close> is a vector: pointer, capacity, length.\<close>

record Instance =
  in_memory :: "nat \<Rightarrow> 8 word"
  in_byteLength :: nat
  in_live :: "block list"
  in_RESULT :: "nat \<times> nat \<times> nat"

text \<open>
  What the runtime library of the module decides: where a block of a size goes among the live ones (\<^const>\<open>None\<close> if it does
  not), the capacity of a string grown to a length, what free memory holds after a call, which temporaries a trap leaves
  behind, and how far a call made the memory grow. Its choices depend on the live blocks alone and not on earlier calls; no
  proof relies on that.
\<close>

record Runtime =
  rt_malloc :: "block list \<Rightarrow> nat \<Rightarrow> nat option"
  rt_capacity :: "nat \<Rightarrow> nat"
  rt_scratch :: "nat \<Rightarrow> 8 word"
  rt_left :: "block list \<Rightarrow> block list"
  rt_peak :: nat

definition in_block :: "nat \<Rightarrow> block \<Rightarrow> bool" where
  "in_block a b \<longleftrightarrow> fst b \<le> a \<and> a < fst b + snd b"

definition apart :: "block \<Rightarrow> block \<Rightarrow> bool" where
  "apart b c \<longleftrightarrow> fst b + snd b \<le> fst c \<or> fst c + snd c \<le> fst b"

definition fresh_instance :: Instance where
  "fresh_instance = \<lparr>in_memory = (\<lambda>_. 0), in_byteLength = 0, in_live = [], in_RESULT = (1, 0, 0)\<rparr>"

text \<open>After every call of an export: live blocks keep their bytes, pages are added until all of them are inside.\<close>

definition page_ceil :: "nat \<Rightarrow> nat" where
  "page_ceil n = 65536 * ((n + 65535) div 65536)"

definition settle :: "Runtime \<Rightarrow> Instance \<Rightarrow> Instance" where
  "settle rt i = i\<lparr>
     in_memory := (\<lambda>a. if list_ex (in_block a) (in_live i) then in_memory i a else rt_scratch rt a),
     in_byteLength := foldl max (in_byteLength i) (map page_ceil (rt_peak rt # map (\<lambda>b. fst b + snd b) (in_live i)))\<rparr>"

definition mem_read :: "Instance \<Rightarrow> nat \<Rightarrow> nat \<Rightarrow> bytes" where
  "mem_read i a n = map (in_memory i) [a..<a + n]"

definition mem_write :: "Instance \<Rightarrow> nat \<Rightarrow> bytes \<Rightarrow> Instance" where
  "mem_write i a bs = i\<lparr>in_memory := (\<lambda>x. if in_block x (a, length bs) then bs ! (x - a) else in_memory i x)\<rparr>"

section \<open>The exports\<close>

text \<open>
  \<^const>\<open>None\<close> is a trap. A vector of capacity 0 has no block, its pointer is the alignment, 1. Capacities are at most
  \<^verbatim>\<open>isize::MAX\<close>.
\<close>

definition vec_with_capacity :: "Runtime \<Rightarrow> nat \<Rightarrow> Instance \<Rightarrow> (nat \<times> Instance) option" where
  "vec_with_capacity rt cap i =
     (if cap = 0 then Some (1, i)
      else if 2 ^ 31 \<le> cap then None
      else map_option (\<lambda>p. (p, i\<lparr>in_live := (p, cap) # in_live i\<rparr>)) (rt_malloc rt (in_live i) cap))"

definition wasm_alloc :: "Runtime \<Rightarrow> nat \<Rightarrow> Instance \<Rightarrow> (nat \<times> Instance) option" where
  "wasm_alloc rt len i = map_option (apsnd (settle rt)) (vec_with_capacity rt len i)"

text \<open>Dropping a vector; a block that is not live is undefined behaviour, which has no value here.\<close>

definition vec_drop :: "block \<Rightarrow> Instance \<Rightarrow> Instance option" where
  "vec_drop b i =
     (if snd b = 0 then Some i
      else if b \<in> set (in_live i) then Some (i\<lparr>in_live := remove1 b (in_live i)\<rparr>)
      else None)"

definition wasm_dealloc :: "Runtime \<Rightarrow> nat \<Rightarrow> nat \<Rightarrow> Instance \<Rightarrow> Instance option" where
  "wasm_dealloc rt ptr len i = (if ptr = 0 then Some i else map_option (settle rt) (vec_drop (ptr, len) i))"

definition result_bytes :: "Instance \<Rightarrow> bytes" where
  "result_bytes i = (case in_RESULT i of (p, cap, len) \<Rightarrow> mem_read i p len)"

text \<open>The response is built in a vector of its own, then the old one is dropped.\<close>

definition set_RESULT :: "Runtime \<Rightarrow> bytes \<Rightarrow> Instance \<Rightarrow> Instance option" where
  "set_RESULT rt response i =
     (let cap = rt_capacity rt (length response)
      in Option.bind (vec_with_capacity rt cap i) (\<lambda>(p, i').
         map_option (\<lambda>i''. settle rt (i''\<lparr>in_RESULT := (p, cap, length response)\<rparr>))
           (vec_drop (case in_RESULT i of (q, c, _) \<Rightarrow> (q, c)) (mem_write i' p response))))"

definition wasm_adjudicate_at ::
  "Runtime \<Rightarrow> json_reader \<Rightarrow> json_writer \<Rightarrow> hash_fun \<Rightarrow> nat \<Rightarrow> nat \<Rightarrow> Instance \<Rightarrow> (nat \<times> Instance) option" where
  "wasm_adjudicate_at rt from_str to_string blake3 ptr len i =
     Option.bind (wasm_adjudicate from_str to_string blake3 (mem_read i ptr len) (result_bytes i)) (\<lambda>(code, response).
       map_option (Pair code) (set_RESULT rt response i))"

definition wasm_result_ptr :: "Instance \<Rightarrow> nat" where
  "wasm_result_ptr i = fst (in_RESULT i)"

definition wasm_result_len :: "Instance \<Rightarrow> nat" where
  "wasm_result_len i = snd (snd (in_RESULT i))"

text \<open>A trap ends the call in the middle.\<close>

definition trapped :: "Runtime \<Rightarrow> Instance \<Rightarrow> Instance" where
  "trapped rt i = settle rt (i\<lparr>in_live := rt_left rt (in_live i) @ in_live i\<rparr>)"

section \<open>The loader\<close>

text \<open>A 32-bit result is signed in JavaScript; an argument is taken modulo \<open>2^32\<close>.\<close>

definition js_i32 :: "nat \<Rightarrow> int" where
  "js_i32 n = (if n < 2 ^ 31 then int n else int n - 2 ^ 32)"

definition wasm_u32 :: "int \<Rightarrow> nat" where
  "wasm_u32 n = nat (n mod 2 ^ 32)"

text \<open>\<^verbatim>\<open>new Uint8Array(kernel.memory.buffer, ptr, len)\<close>; \<^const>\<open>None\<close> is a \<^verbatim>\<open>RangeError\<close>.\<close>

definition js_view :: "Instance \<Rightarrow> int \<Rightarrow> int \<Rightarrow> (nat \<times> nat) option" where
  "js_view i off len = (if 0 \<le> off \<and> 0 \<le> len \<and> off + len \<le> int (in_byteLength i) then Some (nat off, nat len) else None)"

text \<open>The \<^verbatim>\<open>try\<close> block.\<close>

definition call_body ::
  "Runtime \<Rightarrow> json_reader \<Rightarrow> json_writer \<Rightarrow> hash_fun \<Rightarrow> int \<Rightarrow> bytes \<Rightarrow> Instance \<Rightarrow> KernelResult result \<times> Instance" where
  "call_body rt from_str to_string blake3 ptr requestBytes i =
     (case js_view i ptr (int (length requestBytes)) of
        None \<Rightarrow> (Inl (Thrown ''RangeError''), i)
      | Some (a, _) \<Rightarrow>
          (let i = mem_write i a requestBytes
           in case wasm_adjudicate_at rt from_str to_string blake3 (wasm_u32 ptr) (wasm_u32 (int (length requestBytes))) i of
                None \<Rightarrow> (Inl (Thrown ''RuntimeError: unreachable''), trapped rt i)
              | Some (ok, i) \<Rightarrow>
                  if ok \<noteq> 1 then (Inl (Thrown ''kernel-verify.wasm: request bytes were not valid UTF-8''), i)
                  else case js_view i (js_i32 (wasm_result_ptr i)) (js_i32 (wasm_result_len i)) of
                         None \<Rightarrow> (Inl (Thrown ''RangeError''), i)
                       | Some (b, n) \<Rightarrow>
                           (case Option.bind (utf8_decode (mem_read i b n)) json_parse of
                              None \<Rightarrow> Inl (Thrown ''SyntaxError'')
                            | Some parsed \<Rightarrow> parsed_result parsed, i)))"

definition call_kernel ::
  "Runtime \<Rightarrow> json_reader \<Rightarrow> json_writer \<Rightarrow> hash_fun \<Rightarrow> KernelRequest \<Rightarrow> Instance \<Rightarrow> KernelResult result \<times> Instance" where
  "call_kernel rt from_str to_string blake3 request i =
     (let requestBytes = request_bytes request; n = int (length requestBytes)
      in case wasm_alloc rt (wasm_u32 n) i of
           None \<Rightarrow> (Inl (Thrown ''RuntimeError: unreachable''), trapped rt i)
         | Some (p, i) \<Rightarrow>
             (let ptr = js_i32 p; (r, i) = call_body rt from_str to_string blake3 ptr requestBytes i
              in case wasm_dealloc rt (wasm_u32 ptr) (wasm_u32 n) i of
                   None \<Rightarrow> (Inl (Thrown ''RuntimeError: unreachable''), i)
                 | Some i \<Rightarrow> (r, i)))"

section \<open>The runtime library\<close>

definition blocks_ok :: "block list \<Rightarrow> bool" where
  "blocks_ok bs \<longleftrightarrow> (\<forall>b \<in> set bs. 0 < fst b \<and> 0 < snd b \<and> fst b + snd b \<le> 2 ^ 32) \<and> sorted_wrt apart bs"

locale runtime =
  fixes rt :: Runtime
  assumes malloc_fresh: "blocks_ok live \<Longrightarrow> 0 < n \<Longrightarrow> rt_malloc rt live n = Some p \<Longrightarrow> blocks_ok ((p, n) # live)"
    and capacity: "n \<le> rt_capacity rt n"
    and left_blocks: "blocks_ok live \<Longrightarrow> blocks_ok (rt_left rt live @ live)"

text \<open>The simplest library that does so: a block goes behind all the live ones, strings are grown to fit exactly.\<close>

definition heap_end :: "block list \<Rightarrow> nat" where
  "heap_end live = foldr (\<lambda>b. max (fst b + snd b)) live 1024"

definition bump :: Runtime where
  "bump = \<lparr>rt_malloc = (\<lambda>live n. if heap_end live + n \<le> 2 ^ 32 then Some (heap_end live) else None),
     rt_capacity = (\<lambda>n. n), rt_scratch = (\<lambda>_. 0), rt_left = (\<lambda>_. []), rt_peak = 0\<rparr>"

lemma heap_end_ge: "1024 \<le> heap_end live" "b \<in> set live \<Longrightarrow> fst b + snd b \<le> heap_end live"
  by (induction live) (auto simp: heap_end_def)

interpretation bump: runtime bump
proof
  fix live n p
  assume "blocks_ok live" "0 < n" "rt_malloc bump live n = Some p"
  moreover then have "p = heap_end live" "heap_end live + n \<le> 2 ^ 32" by (auto simp: bump_def split: if_splits)
  ultimately show "blocks_ok ((p, n) # live)"
    using heap_end_ge(1) [of live] heap_end_ge(2) [of _ live] by (auto simp: blocks_ok_def apart_def)
qed (simp_all add: bump_def)


section \<open>Blocks and bytes\<close>

abbreviation result_block :: "Instance \<Rightarrow> block" where
  "result_block i \<equiv> (fst (in_RESULT i), fst (snd (in_RESULT i)))"

text \<open>The heap of an instance: blocks apart from each other, among them the one of \<^verbatim>\<open>RESULT\<close>, if it has one.\<close>

definition heap_ok :: "Instance \<Rightarrow> bool" where
  "heap_ok i \<longleftrightarrow> blocks_ok (in_live i) \<and> wasm_result_len i \<le> snd (result_block i) \<and>
     (if snd (result_block i) = 0 then fst (result_block i) = 1 else result_block i \<in> set (in_live i))"

definition inst_ok :: "Instance \<Rightarrow> bool" where
  "inst_ok i \<longleftrightarrow> heap_ok i \<and> (\<forall>b \<in> set (in_live i). fst b + snd b \<le> in_byteLength i)"

text \<open>Blocks that stay live with their bytes.\<close>

definition keeps :: "block set \<Rightarrow> Instance \<Rightarrow> Instance \<Rightarrow> bool" where
  "keeps S i j \<longleftrightarrow> S \<subseteq> set (in_live j) \<and> (\<forall>b \<in> S. \<forall>a. in_block a b \<longrightarrow> in_memory j a = in_memory i a)"

lemma keeps_trans: "keeps S i j \<Longrightarrow> keeps S j k \<Longrightarrow> keeps S i k"
  by (simp add: keeps_def)

lemma keeps_subset: "keeps S i j \<Longrightarrow> T \<subseteq> S \<Longrightarrow> keeps T i j"
  by (auto simp: keeps_def)

lemma apart_block: "apart b c \<Longrightarrow> in_block a b \<Longrightarrow> \<not> in_block a c"
  by (auto simp: apart_def in_block_def)

lemma blocks_ok_Cons: "blocks_ok (b # bs) \<longleftrightarrow> 0 < fst b \<and> 0 < snd b \<and> fst b + snd b \<le> 2 ^ 32 \<and> list_all (apart b) bs \<and> blocks_ok bs"
  by (auto simp: blocks_ok_def list_all_iff)

lemma blocks_ok_remove1: "blocks_ok bs \<Longrightarrow> blocks_ok (remove1 b bs)"
  by (induction bs) (auto simp: blocks_ok_Cons list_all_iff dest: set_mp [OF set_remove1_subset])

lemma blocks_ok_distinct: "blocks_ok bs \<Longrightarrow> distinct bs"
  by (induction bs) (auto simp: blocks_ok_Cons list_all_iff apart_def)

lemma blocks_ok_apart: "blocks_ok bs \<Longrightarrow> b \<in> set bs \<Longrightarrow> c \<in> set bs \<Longrightarrow> b \<noteq> c \<Longrightarrow> apart b c"
  by (induction bs) (auto simp: blocks_ok_Cons list_all_iff apart_def)

lemma foldl_max_ge: "(a :: nat) \<le> foldl max a xs" "x \<in> set xs \<Longrightarrow> x \<le> foldl max a xs"
proof (induction xs arbitrary: a)
  case (Cons y xs)
  { case 1 show ?case using Cons(1) [of "max a y"] by simp }
  { case 2 then show ?case using Cons(1) [of "max a y"] Cons(2) [of "max a y"] by auto }
qed simp_all

lemma page_ceil_ge: "n \<le> page_ceil n"
  using div_mult_mod_eq [of "n + 65535" 65536] mod_less_divisor [of 65536 "n + 65535"] by (simp add: page_ceil_def)

lemma settle_simps [simp]: "in_live (settle rt i) = in_live i" "in_RESULT (settle rt i) = in_RESULT i"
  by (simp_all add: settle_def)

lemma settle_keeps: "keeps (set (in_live i)) i (settle rt i)"
  by (auto simp: keeps_def settle_def list_ex_iff)

lemma settle_ok: "heap_ok i \<Longrightarrow> inst_ok (settle rt i)"
proof -
  assume ok: "heap_ok i"
  have "fst b + snd b \<le> in_byteLength (settle rt i)" if "b \<in> set (in_live i)" for b
  proof -
    have "page_ceil (fst b + snd b) \<le> in_byteLength (settle rt i)"
      using that by (auto simp: settle_def intro!: foldl_max_ge(2))
    with page_ceil_ge show ?thesis by (rule le_trans)
  qed
  with ok show ?thesis by (auto simp: inst_ok_def heap_ok_def wasm_result_len_def split: if_splits)
qed

lemma mem_write_simps [simp]:
  "in_live (mem_write i a bs) = in_live i" "in_RESULT (mem_write i a bs) = in_RESULT i" "in_byteLength (mem_write i a bs) = in_byteLength i"
  by (simp_all add: mem_write_def)

lemma heap_ok_write [simp]: "heap_ok (mem_write i a bs) = heap_ok i"
  unfolding heap_ok_def wasm_result_len_def by (simp only: mem_write_simps)

lemma mem_write_read: "mem_read (mem_write i a bs) a (length bs) = bs"
  by (rule nth_equalityI) (auto simp: mem_read_def mem_write_def in_block_def)

lemma mem_write_keeps:
  assumes "S \<subseteq> set (in_live i)" "\<And>b. b \<in> S \<Longrightarrow> apart b (p, n)" "length bs \<le> n"
  shows "keeps S i (mem_write i p bs)"
proof -
  have "\<not> in_block a (p, length bs)" if "b \<in> S" "in_block a b" for a b
    using apart_block [OF assms(2) [OF that(1)] that(2)] assms(3) by (auto simp: in_block_def)
  then show ?thesis using assms(1) by (auto simp: keeps_def mem_write_def)
qed

lemma mem_read_kept: "keeps {(p, n)} i j \<Longrightarrow> m \<le> n \<Longrightarrow> mem_read j p m = mem_read i p m"
  by (auto simp: keeps_def mem_read_def in_block_def)

lemma u32_i32: "n < 2 ^ 32 \<Longrightarrow> wasm_u32 (js_i32 n) = n" "n < 2 ^ 32 \<Longrightarrow> wasm_u32 (int n) = n"
  by (auto simp: wasm_u32_def js_i32_def nat_mod_distrib mod_diff_left_eq [symmetric] zmod_int)

lemma request_bytes_nonempty: "request_bytes r \<noteq> []"
proof
  assume "request_bytes r = []"
  then have "utf8_decode [] = Some (stringify (request_json r))" by (metis request_bytes_def utf8_decode_utf8)
  then show False by (simp add: request_json_def stringify_text)
qed

section \<open>One call of each export\<close>

lemma vec_drop_result: "heap_ok i \<Longrightarrow> set (in_live i) \<subseteq> set (in_live j) \<Longrightarrow>
    vec_drop (result_block i) j = Some (j\<lparr>in_live := (if snd (result_block i) = 0 then in_live j else remove1 (result_block i) (in_live j))\<rparr>)"
  by (auto simp: vec_drop_def heap_ok_def split: if_splits)

context runtime
begin

lemma vec_new:
  assumes "heap_ok i" "0 < n" "vec_with_capacity rt n i = Some (p, i')"
  shows "heap_ok i'" "i' = i\<lparr>in_live := (p, n) # in_live i\<rparr>" "blocks_ok ((p, n) # in_live i)" "(p, n) \<noteq> result_block i"
    and "0 < p" "p + n \<le> 2 ^ 32"
proof -
  have m: "rt_malloc rt (in_live i) n = Some p" and i': "i' = i\<lparr>in_live := (p, n) # in_live i\<rparr>"
    using assms(2,3) by (auto simp: vec_with_capacity_def split: if_splits)
  show i'': "i' = i\<lparr>in_live := (p, n) # in_live i\<rparr>" by (rule i')
  show b: "blocks_ok ((p, n) # in_live i)" using assms(1,2) m by (auto simp: heap_ok_def intro: malloc_fresh)
  then show "heap_ok i'" using assms(1) i' by (auto simp: heap_ok_def wasm_result_len_def split: if_splits)
  have "(p, n) \<notin> set (in_live i)" using blocks_ok_distinct [OF b] by simp
  then show "(p, n) \<noteq> result_block i" using assms(1,2) by (auto simp: heap_ok_def split: if_splits)
  show "0 < p" "p + n \<le> 2 ^ 32" using b by (auto simp: blocks_ok_Cons)
qed

lemma wasm_alloc_ok:
  assumes "heap_ok i" "0 < n" "wasm_alloc rt n i = Some (p, i')"
  shows "inst_ok i'" "set (in_live i') = insert (p, n) (set (in_live i))" "in_RESULT i' = in_RESULT i"
    and "keeps (set (in_live i)) i i'" "(p, n) \<notin> set (in_live i)" "(p, n) \<noteq> result_block i" "0 < p" "p + n \<le> 2 ^ 32"
proof -
  obtain j where j: "vec_with_capacity rt n i = Some (p, j)" "i' = settle rt j"
    using assms(3) by (auto simp: wasm_alloc_def)
  note v = vec_new [OF assms(1,2) j(1)]
  show "inst_ok i'" using v(1) j(2) by (simp add: settle_ok)
  show "set (in_live i') = insert (p, n) (set (in_live i))" "in_RESULT i' = in_RESULT i" using j(2) v(2) by simp_all
  have "keeps (set (in_live i)) i j" using v(2) by (auto simp: keeps_def)
  moreover have "keeps (set (in_live i)) j i'"
    unfolding j(2) by (rule keeps_subset [OF settle_keeps]) (use v(2) in auto)
  ultimately show "keeps (set (in_live i)) i i'" by (rule keeps_trans)
  show "(p, n) \<notin> set (in_live i)" using blocks_ok_distinct [OF v(3)] by simp
  show "(p, n) \<noteq> result_block i" "0 < p" "p + n \<le> 2 ^ 32" using v by simp_all
qed

lemma wasm_dealloc_ok:
  assumes "heap_ok i" "(p, n) \<in> set (in_live i)" "(p, n) \<noteq> result_block i"
  shows "\<exists>i'. wasm_dealloc rt p n i = Some i' \<and> inst_ok i' \<and> in_RESULT i' = in_RESULT i \<and>
    set (in_live i') = set (in_live i) - {(p, n)} \<and> keeps (set (in_live i) - {(p, n)}) i i'"
proof -
  let ?j = "i\<lparr>in_live := remove1 (p, n) (in_live i)\<rparr>"
  have b: "blocks_ok (in_live i)" using assms(1) by (simp add: heap_ok_def)
  then have pos: "0 < p" "0 < n" using assms(2) by (auto simp: blocks_ok_def)
  have live: "set (in_live ?j) = set (in_live i) - {(p, n)}" using blocks_ok_distinct [OF b] by (simp add: set_remove1_eq)
  have "heap_ok ?j" using assms(1,3) blocks_ok_remove1 [OF b] live
    by (auto simp: heap_ok_def wasm_result_len_def split: if_splits)
  moreover have "keeps (set (in_live ?j)) i ?j" by (simp add: keeps_def)
  then have "keeps (set (in_live ?j)) i (settle rt ?j)" using settle_keeps by (rule keeps_trans)
  ultimately show ?thesis
    using assms(2) pos live by (intro exI [of _ "settle rt ?j"]) (auto simp: wasm_dealloc_def vec_drop_def settle_ok)
qed

text \<open>What a new result leaves of the heap: the other blocks, and its own.\<close>

lemma set_RESULT_ok:
  assumes "heap_ok i" "response \<noteq> []" "set_RESULT rt response i = Some i'"
  shows "inst_ok i'" "result_bytes i' = response" "wasm_result_len i' = length response"
    "set (in_live i') = insert (result_block i') (set (in_live i) - {result_block i})"
    "keeps (set (in_live i) - {result_block i}) i i'" "result_block i' \<notin> set (in_live i)" "0 < snd (result_block i')"
proof -
  let ?cap = "rt_capacity rt (length response)"
  have cap: "0 < ?cap" "length response \<le> ?cap" using capacity [of "length response"] assms(2) by (cases response; simp)+
  obtain p j where j: "vec_with_capacity rt ?cap i = Some (p, j)"
    using assms(3) by (auto simp: set_RESULT_def Let_def bind_eq_Some_conv)
  note v = vec_new [OF assms(1) cap(1) j]
  let ?w = "mem_write j p response"
  define live where "live = (if snd (result_block i) = 0 then in_live ?w else remove1 (result_block i) (in_live ?w))"
  let ?k = "?w\<lparr>in_live := live, in_RESULT := (p, ?cap, length response)\<rparr>"
  have "set (in_live i) \<subseteq> set (in_live ?w)" using v(2) by auto
  note drop = vec_drop_result [OF assms(1) this]
  have i': "i' = settle rt ?k"
    using assms(3) unfolding set_RESULT_def Let_def j split_beta bind.bind_lunit prod.sel drop live_def by simp
  have fresh: "(p, ?cap) \<notin> set (in_live i)" using blocks_ok_distinct [OF v(3)] by simp
  have w: "in_live ?w = (p, ?cap) # in_live i" using v(2) by simp
  have live: "set live = insert (p, ?cap) (set (in_live i) - {result_block i})"
  proof (cases "snd (result_block i) = 0")
    case True
    then have "result_block i \<notin> set (in_live i)" using assms(1) by (auto simp: heap_ok_def blocks_ok_def)
    then show ?thesis using True unfolding live_def w by simp
  next
    case False
    then show ?thesis using v(4) blocks_ok_distinct [OF v(3)] unfolding live_def w by (auto simp: set_remove1_eq)
  qed
  have "blocks_ok live" unfolding live_def w by (simp only: v(3) blocks_ok_remove1 [OF v(3)] if_cancel simp_thms split: if_split)
  then have ok: "heap_ok ?k" using live cap by (simp add: heap_ok_def wasm_result_len_def)
  then show "inst_ok i'" unfolding i' by (rule settle_ok)
  have "keeps {(p, ?cap)} ?k i'" unfolding i' by (rule keeps_subset [OF settle_keeps]) (use live in auto)
  from mem_read_kept [OF this cap(2)] have "mem_read i' p (length response) = mem_read ?w p (length response)"
    by (simp add: mem_read_def)
  then show "result_bytes i' = response" by (simp add: result_bytes_def i' mem_write_read)
  show "wasm_result_len i' = length response" "0 < snd (result_block i')" using cap by (simp_all add: i' wasm_result_len_def)
  show "set (in_live i') = insert (result_block i') (set (in_live i) - {result_block i})" using live by (simp add: i')
  show "result_block i' \<notin> set (in_live i)" using fresh by (simp add: i')
  have "keeps (set (in_live i) - {result_block i}) i ?k"
  proof -
    have "keeps (set (in_live i)) j ?w"
      by (rule mem_write_keeps [OF _ _ cap(2)]) (use v(2,3) in \<open>auto simp: blocks_ok_Cons list_all_iff apart_def\<close>)
    then show ?thesis using live v(2) by (auto simp: keeps_def)
  qed
  moreover have "keeps (set (in_live i) - {result_block i}) ?k i'"
    unfolding i' by (rule keeps_subset [OF settle_keeps]) (use live in auto)
  ultimately show "keeps (set (in_live i) - {result_block i}) i i'" by (rule keeps_trans)
qed

lemma trapped_ok:
  assumes "heap_ok i"
  shows "inst_ok (trapped rt i)" "keeps (set (in_live i)) i (trapped rt i)" "in_RESULT (trapped rt i) = in_RESULT i"
proof -
  let ?j = "i\<lparr>in_live := rt_left rt (in_live i) @ in_live i\<rparr>"
  have "heap_ok ?j" using assms left_blocks [of "in_live i"] by (auto simp: heap_ok_def wasm_result_len_def split: if_splits)
  then show "inst_ok (trapped rt i)" unfolding trapped_def by (rule settle_ok)
  have "keeps (set (in_live i)) i ?j" by (auto simp: keeps_def)
  moreover have "keeps (set (in_live i)) ?j (trapped rt i)"
    unfolding trapped_def by (rule keeps_subset [OF settle_keeps]) auto
  ultimately show "keeps (set (in_live i)) i (trapped rt i)" by (rule keeps_trans)
  show "in_RESULT (trapped rt i) = in_RESULT i" by (simp add: trapped_def)
qed

lemma wasm_adjudicate_at_ok:
  assumes "heap_ok i" "wasm_adjudicate from_str to_string blake3 (mem_read i p n) (result_bytes i) = Some (code, response)"
    and "response \<noteq> []"
  shows "wasm_adjudicate_at rt from_str to_string blake3 p n i = map_option (Pair code) (set_RESULT rt response i)"
  using assms by (simp add: wasm_adjudicate_at_def)

end

section \<open>A whole call\<close>

text \<open>Whether the module finds a block of a size, below 2 GiB, where pointers are not negative in JavaScript.\<close>

definition room :: "Runtime \<Rightarrow> block list \<Rightarrow> nat \<Rightarrow> bool" where
  "room rt live n \<longleftrightarrow> n < 2 ^ 31 \<and> (case rt_malloc rt live n of None \<Rightarrow> False | Some p \<Rightarrow> p + n \<le> 2 ^ 31)"

lemma room_vec: "room rt (in_live i) n \<Longrightarrow> 0 < n \<Longrightarrow>
    \<exists>p. rt_malloc rt (in_live i) n = Some p \<and> p + n \<le> 2 ^ 31 \<and> vec_with_capacity rt n i = Some (p, i\<lparr>in_live := (p, n) # in_live i\<rparr>)"
  by (auto simp: room_def vec_with_capacity_def split: option.splits)

lemma utf8_Nil: "utf8 s = [] \<longleftrightarrow> s = []"
  using utf8_decode_utf8 [of s] by (auto simp: utf8_def simp del: utf8_decode_utf8)

lemma js_view_low: "p + n \<le> in_byteLength i \<Longrightarrow> p < 2 ^ 31 \<Longrightarrow> js_view i (js_i32 p) (int n) = Some (p, n)"
  by (auto simp: js_view_def js_i32_def)

context serde
begin

lemma kernel_response:
  "\<exists>out. kernel_wasm from_str to_string blake3 (request_bytes r) = Some out \<and> out \<noteq> [] \<and>
     wasm_adjudicate from_str to_string blake3 (request_bytes r) res = Some (1, out)"
proof -
  obtain doc where doc: "adjudicate_json from_str to_string blake3 (stringify (request_json r)) = Some (json_text doc)"
    "parsed_result (map_nums js_number doc) = Inr (kernel_outcome blake3 (from_str (stringify (request_json r))))"
    using adjudicate_json_eq by blast
  have "json_text doc \<noteq> []" using doc(2) by (cases doc) (simp_all add: parsed_result_def js_number_def)
  with doc(1) show ?thesis by (simp add: kernel_wasm_def wasm_adjudicate_def request_bytes_def utf8_Nil)
qed

end

locale wasm_kernel = runtime rt + serde from_str to_string
  for rt :: Runtime and from_str :: json_reader and to_string :: json_writer
begin

text \<open>What the body of the call keeps, whether it ends with an answer or with an error.\<close>

lemma call_body_keeps:
  assumes "inst_ok i" "(p, n) \<in> set (in_live i)" "(p, n) \<noteq> result_block i" "n = length (request_bytes r)" "n < 2 ^ 31"
    and "call_body rt from_str to_string blake3 (js_i32 p) (request_bytes r) i = (answer, i')"
  shows "inst_ok i' \<and> (p, n) \<in> set (in_live i') \<and> (p, n) \<noteq> result_block i' \<and>
    keeps (set (in_live i) - {(p, n), result_block i}) i i'"
proof (cases "js_view i (js_i32 p) (int n)")
  case None
  then have "i' = i" using assms(4,6) by (auto simp: call_body_def)
  then show ?thesis using assms(1-3) by (auto simp: keeps_def)
next
  case (Some v)
  note view = Some
  have heap: "heap_ok i" and p: "p < 2 ^ 32" using assms(1,2) by (auto simp: inst_ok_def heap_ok_def blocks_ok_def)
  have low: "js_i32 p = int p" using Some p by (auto simp: js_view_def js_i32_def split: if_splits)
  then have v: "v = (p, n)" using Some by (auto simp: js_view_def split: if_splits)
  let ?S = "set (in_live i) - {(p, n), result_block i}" and ?w = "mem_write i p (request_bytes r)"
  have apart: "apart b (p, n)" if "b \<in> ?S" for b
    using heap that assms(2) by (intro blocks_ok_apart [of "in_live i"]) (auto simp: heap_ok_def)
  have w: "heap_ok ?w" using heap by simp
  have kw: "keeps ?S i ?w" by (rule mem_write_keeps [OF _ apart]) (use assms(4) in auto)
  obtain out where out: "out \<noteq> []" "wasm_adjudicate from_str to_string blake3 (mem_read ?w p n) (result_bytes ?w) = Some (1, out)"
    using kernel_response mem_write_read assms(4) by metis
  have at: "wasm_adjudicate_at rt from_str to_string blake3 p n ?w = map_option (Pair 1) (set_RESULT rt out ?w)"
    by (rule wasm_adjudicate_at_ok [OF w out(2,1)])
  have u: "wasm_u32 (js_i32 p) = p" "wasm_u32 (int n) = n" using p assms(5) by (simp_all add: u32_i32)
  show ?thesis
  proof (cases "set_RESULT rt out ?w")
    case None
    then have "i' = trapped rt ?w" using assms(6) by (simp add: call_body_def view v Let_def u at assms(4) [symmetric])
    moreover note t = trapped_ok [OF w]
    moreover have "(p, n) \<in> set (in_live (trapped rt ?w))" using t(2) assms(2) by (auto simp: keeps_def)
    moreover have "keeps ?S i (trapped rt ?w)" using kw keeps_subset [OF t(2), of ?S] by (auto intro: keeps_trans)
    ultimately show ?thesis using assms(3) by simp
  next
    case (Some j)
    then have "i' = j" using assms(6)
      by (auto simp: call_body_def view v Let_def u at assms(4) [symmetric] split: option.splits)
    moreover note j = set_RESULT_ok [OF w out(1) Some]
    moreover have "keeps ?S i j" using kw keeps_subset [OF j(5), of ?S] by (auto intro: keeps_trans)
    ultimately show ?thesis using assms(2,3) j by auto
  qed
qed

text \<open>With enough memory, the body returns what the pure function does.\<close>

lemma call_body_answers:
  assumes "inst_ok i" "(p, n) \<in> set (in_live i)" "n = length (request_bytes r)" "p + n \<le> 2 ^ 31" "0 < n"
    and "kernel_wasm from_str to_string blake3 (request_bytes r) = Some out" "room rt (in_live i) (rt_capacity rt (length out))"
  shows "\<exists>i'. call_body rt from_str to_string blake3 (js_i32 p) (request_bytes r) i =
      (run_kernel (kernel_wasm from_str to_string blake3) r, i') \<and>
    set (in_live i') = insert (result_block i') (set (in_live i) - {result_block i})"
proof -
  let ?w = "mem_write i p (request_bytes r)" and ?cap = "rt_capacity rt (length out)"
  have heap: "heap_ok ?w" and fits: "p + n \<le> in_byteLength i" and p: "p < 2 ^ 31"
    using assms(1,2,4,5) by (auto simp: inst_ok_def)
  have out: "out \<noteq> []" "wasm_adjudicate from_str to_string blake3 (mem_read ?w p n) (result_bytes ?w) = Some (1, out)"
    using kernel_response [of blake3 r] assms(3,6) mem_write_read by (metis option.inject)+
  have cap: "0 < ?cap" "length out \<le> ?cap" using capacity [of "length out"] out(1) by (cases out; simp)+
  obtain q where q: "q + ?cap \<le> 2 ^ 31" "vec_with_capacity rt ?cap ?w = Some (q, ?w\<lparr>in_live := (q, ?cap) # in_live ?w\<rparr>)"
    using room_vec [of rt ?w ?cap] assms(7) cap(1) by auto
  have "set (in_live ?w) \<subseteq> set (in_live (mem_write (?w\<lparr>in_live := (q, ?cap) # in_live ?w\<rparr>) q out))" by auto
  note drop = vec_drop_result [OF heap this]
  obtain j where j: "set_RESULT rt out ?w = Some j" and res: "in_RESULT j = (q, ?cap, length out)"
    unfolding set_RESULT_def Let_def q(2) split_beta bind.bind_lunit prod.sel drop by simp
  note ok = set_RESULT_ok [OF heap out(1) j]
  have "q + ?cap \<le> in_byteLength j" using ok(1,4) res by (auto simp: inst_ok_def)
  moreover have "length out < 2 ^ 31" using cap(2) assms(7) by (simp add: room_def)
  ultimately have view: "js_view j (js_i32 (wasm_result_ptr j)) (js_i32 (wasm_result_len j)) = Some (q, length out)"
    using js_view_low [of q "length out" j] q(1) cap res by (simp add: wasm_result_ptr_def wasm_result_len_def js_i32_def)
  have read: "mem_read j q (length out) = out" using ok(2) res by (simp add: result_bytes_def)
  have u: "wasm_u32 (js_i32 p) = p" "wasm_u32 (int n) = n" using p assms(4) by (simp_all add: u32_i32)
  have "call_body rt from_str to_string blake3 (js_i32 p) (request_bytes r) i =
      (run_kernel (kernel_wasm from_str to_string blake3) r, j)"
    using js_view_low [OF fits p] wasm_adjudicate_at_ok [OF heap out(2,1)] j view read
    by (simp add: call_body_def run_kernel_def assms(6) Let_def u assms(3) [symmetric])
  with ok(4) show ?thesis by auto
qed

end

interpretation exact_wasm: wasm_kernel bump exact_from_str exact_to_string
  by unfold_locales

section \<open>Properties\<close>

text \<open>The instances one page load or one server process meets: a fresh one, then the same one after each of its calls.\<close>

inductive served :: "Runtime \<Rightarrow> json_reader \<Rightarrow> json_writer \<Rightarrow> hash_fun \<Rightarrow> Instance \<Rightarrow> bool" for rt from_str to_string blake3 where
  served_fresh: "served rt from_str to_string blake3 fresh_instance"
| served_call: "served rt from_str to_string blake3 i \<Longrightarrow> length (request_bytes r) < 2 ^ 31 \<Longrightarrow>
    call_kernel rt from_str to_string blake3 r i = (answer, i') \<Longrightarrow> served rt from_str to_string blake3 i'"

context wasm_kernel
begin

lemma call_kernel_keeps:
  assumes "inst_ok i" "length (request_bytes r) < 2 ^ 31" "call_kernel rt from_str to_string blake3 r i = (answer, i')"
  shows "inst_ok i' \<and> keeps (set (in_live i) - {result_block i}) i i'"
proof -
  let ?n = "length (request_bytes r)"
  have heap: "heap_ok i" and n: "0 < ?n" and u: "wasm_u32 (int ?n) = ?n"
    using assms(1,2) request_bytes_nonempty by (auto simp: inst_ok_def u32_i32)
  show ?thesis
  proof (cases "wasm_alloc rt ?n i")
    case None
    then have "i' = trapped rt i" using assms(3) by (simp add: call_kernel_def Let_def u)
    with trapped_ok [OF heap] show ?thesis by (auto intro: keeps_subset)
  next
    case (Some pj)
    obtain p j where pj: "pj = (p, j)" by (cases pj)
    note a = wasm_alloc_ok [OF heap n Some [unfolded pj]]
    obtain ans k where k: "call_body rt from_str to_string blake3 (js_i32 p) (request_bytes r) j = (ans, k)" by fastforce
    have b: "inst_ok k" "(p, ?n) \<in> set (in_live k)" "(p, ?n) \<noteq> result_block k"
      "keeps (set (in_live j) - {(p, ?n), result_block j}) j k"
      using call_body_keeps [OF a(1) _ _ refl assms(2) k] a(2,3,6) by auto
    obtain i'' where d: "wasm_dealloc rt p ?n k = Some i''" "inst_ok i''" "keeps (set (in_live k) - {(p, ?n)}) k i''"
      using wasm_dealloc_ok [OF _ b(2,3)] b(1) by (auto simp: inst_ok_def)
    have "wasm_u32 (js_i32 p) = p" by (rule u32_i32) (use a(8) n in linarith)
    then have i': "i' = i''" using assms(3) by (simp add: call_kernel_def Let_def u Some pj k d(1))
    let ?S = "set (in_live i) - {result_block i}"
    have "keeps ?S i j" using a(4) by (rule keeps_subset) auto
    moreover have s: "keeps ?S j k" using b(4) by (rule keeps_subset) (use a in auto)
    moreover have "keeps ?S k i''" using d(3) by (rule keeps_subset) (use a(5) s in \<open>auto simp: keeps_def\<close>)
    ultimately show ?thesis using d(2) i' by (auto intro: keeps_trans)
  qed
qed

lemma served_ok: "served rt from_str to_string blake3 i \<Longrightarrow> inst_ok i"
proof (induction rule: served.induct)
  case served_fresh
  show ?case by (simp add: fresh_instance_def inst_ok_def heap_ok_def blocks_ok_def wasm_result_len_def)
qed (auto dest: call_kernel_keeps)

lemma call_kernel_answers:
  assumes "inst_ok i" "kernel_wasm from_str to_string blake3 (request_bytes r) = Some out"
    and "rt_malloc rt (in_live i) (length (request_bytes r)) = Some p" "room rt (in_live i) (length (request_bytes r))"
    and "room rt ((p, length (request_bytes r)) # in_live i) (rt_capacity rt (length out))"
  shows "\<exists>i'. call_kernel rt from_str to_string blake3 r i = (run_kernel (kernel_wasm from_str to_string blake3) r, i') \<and>
    set (in_live i') = insert (result_block i') (set (in_live i) - {result_block i})"
proof -
  let ?n = "length (request_bytes r)"
  have heap: "heap_ok i" and n: "0 < ?n" "?n < 2 ^ 31" "p + ?n \<le> 2 ^ 31" and u: "wasm_u32 (int ?n) = ?n"
    using assms(1,3,4) request_bytes_nonempty by (auto simp: inst_ok_def room_def u32_i32)
  let ?j = "settle rt (i\<lparr>in_live := (p, ?n) # in_live i\<rparr>)"
  have alloc: "wasm_alloc rt ?n i = Some (p, ?j)"
    using n assms(3) by (simp add: wasm_alloc_def vec_with_capacity_def)
  note a = wasm_alloc_ok [OF heap n(1) alloc]
  obtain k where k: "call_body rt from_str to_string blake3 (js_i32 p) (request_bytes r) ?j =
      (run_kernel (kernel_wasm from_str to_string blake3) r, k)"
    "set (in_live k) = insert (result_block k) (set (in_live ?j) - {result_block ?j})"
    using call_body_answers [OF a(1) _ refl n(3) n(1) assms(2)] assms(5) by auto
  have b: "inst_ok k" "(p, ?n) \<in> set (in_live k)" "(p, ?n) \<noteq> result_block k"
    using call_body_keeps [OF a(1) _ _ refl n(2) k(1)] a(2,3,6) by auto
  obtain i' where d: "wasm_dealloc rt p ?n k = Some i'" "set (in_live i') = set (in_live k) - {(p, ?n)}" "in_RESULT i' = in_RESULT k"
    using wasm_dealloc_ok [OF _ b(2,3)] b(1) by (auto simp: inst_ok_def)
  have "call_kernel rt from_str to_string blake3 r i = (run_kernel (kernel_wasm from_str to_string blake3) r, i')"
    using u32_i32(1) [of p] n by (simp add: call_kernel_def Let_def u alloc k(1) d(1))
  moreover have "set (in_live i') = insert (result_block i') (set (in_live i) - {result_block i})"
    unfolding d(2,3) k(2) a(2,3) using a(5) b(3) by blast
  ultimately show ?thesis by blast
qed

end

text \<open>Whether one call finds its memory: a block for the request, and beside it one for the response.\<close>

definition memory_suffices :: "Runtime \<Rightarrow> block list \<Rightarrow> bytes \<Rightarrow> bytes \<Rightarrow> bool" where
  "memory_suffices rt live request response \<longleftrightarrow> room rt live (length request) \<and>
     (case rt_malloc rt live (length request) of
        None \<Rightarrow> False
      | Some p \<Rightarrow> room rt ((p, length request) # live) (rt_capacity rt (length response)))"

text \<open>
  C5: a loaded module is a pure function. After any calls on one instance, the next one returns, if its memory suffices,
  what \<^const>\<open>run_kernel\<close> makes of the kernel without any memory, and leaves of its own only the result buffer, in place of the
  previous one: the request is freed. Whether it ends with an answer, an exception or a trap, the heap stays well formed
  and the other blocks keep their bytes; without a block for the request the call throws.
\<close>

theorem kernel_calls_pure:
  assumes "runtime rt" "serde from_str to_string" "served rt from_str to_string blake3 i"
    and "length (request_bytes r) < 2 ^ 31" "call_kernel rt from_str to_string blake3 r i = (answer, i')"
  shows "inst_ok i' \<and> keeps (set (in_live i) - {result_block i}) i i' \<and>
    (memory_suffices rt (in_live i) (request_bytes r) (the (kernel_wasm from_str to_string blake3 (request_bytes r))) \<longrightarrow>
       answer = run_kernel (kernel_wasm from_str to_string blake3) r \<and>
       set (in_live i') = insert (result_block i') (set (in_live i) - {result_block i})) \<and>
    (rt_malloc rt (in_live i) (length (request_bytes r)) = None \<longrightarrow> answer = Inl (Thrown ''RuntimeError: unreachable''))"
proof -
  have loc: "wasm_kernel rt from_str to_string" using assms(1,2) by (simp add: wasm_kernel_def)
  have ok: "inst_ok i" using assms(3) by (rule wasm_kernel.served_ok [OF loc])
  obtain out where out: "kernel_wasm from_str to_string blake3 (request_bytes r) = Some out"
    using serde.kernel_response [OF assms(2)] by blast
  have "wasm_u32 (int (length (request_bytes r))) = length (request_bytes r)" using assms(4) by (simp add: u32_i32)
  then have "answer = Inl (Thrown ''RuntimeError: unreachable'')" if "rt_malloc rt (in_live i) (length (request_bytes r)) = None"
    using that assms(5) request_bytes_nonempty
    by (auto simp: call_kernel_def Let_def wasm_alloc_def vec_with_capacity_def split: if_splits)
  then show ?thesis
    using wasm_kernel.call_kernel_keeps [OF loc ok assms(4,5)] wasm_kernel.call_kernel_answers [OF loc ok out] assms(5)
    by (auto simp: memory_suffices_def out split: option.splits)
qed

definition empty_request :: KernelRequest where
  "empty_request = \<lparr>kr_kernel_version = [], kr_policy = \<lparr>pb_policy_version = [], pb_predicate_weights = [],
     pb_chain_multipliers = [], pb_severity_thresholds = []\<rparr>, kr_claims = []\<rparr>"

lemma empty_request_length: "length (request_bytes empty_request) < 1000"
  unfolding empty_request_def by code_simp

definition empty_answer :: string where
  "empty_answer = ''building policy: InvalidPolicyError('' @ debug_str ''severity_thresholds must not be empty'' @ '')''"

lemma empty_answer_length: "length (utf8 (err_json exact_to_string empty_answer)) < 1000"
  unfolding empty_answer_def by code_simp

lemma empty_request_answer:
  "kernel_wasm exact_from_str exact_to_string blake3 (request_bytes empty_request) = Some (utf8 (err_json exact_to_string empty_answer))"
  "run_kernel (kernel_wasm exact_from_str exact_to_string blake3) empty_request = Inr (KernelError empty_answer)"
proof -
  let ?p = "\<lparr>pb_policy_version = [], pb_predicate_weights = [], pb_chain_multipliers = [], pb_severity_thresholds = []\<rparr>"
  have "policy_fits ?p" by (simp add: policy_fits_def)
  from exact.reads_claims(1) [OF this, of "[]" "[]"]
  have r: "exact_from_str (stringify (request_json empty_request)) =
      Inr \<lparr>ri_kernel_version = [], ri_policy = policy_input ?p, ri_claims = []\<rparr>" by (simp add: empty_request_def)
  have b: "build_policy (policy_input ?p) = Inl (''InvalidPolicyError('' @ debug_str ''severity_thresholds must not be empty'' @ '')'')"
    by (simp add: build_policy_def policy_input_def PolicyBundle_new_def)
  show "kernel_wasm exact_from_str exact_to_string blake3 (request_bytes empty_request) = Some (utf8 (err_json exact_to_string empty_answer))"
    by (simp add: kernel_wasm_def wasm_adjudicate_def request_bytes_def adjudicate_json_def r b empty_answer_def)
  show "run_kernel (kernel_wasm exact_from_str exact_to_string blake3) empty_request = Inr (KernelError empty_answer)"
    by (simp add: exact.run_kernel_wasm kernel_outcome_def r b empty_answer_def)
qed

theorem kernel_calls_pure_witness:
  "\<exists>i'. call_kernel bump exact_from_str exact_to_string sample_hash empty_request fresh_instance = (Inr (KernelError empty_answer), i') \<and>
     set (in_live i') = {result_block i'}"
proof -
  obtain answer i' where c: "call_kernel bump exact_from_str exact_to_string sample_hash empty_request fresh_instance = (answer, i')"
    by fastforce
  have "memory_suffices bump (in_live fresh_instance) (request_bytes empty_request) (utf8 (err_json exact_to_string empty_answer))"
    using empty_request_length empty_answer_length
    by (simp add: memory_suffices_def room_def bump_def heap_end_def fresh_instance_def)
  moreover have "length (request_bytes empty_request) < 2 ^ 31" using empty_request_length by simp
  moreover have "in_live fresh_instance = []" by (simp add: fresh_instance_def)
  ultimately have "answer = Inr (KernelError empty_answer) \<and> set (in_live i') = {result_block i'}"
    using kernel_calls_pure [OF bump.runtime_axioms exact.serde_axioms served_fresh _ c] by (simp add: empty_request_answer)
  with c show ?thesis by blast
qed

end
