(* ===== verification/Drift.thy ===== *)
theory Drift
  imports Ledger
begin

text \<open>
  \<^verbatim>\<open>web/src/lib/data/drift.ts\<close>: retro-verdict drift. The claims of a sealed investigation are
  adjudicated again under a policy in which one predicate is repriced; a drift is reported only when
  the verdict changes and the unchanged policy still reproduces the sealed hash.
\<close>

section \<open>Operations\<close>

definition INDICATOR_CORPUS_VERSION :: string where
  "INDICATOR_CORPUS_VERSION = ''corpus-2026.09.3''"

definition INDICATOR_CORPUS_HASH :: "hash_fun \<Rightarrow> string" where
  "INDICATOR_CORPUS_HASH blake3 = bytesToHex (blake3 (utf8 INDICATOR_CORPUS_VERSION))"

definition reprice :: "string \<Rightarrow> PredicateWeight \<Rightarrow> PolicyBundle \<Rightarrow> PolicyBundle" where
  "reprice predicate existing basePolicy = basePolicy\<lparr>pb_predicate_weights :=
     AList.update predicate (existing\<lparr>pw_weight := pw_weight existing + 5000\<rparr>) (pb_predicate_weights basePolicy)\<rparr>"

text \<open>The sealed verdict the sweep compares with: severity, disposition, hash.\<close>

type_synonym old_verdict = "string \<times> string \<times> string"

definition drift_request :: "string \<Rightarrow> PolicyBundle \<Rightarrow> LedgerClaim list \<Rightarrow> KernelRequest" where
  "drift_request version policy claims =
     \<lparr>kr_kernel_version = version, kr_policy = policy, kr_claims = map ledger_claim_json claims\<rparr>"

definition drift_record ::
  "hash_fun \<Rightarrow> (nat \<Rightarrow> int) \<Rightarrow> string \<Rightarrow> string \<Rightarrow> string \<Rightarrow> PredicateWeight \<Rightarrow> old_verdict \<Rightarrow>
   KernelVerdict \<Rightarrow> KernelVerdict \<Rightarrow> nat \<Rightarrow> string \<Rightarrow> VerdictDrift" where
  "drift_record blake3 clock caseId tenantId predicate existing old oldv newv repriceIndex responsible = \<lparr>
     vd_case_id = caseId,
     vd_tenant_id = tenantId,
     vd_old_severity = fst old,
     vd_new_severity = kv_severity newv,
     vd_old_disposition = fst (snd old),
     vd_new_disposition = kv_disposition newv,
     vd_old_verdict_hash = snd (snd old),
     vd_new_verdict_hash = kv_verdict_hash newv,
     vd_old_contributing_claims = kv_contributing_claims oldv,
     vd_new_contributing_claims = kv_contributing_claims newv,
     vd_responsible_claim_ids = [responsible],
     vd_policy_deltas = [\<lparr>pd_predicate = predicate, pd_old_weight = pw_weight existing,
       pd_new_weight = pw_weight existing + 5000\<rparr>],
     vd_indicator_corpus_version = INDICATOR_CORPUS_VERSION,
     vd_indicator_corpus_hash = INDICATOR_CORPUS_HASH blake3,
     vd_flipped_at_ms = clock 0 - int (repriceIndex mod 6) * 86400000,
     vd_closed_at_ms = clock 1 - (int (repriceIndex mod 20) + 10) * 86400000\<rparr>"

definition computeDriftForCase ::
  "hash_fun \<Rightarrow> kernel_call \<Rightarrow> (nat \<Rightarrow> int) \<Rightarrow> string \<Rightarrow> string \<Rightarrow> string \<Rightarrow> LedgerClaim list \<Rightarrow>
   PolicyBundle \<Rightarrow> old_verdict \<Rightarrow> nat \<Rightarrow> VerdictDrift option result" where
  "computeDriftForCase blake3 k clock caseId tenantId kernelVersion claims basePolicy old repriceIndex =
     (case js_index claims (int repriceIndex) of
        None \<Rightarrow> Inl TypeError
      | Some target \<Rightarrow>
          (case map_of (pb_predicate_weights basePolicy) (lc_predicate target) of
             None \<Rightarrow> Inr None
           | Some existing \<Rightarrow>
               (case (k (drift_request kernelVersion basePolicy claims),
                      k (drift_request kernelVersion (reprice (lc_predicate target) existing basePolicy) claims)) of
                  (Inl e, _) \<Rightarrow> Inl e
                | (_, Inl e) \<Rightarrow> Inl e
                | (Inr (KernelOk oldv), Inr (KernelOk newv)) \<Rightarrow>
                    if kv_severity newv = fst old \<and> kv_disposition newv = fst (snd old) then Inr None
                    else if kv_verdict_hash oldv \<noteq> snd (snd old) then Inr None
                    else (case js_index (kv_submitted_claim_ids newv) (int repriceIndex) of
                            None \<Rightarrow> Inl PickUndefined
                          | Some responsible \<Rightarrow> Inr (Some (drift_record blake3 clock caseId tenantId
                              (lc_predicate target) existing old oldv newv repriceIndex responsible)))
                | _ \<Rightarrow> Inr None)))"

text \<open>One round of the sweep, for the manifest at position \<open>i\<close>.\<close>

definition drift_at ::
  "hash_fun \<Rightarrow> kernel_call \<Rightarrow> (nat \<Rightarrow> int) \<Rightarrow> LedgerData \<Rightarrow> nat \<Rightarrow> SealedManifest \<Rightarrow> VerdictDrift option result" where
  "drift_at blake3 k clock ledger i sealed =
     (let m = sm_manifest sealed
      in case map_of (lg_caseData ledger) (m_investigation_id m) of
           None \<Rightarrow> Inr None
         | Some c \<Rightarrow>
             if ld_claims c = [] then Inr None
             else computeDriftForCase blake3 k clock (m_case_id m) (m_tenant_id m) (m_kernel_version m)
               (ld_claims c) (lg_policy ledger)
               (m_verdict_severity m, m_verdict_disposition m, m_verdict_hash m)
               (i mod length (ld_claims c)))"

text \<open>\<^verbatim>\<open>for (let i = 0; i < manifests.length; i += 3)\<close>\<close>

fun every_third :: "nat \<Rightarrow> 'a list \<Rightarrow> (nat \<times> 'a) list" where
  "every_third i [] = []"
| "every_third i (x # xs) = (i, x) # every_third (i + 3) (drop 2 xs)"

fun drift_loop ::
  "hash_fun \<Rightarrow> kernel_call \<Rightarrow> (nat \<Rightarrow> int) \<Rightarrow> LedgerData \<Rightarrow> (nat \<times> SealedManifest) list \<Rightarrow> VerdictDrift list result" where
  "drift_loop blake3 k clock ledger [] = Inr []"
| "drift_loop blake3 k clock ledger ((i, sealed) # rest) =
     (case drift_at blake3 k (\<lambda>n. clock (2 * i + n)) ledger i sealed of
        Inl e \<Rightarrow> Inl e
      | Inr d \<Rightarrow> (case drift_loop blake3 k clock ledger rest of
            Inl e \<Rightarrow> Inl e
          | Inr ds \<Rightarrow> Inr (case d of None \<Rightarrow> ds | Some x \<Rightarrow> x # ds)))"

definition buildDrift :: "hash_fun \<Rightarrow> kernel_call \<Rightarrow> (nat \<Rightarrow> int) \<Rightarrow> LedgerData \<Rightarrow> VerdictDrift list result" where
  "buildDrift blake3 k clock ledger =
     (case drift_loop blake3 k clock ledger (every_third 0 (lg_manifests ledger)) of
        Inl e \<Rightarrow> Inl e
      | Inr ds \<Rightarrow> Inr (sort_key (\<lambda>d. - vd_flipped_at_ms d) ds))"

definition getDriftData ::
  "hash_fun \<Rightarrow> kernel_call \<Rightarrow> (nat \<Rightarrow> int) \<Rightarrow> LedgerData result \<Rightarrow> VerdictDrift list result option \<Rightarrow>
   VerdictDrift list result \<times> VerdictDrift list result option" where
  "getDriftData blake3 k clock ledger global =
     (case global of
        Some p \<Rightarrow> (p, global)
      | None \<Rightarrow>
          (let p = (case ledger of Inl e \<Rightarrow> Inl e | Inr l \<Rightarrow> buildDrift blake3 k clock l) in (p, Some p)))"

section \<open>What a reported drift says\<close>

text \<open>
  The kernel answers every request, and a verdict lists one identifier per claim of the request;
  whether it accepts is left open.
\<close>

definition kernel_answers :: "kernel_call \<Rightarrow> bool" where
  "kernel_answers k \<longleftrightarrow> (\<forall>r. posted r \<longrightarrow> (case k r of
      Inl _ \<Rightarrow> False
    | Inr (KernelError _) \<Rightarrow> True
    | Inr (KernelOk v) \<Rightarrow> length (kv_submitted_claim_ids v) = length (kr_claims r)))"

definition genuine_drift :: "kernel_call \<Rightarrow> LedgerData \<Rightarrow> VerdictDrift \<Rightarrow> bool" where
  "genuine_drift k ledger d \<longleftrightarrow>
     (\<exists>sealed \<in> set (lg_manifests ledger). \<exists>c j w oldv newv.
        let m = sm_manifest sealed; p = lc_predicate (ld_claims c ! j) in
        map_of (lg_caseData ledger) (m_investigation_id m) = Some c \<and> j < length (ld_claims c) \<and>
        map_of (pb_predicate_weights (lg_policy ledger)) p = Some w \<and>
        k (drift_request (m_kernel_version m) (lg_policy ledger) (ld_claims c)) = Inr (KernelOk oldv) \<and>
        k (drift_request (m_kernel_version m) (reprice p w (lg_policy ledger)) (ld_claims c)) = Inr (KernelOk newv) \<and>
        kv_verdict_hash oldv = m_verdict_hash m \<and> vd_old_verdict_hash d = m_verdict_hash m \<and>
        vd_case_id d = m_case_id m \<and> vd_tenant_id d = m_tenant_id m \<and>
        vd_old_severity d = m_verdict_severity m \<and> vd_new_severity d = kv_severity newv \<and>
        vd_old_disposition d = m_verdict_disposition m \<and> vd_new_disposition d = kv_disposition newv \<and>
        (vd_new_severity d \<noteq> vd_old_severity d \<or> vd_new_disposition d \<noteq> vd_old_disposition d) \<and>
        vd_old_contributing_claims d = kv_contributing_claims oldv \<and>
        vd_new_contributing_claims d = kv_contributing_claims newv \<and>
        vd_responsible_claim_ids d = [kv_submitted_claim_ids newv ! j] \<and>
        vd_policy_deltas d = [\<lparr>pd_predicate = p, pd_old_weight = pw_weight w, pd_new_weight = pw_weight w + 5000\<rparr>])"

lemma every_third_set: "(i, x) \<in> set (every_third k xs) \<Longrightarrow> x \<in> set xs"
  by (induction k xs rule: every_third.induct) (auto dest: in_set_dropD)

lemma kernel_answersD:
  assumes "kernel_answers k" "posted r"
  obtains a where "k r = Inr a" "\<And>v. a = KernelOk v \<Longrightarrow> length (kv_submitted_claim_ids v) = length (kr_claims r)"
  using assms(1) [unfolded kernel_answers_def, rule_format, OF assms(2)] by (auto split: sum.splits KernelResult.splits)

text \<open>An object has each key once, and repricing keeps it so.\<close>

definition policy_object :: "PolicyBundle \<Rightarrow> bool" where
  "policy_object p \<longleftrightarrow> distinct (map fst (pb_predicate_weights p))"

lemma drift_request_posted:
  assumes "policy_object policy"
  shows "posted (drift_request version policy claims)" "posted (drift_request version (reprice p w policy) claims)"
  using assms by (simp_all add: drift_request_def console_claims_posted policy_object_def reprice_def distinct_update)

lemma computeDrift_cases:
  assumes k: "kernel_answers k" and p: "policy_object policy" and j: "j < length claims"
    and w: "map_of (pb_predicate_weights policy) (lc_predicate (claims ! j)) = Some w"
  shows "(\<exists>oldv newv. k (drift_request version policy claims) = Inr (KernelOk oldv) \<and>
      k (drift_request version (reprice (lc_predicate (claims ! j)) w policy) claims) = Inr (KernelOk newv) \<and>
      \<not> (kv_severity newv = fst old \<and> kv_disposition newv = fst (snd old)) \<and> kv_verdict_hash oldv = snd (snd old) \<and>
      computeDriftForCase blake3 k clock cid tid version claims policy old j =
        Inr (Some (drift_record blake3 clock cid tid (lc_predicate (claims ! j)) w old oldv newv j
          (kv_submitted_claim_ids newv ! j)))) \<or>
    computeDriftForCase blake3 k clock cid tid version claims policy old j = Inr None"
proof -
  let ?r0 = "drift_request version policy claims"
    and ?r1 = "drift_request version (reprice (lc_predicate (claims ! j)) w policy) claims"
  obtain a0 where a0: "k ?r0 = Inr a0" by (rule kernel_answersD [OF k drift_request_posted(1) [OF p]])
  obtain a1 where a1: "k ?r1 = Inr a1" and "\<And>v. a1 = KernelOk v \<Longrightarrow> length (kv_submitted_claim_ids v) = length (kr_claims ?r1)"
    by (rule kernel_answersD [OF k drift_request_posted(2) [OF p]]) blast
  then have l: "a1 = KernelOk v \<Longrightarrow> length (kv_submitted_claim_ids v) = length claims" for v
    by (simp add: drift_request_def)
  show ?thesis
  proof (cases a0; cases a1)
    fix oldv newv
    assume v: "a0 = KernelOk oldv" "a1 = KernelOk newv"
    with l j have "j < length (kv_submitted_claim_ids newv)" by simp
    with v a0 a1 w j show ?thesis by (simp add: computeDriftForCase_def js_index_int)
  qed (use a0 a1 w j in \<open>simp_all add: computeDriftForCase_def js_index_int\<close>)
qed

lemma drift_at_genuine:
  assumes "kernel_answers k" "sealed \<in> set (lg_manifests ledger)" "policy_object (lg_policy ledger)"
  shows "\<exists>r. drift_at blake3 k clock ledger i sealed = Inr r \<and> (\<forall>d. r = Some d \<longrightarrow> genuine_drift k ledger d)"
proof (cases "map_of (lg_caseData ledger) (m_investigation_id (sm_manifest sealed))")
  case None
  then show ?thesis by (simp add: drift_at_def)
next
  case (Some c)
  show ?thesis
  proof (cases "ld_claims c = []")
    case True
    with Some show ?thesis by (simp add: drift_at_def)
  next
    case False
    define j where "j = i mod length (ld_claims c)"
    have j: "j < length (ld_claims c)" using False by (simp add: j_def)
    let ?m = "sm_manifest sealed" and ?p = "lc_predicate (ld_claims c ! j)"
    have eq: "drift_at blake3 k clock ledger i sealed = computeDriftForCase blake3 k clock (m_case_id ?m)
        (m_tenant_id ?m) (m_kernel_version ?m) (ld_claims c) (lg_policy ledger)
        (m_verdict_severity ?m, m_verdict_disposition ?m, m_verdict_hash ?m) j"
      using Some False by (simp add: drift_at_def Let_def j_def)
    show ?thesis
    proof (cases "map_of (pb_predicate_weights (lg_policy ledger)) ?p")
      case None
      with j show ?thesis by (simp add: eq computeDriftForCase_def js_index_int)
    next
      case w: (Some w)
      from computeDrift_cases [OF assms(1,3) j w, of "m_kernel_version ?m"
          "(m_verdict_severity ?m, m_verdict_disposition ?m, m_verdict_hash ?m)" blake3 clock "m_case_id ?m" "m_tenant_id ?m"]
      show ?thesis
      proof (elim disjE exE conjE)
        fix oldv newv
        assume v: "k (drift_request (m_kernel_version ?m) (lg_policy ledger) (ld_claims c)) = Inr (KernelOk oldv)"
          "k (drift_request (m_kernel_version ?m) (reprice ?p w (lg_policy ledger)) (ld_claims c)) = Inr (KernelOk newv)"
          and n: "\<not> (kv_severity newv = fst (m_verdict_severity ?m, m_verdict_disposition ?m, m_verdict_hash ?m) \<and>
            kv_disposition newv = fst (snd (m_verdict_severity ?m, m_verdict_disposition ?m, m_verdict_hash ?m)))"
          "kv_verdict_hash oldv = snd (snd (m_verdict_severity ?m, m_verdict_disposition ?m, m_verdict_hash ?m))"
          and e: "computeDriftForCase blake3 k clock (m_case_id ?m) (m_tenant_id ?m) (m_kernel_version ?m) (ld_claims c)
            (lg_policy ledger) (m_verdict_severity ?m, m_verdict_disposition ?m, m_verdict_hash ?m) j =
            Inr (Some (drift_record blake3 clock (m_case_id ?m) (m_tenant_id ?m) ?p w
              (m_verdict_severity ?m, m_verdict_disposition ?m, m_verdict_hash ?m) oldv newv j
              (kv_submitted_claim_ids newv ! j)))"
        have "genuine_drift k ledger (drift_record blake3 clock (m_case_id ?m) (m_tenant_id ?m) ?p w
            (m_verdict_severity ?m, m_verdict_disposition ?m, m_verdict_hash ?m) oldv newv j (kv_submitted_claim_ids newv ! j))"
          unfolding genuine_drift_def Let_def
          by (rule bexI [OF _ assms(2)], rule exI [of _ c], rule exI [of _ j], rule exI [of _ w], rule exI [of _ oldv],
              rule exI [of _ newv]) (use v n w j Some in \<open>simp add: drift_record_def\<close>)
        with e show ?thesis by (simp add: eq)
      qed (simp add: eq)
    qed
  qed
qed

lemma drift_loop_genuine:
  assumes "kernel_answers k" "snd ` set xs \<subseteq> set (lg_manifests ledger)" "policy_object (lg_policy ledger)"
  shows "\<exists>ds. drift_loop blake3 k clock ledger xs = Inr ds \<and> list_all (genuine_drift k ledger) ds"
  using assms(2)
proof (induction xs)
  case (Cons x xs)
  obtain i sealed where x: "x = (i, sealed)" by (cases x)
  obtain r where "drift_at blake3 k (\<lambda>n. clock (2 * i + n)) ledger i sealed = Inr r"
    "\<forall>d. r = Some d \<longrightarrow> genuine_drift k ledger d"
    using drift_at_genuine [OF assms(1) _ assms(3)] Cons.prems x by (metis image_eqI insert_subset list.simps(15) snd_conv image_insert)
  moreover obtain ds where "drift_loop blake3 k clock ledger xs = Inr ds" "list_all (genuine_drift k ledger) ds"
    using Cons by auto
  ultimately show ?case by (cases r) (simp_all add: x)
qed simp

section \<open>Properties\<close>

text \<open>
  C22: every drift in the report is genuine. The sweep ends with a report whenever the kernel answers,
  newest flip first, and each entry belongs to a sealed manifest whose stored hash the unchanged
  policy reproduces, whose severity or disposition the kernel changes when the one named predicate
  costs 5000 more, and whose attributions are the kernel's own before and after.
\<close>

theorem drift_report_genuine:
  assumes "kernel_answers k" "policy_object (lg_policy ledger)"
  shows "\<exists>ds. buildDrift blake3 k clock ledger = Inr ds \<and> list_all (genuine_drift k ledger) ds \<and>
    sorted (map (\<lambda>d. - vd_flipped_at_ms d) ds)"
proof -
  have "snd ` set (every_third 0 (lg_manifests ledger)) \<subseteq> set (lg_manifests ledger)"
    by (auto dest: every_third_set)
  from drift_loop_genuine [OF assms(1) this assms(2), of blake3 clock] show ?thesis
    by (auto simp: buildDrift_def list_all_iff)
qed

definition price_call :: kernel_call where
  "price_call r = Inr (KernelOk ((sample_verdict (map (\<lambda>_. ''c1'') (kr_claims r)))
     \<lparr>kv_severity := (if list_ex (\<lambda>(p, w). 5000 < pw_weight w) (pb_predicate_weights (kr_policy r)) then ''high'' else ''low'')\<rparr>))"

definition drift_claim :: LedgerClaim where
  "drift_claim = \<lparr>lc_predicate = ''ENCODED_COMMAND'', lc_subject = ''bash'', lc_object = None, lc_interval_start_ns = 1,
     lc_interval_end_ns = 2, lc_evidence = [''e1''], lc_extractor_kind = ''rule'', lc_extractor_id = '''',
     lc_extractor_version = ''1'', lc_observed_value = None, lc_polarity = Supports, lc_hypothesis_ref = None,
     lc_claim_id = ''c1''\<rparr>"

definition drift_ledger :: LedgerData where
  "drift_ledger = \<lparr>lg_manifests = [seal sample_hash ((sample_manifest '''')\<lparr>m_verdict_severity := ''low'',
       m_verdict_disposition := ''benign'', m_verdict_hash := ''00''\<rparr>) False],
     lg_caseData = [(''i'', \<lparr>ld_investigationId = ''i'', ld_caseId = ''c'', ld_claims = [drift_claim], ld_merkleRoot = '''',
       ld_merkleTree = \<lparr>mt_root = '''', mt_levels = []\<rparr>, ld_evidenceIds = [''e1'']\<rparr>)],
     lg_policy = buildSyntheticPolicy\<rparr>"

theorem drift_report_genuine_witness:
  "\<exists>d. buildDrift sample_hash price_call (\<lambda>n. 0) drift_ledger = Inr [d] \<and> genuine_drift price_call drift_ledger d \<and>
     vd_new_severity d = ''high''"
proof -
  have "kernel_answers price_call" by (simp add: kernel_answers_def price_call_def sample_verdict_def)
  moreover have "policy_object (lg_policy drift_ledger)"
    using policy_weights_keys by (simp add: policy_object_def drift_ledger_def buildSyntheticPolicy_def)
  ultimately obtain ds where
    ds: "buildDrift sample_hash price_call (\<lambda>n. 0) drift_ledger = Inr ds" "list_all (genuine_drift price_call drift_ledger) ds"
    using drift_report_genuine [of price_call drift_ledger sample_hash "\<lambda>n. 0"] by blast
  have "map_of policy_weights ''ENCODED_COMMAND'' = Some (weight_entry Execution ''ENCODED_COMMAND'')"
    "\<not> list_ex (\<lambda>(p, w). 5000 < pw_weight w) policy_weights"
    "list_ex (\<lambda>(p, w). 5000 < pw_weight w) (AList.update ''ENCODED_COMMAND''
       ((weight_entry Execution ''ENCODED_COMMAND'')\<lparr>pw_weight := pw_weight (weight_entry Execution ''ENCODED_COMMAND'') + 5000\<rparr>) policy_weights)"
    by code_simp+
  then have "\<exists>d. buildDrift sample_hash price_call (\<lambda>n. 0) drift_ledger = Inr [d] \<and> vd_new_severity d = ''high''"
    by (simp add: buildDrift_def drift_ledger_def drift_at_def Let_def seal_def sample_manifest_def drift_claim_def
        computeDriftForCase_def js_index_def price_call_def sample_verdict_def drift_request_def reprice_def
        buildSyntheticPolicy_def drift_record_def sort_key_def)
  with ds show ?thesis by auto
qed

end
