(* ===== verification/Api.thy ===== *)
theory Api
  imports Drift Graph Case_Stream
begin

text \<open>
  The HTTP handlers under \<^verbatim>\<open>web/src/app/api\<close> (the event stream is in \<^verbatim>\<open>Case_Stream\<close>), as functions from the
  request and the server state to a response. A response carries the typed body that \<^verbatim>\<open>NextResponse.json\<close>
  serialises; an exception that leaves a handler is answered by the framework with a 500.
\<close>

section \<open>Responses\<close>

datatype 'a http =
    HttpOk 'a
  | HttpStatus nat string \<comment> \<open>a status and the text of the \<^verbatim>\<open>error\<close> field\<close>
  | HttpThrows js_error

fun http_status :: "'a http \<Rightarrow> nat" where
  "http_status (HttpOk _) = 200"
| "http_status (HttpStatus n _) = n"
| "http_status (HttpThrows _) = 500"

definition http_of :: "'a result \<Rightarrow> 'a http" where
  "http_of r = (case r of Inl e \<Rightarrow> HttpThrows e | Inr a \<Rightarrow> HttpOk a)"

text \<open>A handler that answers null with 404.\<close>

definition http_found :: "'a option result \<Rightarrow> 'a http" where
  "http_found r =
     (case r of Inl e \<Rightarrow> HttpThrows e | Inr None \<Rightarrow> HttpStatus 404 ''not found'' | Inr (Some a) \<Rightarrow> HttpOk a)"

section \<open>Cases and statistics\<close>

definition cases_GET :: "Store \<Rightarrow> Case option list http" where
  "cases_GET store = HttpOk (listCases store)"

definition timeline_GET :: "Store \<Rightarrow> string \<Rightarrow> (Case \<times> TimelineEvent list option) http" where
  "timeline_GET store i =
     (case getCase store i of
        None \<Rightarrow> HttpStatus 404 ''not found''
      | Some c \<Rightarrow> (case getCaseTimeline store i of Inl e \<Rightarrow> HttpThrows e | Inr events \<Rightarrow> HttpOk (c, events)))"

definition stats_GET :: "Store \<Rightarrow> StatTile list http" where
  "stats_GET store = http_of (computeStats store)"

section \<open>Response actions\<close>

definition response_actions_GET :: "Store \<Rightarrow> ResponseAction list http" where
  "response_actions_GET store = HttpOk (listResponseActions store)"

definition blast_radius_GET :: "Store \<Rightarrow> string \<Rightarrow> BlastRadius http" where
  "blast_radius_GET store i =
     (case getResponseAction store i of
        None \<Rightarrow> HttpStatus 404 ''not found''
      | Some action \<Rightarrow> http_of (computeBlastRadius action))"

text \<open>\<open>body\<close> is the parsed body of the request, \<^const>\<open>None\<close> when it is not JSON.\<close>

definition VALID :: "(string \<times> ActionStatus) list" where
  "VALID = [(''approved'', Approved), (''modified'', Modified), (''rejected'', Rejected)]"

definition decision_POST :: "string \<Rightarrow> json option \<Rightarrow> Store \<Rightarrow> ResponseAction http \<times> Store" where
  "decision_POST i body store =
     (case Option.bind (Option.bind body (json_get ''status'')) json_string of
        None \<Rightarrow> (HttpStatus 400 ''status must be one of approved|modified|rejected'', store)
      | Some status \<Rightarrow>
          (case map_of VALID status of
             None \<Rightarrow> (HttpStatus 400 ''status must be one of approved|modified|rejected'', store)
           | Some st \<Rightarrow>
               (case decideResponseAction i st store of
                  (None, store') \<Rightarrow> (HttpStatus 404 ''not found'', store')
                | (Some updated, store') \<Rightarrow> (HttpOk updated, store'))))"

section \<open>Ledger and drift\<close>

text \<open>\<open>ledger\<close> is what \<^verbatim>\<open>getLedgerData\<close> resolves to.\<close>

definition manifests_GET :: "LedgerData result \<Rightarrow> SealedManifest list http" where
  "manifests_GET ledger = http_of (map_sum id lg_manifests ledger)"

record ClaimsBody =
  cb_claims :: "LedgerClaim list"
  cb_policy :: PolicyBundle
  cb_evidenceIds :: "string list"
  cb_merkleRoot :: string

definition claims_GET :: "LedgerData result \<Rightarrow> string \<Rightarrow> ClaimsBody http" where
  "claims_GET ledger i =
     (case ledger of
        Inl e \<Rightarrow> HttpThrows e
      | Inr L \<Rightarrow> (case map_of (lg_caseData L) i of
            None \<Rightarrow> HttpStatus 404 ''not found''
          | Some c \<Rightarrow> HttpOk \<lparr>cb_claims = ld_claims c, cb_policy = lg_policy L, cb_evidenceIds = ld_evidenceIds c,
                cb_merkleRoot = ld_merkleRoot c\<rparr>))"

definition ledger_proof_GET :: "LedgerData result \<Rightarrow> string \<Rightarrow> string \<Rightarrow> InclusionProof http" where
  "ledger_proof_GET ledger i evidenceId =
     (case ledger of Inl e \<Rightarrow> HttpThrows e | Inr L \<Rightarrow> http_found (proveEvidenceInclusion L i evidenceId))"

definition drift_GET :: "VerdictDrift list result \<Rightarrow> VerdictDrift list http" where
  "drift_GET drifts = http_of drifts"

section \<open>Graphs\<close>

text \<open>\<^verbatim>\<open>nodesParam ? Number(nodesParam) : undefined\<close> for decimal numerals; other texts are not modelled.\<close>

definition node_count_override :: "string option \<Rightarrow> int option" where
  "node_count_override nodesParam =
     (case nodesParam of
        None \<Rightarrow> None
      | Some s \<Rightarrow> if s = [] then None else Some (foldl (\<lambda>n ch. 10 * n + int (digit_val ch)) 0 s))"

record GraphBody =
  gb_nodes :: "GraphNode list"
  gb_edges :: "GraphEdge list"
  gb_columnCount :: int
  gb_evidenceIds :: "string list"

definition graph_GET ::
  "hash_fun \<Rightarrow> (rat \<Rightarrow> rat) \<Rightarrow> int \<Rightarrow> string \<Rightarrow> string option \<Rightarrow> graph_cache \<Rightarrow> GraphBody http \<times> graph_cache" where
  "graph_GET blake3 pow nowMs caseId nodesParam cache =
     (case getOrBuildGraph blake3 pow nowMs caseId (node_count_override nodesParam) cache of
        (Inl e, cache') \<Rightarrow> (HttpThrows e, cache')
      | (Inr entry, cache') \<Rightarrow>
          (HttpOk \<lparr>gb_nodes = g_nodes (gc_graph entry), gb_edges = g_edges (gc_graph entry),
             gb_columnCount = g_columnCount (gc_graph entry), gb_evidenceIds = gc_evidenceIds entry\<rparr>, cache'))"

definition graph_proof_GET ::
  "hash_fun \<Rightarrow> (rat \<Rightarrow> rat) \<Rightarrow> int \<Rightarrow> string \<Rightarrow> string option \<Rightarrow> string \<Rightarrow> graph_cache \<Rightarrow> InclusionProof http \<times> graph_cache" where
  "graph_proof_GET blake3 pow nowMs caseId nodesParam evidenceId cache =
     map_prod http_found id
       (proveGraphEvidenceInclusion blake3 pow nowMs caseId (node_count_override nodesParam) evidenceId cache)"

section \<open>Proof services\<close>

text \<open>
  What the two proof handlers promise their clients: for an identifier of the list a built tree stands on, a proof that
  verifies under that tree's root; for any other identifier a 404.
\<close>

locale proof_service =
  fixes blake3 :: hash_fun and serve :: "'k \<Rightarrow> string \<Rightarrow> InclusionProof http" and listed :: "'k \<Rightarrow> string set"
    and built :: "'k \<Rightarrow> bool" and root_at :: "'k \<Rightarrow> string"
  assumes serves: "built k \<Longrightarrow> e \<in> listed k \<Longrightarrow> \<exists>p. serve k e = HttpOk p \<and> verifyInclusion blake3 e p \<and> ip_root p = root_at k"
    and refuses: "e \<notin> listed k \<Longrightarrow> serve k e = HttpStatus 404 ''not found''"

definition ledger_listed :: "LedgerData \<Rightarrow> string \<Rightarrow> string set" where
  "ledger_listed L i = (case map_of (lg_caseData L) i of None \<Rightarrow> {} | Some d \<Rightarrow> set (ld_evidenceIds d))"

definition ledger_built :: "hash_fun \<Rightarrow> LedgerData \<Rightarrow> string \<Rightarrow> bool" where
  "ledger_built blake3 L i \<longleftrightarrow>
     (\<exists>d. map_of (lg_caseData L) i = Some d \<and> buildMerkleTree blake3 (ld_evidenceIds d) = Inr (ld_merkleTree d))"

definition ledger_root :: "LedgerData \<Rightarrow> string \<Rightarrow> string" where
  "ledger_root L i = (case map_of (lg_caseData L) i of None \<Rightarrow> [] | Some d \<Rightarrow> mt_root (ld_merkleTree d))"

lemma http_found_simps [simp]:
  "http_found (Inl e) = HttpThrows e" "http_found (Inr None) = HttpStatus 404 ''not found''" "http_found (Inr (Some a)) = HttpOk a"
  by (simp_all add: http_found_def)

interpretation ledger_proofs: proof_service blake3 "ledger_proof_GET (Inr L)" "ledger_listed L" "ledger_built blake3 L" "ledger_root L" for blake3 L
proof unfold_locales
  fix k e assume "ledger_built blake3 L k" "e \<in> ledger_listed L k"
  then obtain d where "map_of (lg_caseData L) k = Some d" "buildMerkleTree blake3 (ld_evidenceIds d) = Inr (ld_merkleTree d)" "e \<in> set (ld_evidenceIds d)"
    by (auto simp: ledger_built_def ledger_listed_def)
  with prove_listed_member [of blake3 "ld_evidenceIds d" "ld_merkleTree d" e]
  show "\<exists>p. ledger_proof_GET (Inr L) k e = HttpOk p \<and> verifyInclusion blake3 e p \<and> ip_root p = ledger_root L k"
    by (auto simp: ledger_proof_GET_def proveEvidenceInclusion_def ledger_root_def)
qed (auto simp: ledger_proof_GET_def proveEvidenceInclusion_def ledger_listed_def prove_listed_other split: option.splits)

text \<open>For a graph the key is its cache entry.\<close>

definition entry_proof :: "GraphCacheEntry \<Rightarrow> string \<Rightarrow> InclusionProof http" where
  "entry_proof entry e = http_found (prove_listed (gc_tree entry) (gc_evidenceIds entry) e)"

interpretation graph_proofs: proof_service blake3 entry_proof "\<lambda>entry. set (gc_evidenceIds entry)"
  "\<lambda>entry. buildMerkleTree blake3 (gc_evidenceIds entry) = Inr (gc_tree entry)" "\<lambda>entry. mt_root (gc_tree entry)" for blake3
  by unfold_locales (auto simp: entry_proof_def prove_listed_other dest: prove_listed_member)

lemma graph_proof_served:
  assumes "getOrBuildGraph blake3 pow nowMs caseId (node_count_override nodesParam) cache = (Inr entry, cache')"
  shows "graph_proof_GET blake3 pow nowMs caseId nodesParam e cache = (entry_proof entry e, cache')"
  using assms by (simp add: graph_proof_GET_def proveGraphEvidenceInclusion_def entry_proof_def)

end
