(* ===== verification/Dataviz.thy ===== *)
theory Dataviz
  imports Data_Types Js_Number Html
begin

text \<open>
  \<^verbatim>\<open>web/src/components/dataviz\<close>: number formats, the sparkline and the stat tile, with
  \<^verbatim>\<open>watchfloor/stat-strip.tsx\<close>. Numbers are doubles (rationals rounded by \<^const>\<open>fl\<close>).
\<close>

section \<open>Formats\<close>

text \<open>\<^verbatim>\<open>x.toFixed(1)\<close>: the nearest tenth of the double, the larger one of two.\<close>

definition to_fixed1 :: "rat \<Rightarrow> string" where
  "to_fixed1 x =
     (let n = \<lfloor>\<bar>x\<bar> * 10 + 1 / 2\<rfloor>
      in (if x < 0 then ''-'' else '''') @ show_int (n div 10) @ ''.'' @ show_int (n mod 10))"

text \<open>\<^verbatim>\<open>n.toLocaleString("en-US")\<close> of an integer below a thousand needs no grouping.\<close>

definition formatCompact :: "int \<Rightarrow> string" where
  "formatCompact n =
     (if 1000000 \<le> \<bar>n\<bar> then to_fixed1 (js_div (of_int n) 1000000) @ ''M''
      else if 1000 \<le> \<bar>n\<bar> then to_fixed1 (js_div (of_int n) 1000) @ ''K''
      else show_int n)"

text \<open>\<^verbatim>\<open>seconds % 60\<close> is exact and keeps the sign of the dividend; here \<open>seconds\<close> is at least 60.\<close>

definition js_rem :: "rat \<Rightarrow> rat \<Rightarrow> rat" where
  "js_rem x y = x - y * of_int \<lfloor>x / y\<rfloor>"

definition formatDuration :: "rat \<Rightarrow> string" where
  "formatDuration seconds =
     (if seconds < 60 then show_int (js_round seconds) @ ''s''
      else
        let minutes = js_floor (js_div seconds 60); rem = js_round (js_rem seconds 60) in
        if minutes < 60 then
          (if 0 < rem then show_int minutes @ ''m '' @ show_int rem @ ''s'' else show_int minutes @ ''m'')
        else show_int (js_floor (js_div (of_int minutes) 60)) @ ''h '' @ show_int (minutes mod 60) @ ''m'')"

fun formatStatValue :: "int \<Rightarrow> StatUnit \<Rightarrow> string" where
  "formatStatValue value CountUnit = formatCompact value"
| "formatStatValue value DurationUnit = formatDuration (of_int value)"
| "formatStatValue value PercentUnit = show_int value @ ''%''"

section \<open>Sparkline\<close>

definition spark_points :: "rat \<Rightarrow> rat \<Rightarrow> int list \<Rightarrow> (rat \<times> rat) list" where
  "spark_points width height vs =
     (let lo = Min (set vs); hi = Max (set vs); range = (if hi - lo = 0 then 1 else hi - lo);
          stepX = js_div width (of_nat (length vs - 1))
      in map (\<lambda>(i, v). (js_mul (of_nat i) stepX,
           js_sub height (js_mul (js_div (of_int (v - lo)) (of_int range)) height))) (List.enumerate 0 vs))"

definition spark_path :: "(rat \<times> rat) list \<Rightarrow> string" where
  "spark_path points =
     (let part = \<lambda>(i, (x, y)). (if i = (0 :: nat) then ''M'' else ''L'') @ to_fixed1 x @ '','' @ to_fixed1 y
      in concat (map (\<lambda>(i, p). (if i = 0 then '''' else '' '') @ part (i, p)) (List.enumerate 0 points)))"

definition Sparkline :: "int list \<Rightarrow> 'a html list" where
  "Sparkline vs =
     (if length vs < 2 then []
      else let points = spark_points 64 20 vs; (lastX, lastY) = last points in
        [El ''svg'' [(''width'', ''64''), (''height'', ''20''), (''viewBox'', ''0 0 64 20''), (''aria-hidden'', ''true'')] []
           [El ''path'' [(''d'', spark_path points), (''fill'', ''none'')] [] [],
            El ''circle'' [(''cx'', to_fixed1 lastX), (''cy'', to_fixed1 lastY), (''r'', ''4'')] [] []]])"

section \<open>Stat tiles\<close>

datatype delta_tone = Flat | Improvement | Regression

definition delta_tone_of :: "StatTile \<Rightarrow> delta_tone" where
  "delta_tone_of tile =
     (let isImprovement = (if st_goodDirection tile = GoodUp then 0 < st_delta tile else st_delta tile < 0);
          isFlat = (st_delta tile = 0)
      in if isFlat then Flat else if isImprovement then Improvement else Regression)"

fun tone_class :: "delta_tone \<Rightarrow> string" where
  "tone_class Flat = ''text-text-tertiary''"
| "tone_class Improvement = ''text-disposition-benign''"
| "tone_class Regression = ''text-severity-high''"

definition delta_suffix :: "StatUnit \<Rightarrow> string" where
  "delta_suffix u = (case u of PercentUnit \<Rightarrow> ''pp'' | DurationUnit \<Rightarrow> ''s'' | CountUnit \<Rightarrow> '''')"

definition StatTileView :: "StatTile \<Rightarrow> 'a html" where
  "StatTileView tile =
     El ''div'' [] []
       [El ''span'' [] [] [Txt (st_label tile)],
        El ''div'' [] [] (El ''span'' [] [] [Txt (formatStatValue (st_value tile) (st_unit tile))] # Sparkline (st_trend tile)),
        El ''div'' [] []
          (when_shown (delta_tone_of tile \<noteq> Flat)
             [El ''span'' [(''className'', tone_class (delta_tone_of tile))] []
                [El (if 0 \<le> st_delta tile then ''ArrowUp'' else ''ArrowDown'') [(''aria-hidden'', ''true'')] [] [],
                 Txt (show_int \<bar>st_delta tile\<bar>), Txt (delta_suffix (st_unit tile))]] @
           [El ''span'' [] [] [Txt (st_baselineLabel tile)]])]"

definition StatStrip :: "StatTile list option \<Rightarrow> 'a html" where
  "StatStrip tiles = El ''div'' [] [] (map StatTileView (case tiles of None \<Rightarrow> [] | Some ts \<Rightarrow> ts))"

section \<open>Properties\<close>

lemma js_div_60:
  assumes "0 \<le> s" "s \<le> 2 ^ 50"
  shows "js_floor (js_div (of_int s) 60) = s div 60"
proof -
  define q where "q = s div 60"
  have q: "q * 60 \<le> s" "s \<le> q * 60 + 59" "0 \<le> q" "q \<le> 2 ^ 46"
    using assms by (auto simp: q_def)
  have lo: "of_int q \<le> js_div (of_int s) 60"
  proof -
    have "(of_int (q * 60) :: rat) \<le> of_int s" using q(1) by (simp only: of_int_le_iff)
    then have "(of_int q :: rat) \<le> of_int s / 60" by (simp add: le_divide_eq)
    then show ?thesis unfolding js_div_def using q by (intro dbl.rnd_ge_int) auto
  qed
  have "(of_int s :: rat) / 60 \<le> of_int (q * 64 + 63) * pow2 (- 6)"
  proof -
    have "(of_int s :: rat) \<le> of_int (q * 60 + 59)" using q by (simp only: of_int_le_iff)
    then show ?thesis by (simp add: pow2_def field_simps)
  qed
  then have "js_div (of_int s) 60 \<le> of_int (q * 64 + 63) * pow2 (- 6)"
    unfolding js_div_def using q by (intro dbl.rnd_le_dyadic) auto
  also have "\<dots> < of_int (q + 1)" by (simp add: pow2_def field_simps)
  finally show ?thesis using lo by (simp add: js_floor_def floor_eq_iff q_def)
qed

lemma js_rem_int: "js_rem (of_int s) 60 = of_int (s mod 60)"
proof -
  have "\<lfloor>(of_int s :: rat) / 60\<rfloor> = s div 60" using floor_divide_of_int_eq [of s 60, where 'a = rat] by simp
  moreover have "(of_int s :: rat) = of_int (60 * (s div 60) + s mod 60)" by simp
  then have "(of_int s :: rat) = 60 * of_int (s div 60) + of_int (s mod 60)" by (simp only: of_int_add of_int_mult of_int_numeral)
  ultimately show ?thesis unfolding js_rem_def by linarith
qed

lemma js_round_int: "js_round (of_int n) = n"
  unfolding js_round_def by (rule floor_unique) simp_all

text \<open>
  A whole number of seconds is shown without loss below an hour and to the minute above: the
  minutes and seconds shown make up the value and the seconds stay below 60. Only a fraction can
  round up to a full minute that is not carried: 119.6 seconds are shown as \<^verbatim>\<open>1m 60s\<close>.
\<close>

theorem duration_format:
  assumes "60 \<le> s" and "s \<le> 2 ^ 50"
  shows "(\<exists>m r. s = 60 * m + r \<and> 0 \<le> r \<and> r < 60 \<and>
     formatDuration (of_int s) =
       (if m < 60 then (if 0 < r then show_int m @ ''m '' @ show_int r @ ''s'' else show_int m @ ''m'')
        else show_int (m div 60) @ ''h '' @ show_int (m mod 60) @ ''m'')) \<and>
   formatDuration (fl (1196 / 10)) = ''1m 60s''"
proof
  let ?m = "s div 60" and ?r = "s mod 60"
  have m: "js_floor (js_div (of_int s) 60) = ?m" "js_floor (js_div (of_int ?m) 60) = ?m div 60"
    using assms by (simp_all add: js_div_60 pos_imp_zdiv_nonneg_iff)
  have "\<not> (of_int s :: rat) < 60" using assms(1) by simp
  then have "formatDuration (of_int s) =
       (if ?m < 60 then (if 0 < ?r then show_int ?m @ ''m '' @ show_int ?r @ ''s'' else show_int ?m @ ''m'')
        else show_int (?m div 60) @ ''h '' @ show_int (?m mod 60) @ ''m'')"
    by (simp add: formatDuration_def m js_rem_int js_round_int Let_def)
  then show "\<exists>m r. s = 60 * m + r \<and> 0 \<le> r \<and> r < 60 \<and>
     formatDuration (of_int s) =
       (if m < 60 then (if 0 < r then show_int m @ ''m '' @ show_int r @ ''s'' else show_int m @ ''m'')
        else show_int (m div 60) @ ''h '' @ show_int (m mod 60) @ ''m'')"
    by (intro exI [of _ ?m] exI [of _ ?r]) simp
  show "formatDuration (fl (1196 / 10)) = ''1m 60s''" by code_simp
qed

theorem duration_format_witness:
  "\<exists>m r. (125 :: int) = 60 * m + r \<and> 0 \<le> r \<and> r < 60 \<and>
     formatDuration (of_int 125) =
       (if m < 60 then (if 0 < r then show_int m @ ''m '' @ show_int r @ ''s'' else show_int m @ ''m'')
        else show_int (m div 60) @ ''h '' @ show_int (m mod 60) @ ''m'')"
  using duration_format [of 125, THEN conjunct1] by simp

end
