(* ===== verification/Watchfloor.thy ===== *)
theory Watchfloor
  imports Case_Stream Chrome Dataviz
begin

text \<open>
  The Watchfloor, \<^verbatim>\<open>web/src/components/watchfloor\<close>: the filter rail, the case table, the event ticker, the
  dismiss dialog and the client component that ties them to the live feed and to the queue keys
  \<^verbatim>\<open>j k e d i\<close>. Sorting and virtualisation of the table are TanStack's: the table component takes the
  rows in display order and the indices in view as arguments.
\<close>

section \<open>Filter rail\<close>

record FilterState =
  f_severities :: "Severity list"
  f_dispositions :: "Disposition list"
  f_tenants :: "string list"
  f_tactics :: "Tactic list"
  f_unassignedOnly :: bool

definition emptyFilterState :: FilterState where
  "emptyFilterState = \<lparr>f_severities = [], f_dispositions = [], f_tenants = [], f_tactics = [], f_unassignedOnly = False\<rparr>"

definition passes :: "FilterState \<Rightarrow> Case \<Rightarrow> bool" where
  "passes filters c =
     (if f_severities filters \<noteq> [] \<and> c_severity c \<notin> set (f_severities filters) then False
      else if f_dispositions filters \<noteq> [] \<and> c_disposition c \<notin> set (f_dispositions filters) then False
      else if f_tenants filters \<noteq> [] \<and> c_tenantId c \<notin> set (f_tenants filters) then False
      else if f_tactics filters \<noteq> [] \<and> \<not> list_ex (\<lambda>t. t \<in> set (f_tactics filters)) (c_tactics c) then False
      else if f_unassignedOnly filters \<and> c_assignee c \<noteq> None then False
      else True)"

definition applyFilters :: "Case list \<Rightarrow> FilterState \<Rightarrow> Case list" where
  "applyFilters cases filters = filter (passes filters) cases"

definition toggle :: "'a list \<Rightarrow> 'a \<Rightarrow> 'a list" where
  "toggle xs v = (if v \<in> set xs then set_delete v xs else set_add v xs)"

text \<open>A \<^verbatim>\<open>Map\<close> of counters: \<^verbatim>\<open>m.set(k, (m.get(k) ?? 0) + 1)\<close>, and \<^verbatim>\<open>m.get(k) ?? 0\<close>.\<close>

definition bump :: "'k \<Rightarrow> ('k \<times> nat) list \<Rightarrow> ('k \<times> nat) list" where
  "bump k m = AList.update k (case map_of m k of None \<Rightarrow> 1 | Some n \<Rightarrow> n + 1) m"

definition count_get :: "('k \<times> nat) list \<Rightarrow> 'k \<Rightarrow> nat" where
  "count_get m k = (case map_of m k of None \<Rightarrow> 0 | Some n \<Rightarrow> n)"

record RailCounts =
  rc_severity :: "(Severity \<times> nat) list"
  rc_disposition :: "(Disposition \<times> nat) list"
  rc_tenant :: "(string \<times> nat) list"
  rc_tactic :: "(Tactic \<times> nat) list"
  rc_unassigned :: nat

definition count_case :: "Case \<Rightarrow> RailCounts \<Rightarrow> RailCounts" where
  "count_case c m =
     \<lparr>rc_severity = bump (c_severity c) (rc_severity m),
      rc_disposition = bump (c_disposition c) (rc_disposition m),
      rc_tenant = bump (c_tenantId c) (rc_tenant m),
      rc_tactic = foldl (\<lambda>n t. bump t n) (rc_tactic m) (c_tactics c),
      rc_unassigned = (if c_assignee c = None then rc_unassigned m + 1 else rc_unassigned m)\<rparr>"

definition rail_counts :: "Case list \<Rightarrow> RailCounts" where
  "rail_counts cases =
     foldl (\<lambda>m c. count_case c m) \<lparr>rc_severity = [], rc_disposition = [], rc_tenant = [], rc_tactic = [], rc_unassigned = 0\<rparr> cases"

definition checkbox_row :: "string \<Rightarrow> bool \<Rightarrow> 'a \<Rightarrow> nat \<Rightarrow> 'a html" where
  "checkbox_row label checked onChange n =
     El ''label'' [] []
       [El ''input'' ((''type'', ''checkbox'') # when_shown checked [(''checked'', ''true'')]) [(''onChange'', onChange)] [],
        El ''span'' [] [] [Txt label],
        El ''span'' [] [] [Txt (show_int (int n))]]"

definition FilterGroup ::
  "('o \<Rightarrow> string) \<Rightarrow> string \<Rightarrow> 'o list \<Rightarrow> ('o \<times> nat) list \<Rightarrow> 'o list \<Rightarrow> ('o \<Rightarrow> 'a) \<Rightarrow> 'a html" where
  "FilterGroup name title options counts selected onToggle =
     El ''div'' [] []
       (El ''h3'' [] [] [Txt title] #
        map (\<lambda>opt. checkbox_row (name opt) (opt \<in> set selected) (onToggle opt) (count_get counts opt)) options)"

text \<open>The rail reports a changed filter state; that is the action of its checkboxes.\<close>

definition FilterRail :: "Case list \<Rightarrow> FilterState \<Rightarrow> FilterState html" where
  "FilterRail cases filters =
     (let m = rail_counts cases; tenants = sort (map fst (rc_tenant m)) in
      El ''aside'' [] []
        [FilterGroup severity_name ''Severity'' SEVERITIES (rc_severity m) (f_severities filters)
           (\<lambda>v. filters\<lparr>f_severities := toggle (f_severities filters) v\<rparr>),
         FilterGroup disposition_name ''Disposition'' DISPOSITIONS (rc_disposition m) (f_dispositions filters)
           (\<lambda>v. filters\<lparr>f_dispositions := toggle (f_dispositions filters) v\<rparr>),
         FilterGroup (\<lambda>t. t) ''Tenant'' tenants (rc_tenant m) (f_tenants filters)
           (\<lambda>v. filters\<lparr>f_tenants := toggle (f_tenants filters) v\<rparr>),
         FilterGroup tactic_name ''ATT&CK tactic'' TACTICS (rc_tactic m) (f_tactics filters)
           (\<lambda>v. filters\<lparr>f_tactics := toggle (f_tactics filters) v\<rparr>),
         checkbox_row ''Unassigned only'' (f_unassignedOnly filters)
           (filters\<lparr>f_unassignedOnly := \<not> f_unassignedOnly filters\<rparr>) (rc_unassigned m)])"

section \<open>Case table\<close>

definition relativeAge :: "int \<Rightarrow> int \<Rightarrow> string" where
  "relativeAge nowMs ms =
     (let deltaS = max 0 (js_round (js_div (of_int (nowMs - ms)) 1000)) in
      if deltaS < 60 then show_int deltaS @ ''s''
      else if deltaS < 3600 then show_int (js_round (js_div (of_int deltaS) 60)) @ ''m''
      else if deltaS < 86400 then show_int (js_round (js_div (of_int deltaS) 3600)) @ ''h''
      else show_int (js_round (js_div (of_int deltaS) 86400)) @ ''d'')"

definition RiskMeter :: "int \<Rightarrow> Severity \<Rightarrow> 'a html" where
  "RiskMeter score severity =
     (let pct = js_round (js_mul (js_div (of_int score) 10000) 100) in
      El ''div'' [(''role'', ''meter''), (''aria-valuenow'', show_int score), (''aria-valuemin'', ''0''), (''aria-valuemax'', ''10000''),
         (''aria-label'', ''Risk score '' @ show_int score @ '' of 10000, severity '' @ severity_name severity)] []
        [El ''div'' [(''className'', ''bg-severity-'' @ severity_name severity), (''width'', show_int pct @ ''%'')] [] []])"

definition SeverityLabel :: "Severity \<Rightarrow> 'a html" where
  "SeverityLabel severity =
     El ''span'' [(''className'', ''text-severity-'' @ severity_name severity)] [] [Txt (severity_name severity)]"

definition DispositionLabel :: "Disposition \<Rightarrow> 'a html" where
  "DispositionLabel disposition =
     El ''span'' [(''className'', ''text-disposition-'' @ disposition_name disposition)] [] [Txt (disposition_name disposition)]"

definition TacticChips :: "Tactic list \<Rightarrow> nat \<Rightarrow> 'a html" where
  "TacticChips tactics limit =
     (let shown = take limit tactics; overflow = length tactics - length shown in
      El ''div'' [] []
        (map (\<lambda>t. El ''span'' [] [] [Txt (tactic_name t)]) shown @
         when_shown (0 < overflow) [El ''span'' [] [] [Txt (''+'' @ show_int (int overflow))]]))"

text \<open>The columns in order: header, whether it sorts, and the content of its cell.\<close>

definition columns :: "int \<Rightarrow> (string \<times> string \<times> bool \<times> (Case \<Rightarrow> 'a html)) list" where
  "columns nowMs = [
     (''riskScore'', ''Risk'', True, \<lambda>c. RiskMeter (c_riskScore c) (c_severity c)),
     (''title'', ''Title'', True, \<lambda>c. El ''div'' [] [] [El ''span'' [] [] [Txt (c_title c)], DispositionLabel (c_disposition c)]),
     (''primaryEntity'', ''Primary entity'', True, \<lambda>c. El ''span'' [] [] [Txt (c_primaryEntity c)]),
     (''tactics'', ''Tactics'', False, \<lambda>c. TacticChips (c_tactics c) 3),
     (''claimCount'', ''Claims'', True, \<lambda>c. Txt (show_int (c_claimCount c))),
     (''updatedAtMs'', ''Age'', True, \<lambda>c. El ''span'' [] [] [Txt (relativeAge nowMs (c_createdAtMs c))]),
     (''status'', ''Status'', True, \<lambda>c. El ''span'' [] [] [Txt (status_name (c_status c))]),
     (''assignee'', ''Assignee'', True, \<lambda>c. El ''span'' [] [] [Txt (case c_assignee c of None \<Rightarrow> em_dash | Some a \<Rightarrow> a)])]"

definition ROW_HEIGHT :: nat where "ROW_HEIGHT = 32"
definition EXPANDED_EXTRA_HEIGHT :: nat where "EXPANDED_EXTRA_HEIGHT = 56"

definition estimateSize :: "Case list \<Rightarrow> string option \<Rightarrow> nat \<Rightarrow> nat" where
  "estimateSize rows expandedId index =
     (if map_option c_id (js_index rows (int index)) = expandedId \<and> expandedId \<noteq> None
      then ROW_HEIGHT + EXPANDED_EXTRA_HEIGHT else ROW_HEIGHT)"

text \<open>The row the table scrolls to when the selection changes.\<close>

definition scroll_target :: "Case list \<Rightarrow> string option \<Rightarrow> nat option" where
  "scroll_target rows selectedId =
     (case selectedId of None \<Rightarrow> None | Some i \<Rightarrow> if i = '''' then None else find_index (\<lambda>c. c_id c = i) rows)"

datatype table_action = ToggleSort string | SelectRow string "string option"

definition table_row :: "int \<Rightarrow> string option \<Rightarrow> string option \<Rightarrow> nat \<Rightarrow> Case \<Rightarrow> table_action html" where
  "table_row nowMs selectedId expandedId index c =
     (let isExpanded = (expandedId = Some (c_id c)); isSelected = (selectedId = Some (c_id c)) in
      El ''div'' [(''data-index'', show_int (int index))] []
        (El ''div'' [(''role'', ''row''), (''aria-selected'', show_bool isSelected), (''tabIndex'', ''-1'')]
           [(''onClick'', SelectRow (c_id c) (if isExpanded then None else Some (c_id c)))]
           (map (\<lambda>(_, _, _, cell). El ''div'' [(''role'', ''gridcell'')] [] [cell c]) (columns nowMs)) #
         when_shown isExpanded [El ''div'' [] [] [Txt (c_summary c)]]))"

text \<open>\<open>sorted_by\<close> is the sorted column and its direction, if any; \<open>visible\<close> the indices in view.\<close>

definition CaseTable ::
  "int \<Rightarrow> Case list \<Rightarrow> (string \<times> bool) option \<Rightarrow> nat list \<Rightarrow> string option \<Rightarrow> string option \<Rightarrow> table_action html" where
  "CaseTable nowMs rows sorted_by visible selectedId expandedId =
     El ''div'' [(''role'', ''grid''), (''aria-rowcount'', show_int (int (length rows))), (''aria-label'', ''Case queue'')] []
       [El ''div'' [(''role'', ''row'')] []
          (map (\<lambda>(i, header, sortable, _).
             El ''button''
               ([(''type'', ''button''), (''role'', ''columnheader''),
                 (''aria-sort'', case sorted_by of
                    Some (j, desc) \<Rightarrow> if i = j then (if desc then ''descending'' else ''ascending'') else ''none''
                  | None \<Rightarrow> ''none'')] @ when_shown (\<not> sortable) [(''disabled'', ''true'')])
               [(''onClick'', ToggleSort i)] [Txt header])
             (columns nowMs :: (string \<times> string \<times> bool \<times> (Case \<Rightarrow> table_action html)) list)),
        El ''div'' [(''tabIndex'', ''0''), (''role'', ''rowgroup''), (''data-testid'', ''case-table-scroll'')] []
          (map (\<lambda>i. table_row nowMs selectedId expandedId i (rows ! i)) visible)]"

section \<open>Ticker and dismiss dialog\<close>

definition EventTicker :: "DetectorFireEvent list \<Rightarrow> rat \<Rightarrow> bool \<Rightarrow> 'a html" where
  "EventTicker fires ingestRatePerSec isConnected =
     El ''aside'' [] []
       [El ''span'' [] [] [Txt ''Live feed''],
        El ''span'' [] []
          [El ''span'' [(''className'', if isConnected then ''bg-disposition-benign'' else ''bg-text-tertiary''), (''aria-hidden'', ''true'')] [] [],
           Txt (if isConnected then ''connected'' else ''reconnecting'' @ ellipsis)],
        El ''span'' [] [] [Txt (to_fixed1 ingestRatePerSec)],
        El ''span'' [] [] [Txt ''events/sec''],
        El ''ul'' [] []
          (map (\<lambda>f. El ''li'' [] [] [El ''div'' [] [] (case fe_ruleId f of None \<Rightarrow> [] | Some r \<Rightarrow> [Txt r]), El ''div'' [] [] [Txt (fe_entity f)]]) fires @
           when_shown (fires = []) [El ''li'' [] [] [Txt (''Waiting for detector fires'' @ ellipsis)]])]"

datatype dismiss_action =
    SetReason string \<comment> \<open>typing: the whole text\<close>
  | CancelDismiss
  | ConfirmDismiss string

definition DismissDialog :: "bool \<Rightarrow> string \<Rightarrow> string \<Rightarrow> dismiss_action html" where
  "DismissDialog shown caseTitle reason =
     El ''Dialog'' [(''open'', show_bool shown)] [(''onOpenChange'', CancelDismiss)]
       [El ''DialogTitle'' [] [] [Txt ''Dismiss case''],
        El ''DialogDescription'' [] [] [Txt caseTitle],
        El ''Label'' [(''htmlFor'', ''dismiss-reason'')] [] [Txt ''Reason''],
        El ''Textarea'' [(''id'', ''dismiss-reason''), (''value'', reason), (''placeholder'', ''Why is this dismissed?''), (''autoFocus'', '''')] [] [],
        El ''Button'' [] [(''onClick'', CancelDismiss)] [Txt ''Cancel''],
        El ''Button'' (when_shown (length (trim reason) = 0) [(''disabled'', ''true'')])
          [(''onClick'', ConfirmDismiss (trim reason))] [Txt ''Dismiss'']]"

section \<open>The client component\<close>

record Patch =
  p_status :: "CaseStatus option"
  p_dismissReason :: "string option"

record Triage =
  t_filters :: FilterState
  t_selectedId :: "string option"
  t_overrides :: "(string \<times> Patch) list"
  t_dismissTarget :: "Case option"
  t_reason :: string \<comment> \<open>the dialog's own state; it survives closing\<close>

definition triage_init :: Triage where
  "triage_init = \<lparr>t_filters = emptyFilterState, t_selectedId = None, t_overrides = [], t_dismissTarget = None, t_reason = ''''\<rparr>"

definition patched :: "Patch \<Rightarrow> Case \<Rightarrow> Case" where
  "patched p c =
     c\<lparr>c_status := (case p_status p of None \<Rightarrow> c_status c | Some s \<Rightarrow> s),
       c_dismissReason := (case p_dismissReason p of None \<Rightarrow> c_dismissReason c | Some r \<Rightarrow> Some r)\<rparr>"

text \<open>An identifier without a case is \<^verbatim>\<open>undefined\<close>, and the filter rail throws on reading its fields.\<close>

definition allCases :: "CaseStreamState \<Rightarrow> Triage \<Rightarrow> Case list result" where
  "allCases stream t =
     (case those (map (\<lambda>i. map_option (\<lambda>base. case map_of (t_overrides t) i of None \<Rightarrow> base | Some p \<Rightarrow> patched p base)
                        (map_of (cs_cases stream) i)) (cs_order stream)) of
        None \<Rightarrow> Inl TypeError
      | Some cs \<Rightarrow> Inr cs)"

definition setStatus :: "string \<Rightarrow> Patch \<Rightarrow> Triage \<Rightarrow> Triage" where
  "setStatus i patch t =
     (let old = (case map_of (t_overrides t) i of None \<Rightarrow> \<lparr>p_status = None, p_dismissReason = None\<rparr> | Some p \<Rightarrow> p);
          merged = \<lparr>p_status = (case p_status patch of None \<Rightarrow> p_status old | Some s \<Rightarrow> Some s),
                    p_dismissReason = (case p_dismissReason patch of None \<Rightarrow> p_dismissReason old | Some r \<Rightarrow> Some r)\<rparr>
      in t\<lparr>t_overrides := AList.update i merged (t_overrides t)\<rparr>)"

definition selected_index :: "Case list \<Rightarrow> string option \<Rightarrow> int" where
  "selected_index filtered selectedId =
     (case selectedId of
        None \<Rightarrow> - 1
      | Some i \<Rightarrow> if i = '''' then - 1
                  else case find_index (\<lambda>c. c_id c = i) filtered of None \<Rightarrow> - 1 | Some n \<Rightarrow> int n)"

definition queue_key :: "bool \<Rightarrow> KeyEvent \<Rightarrow> Case list \<Rightarrow> Triage \<Rightarrow> Triage \<times> KeyEffect" where
  "queue_key overlay event filtered t =
     (if overlay \<or> isEditableTarget (k_target event) \<or> k_meta event \<or> k_ctrl event \<or> k_alt event then (t, no_effect)
      else if filtered = [] then (t, no_effect)
      else
        let currentIndex = selected_index filtered (t_selectedId t);
            sel = (case t_selectedId t of None \<Rightarrow> None | Some i \<Rightarrow> if i = '''' then None else Some i)
        in if k_key event = ''j'' then
             (let nextIndex = min (currentIndex + 1) (int (length filtered) - 1)
              in (t\<lparr>t_selectedId := Some (c_id (filtered ! nat (max nextIndex 0)))\<rparr>, prevent_only))
           else if k_key event = ''k'' then
             (let nextIndex = max (currentIndex - 1) 0
              in (t\<lparr>t_selectedId := Some (c_id (filtered ! nat nextIndex))\<rparr>, prevent_only))
           else case sel of
             None \<Rightarrow> (t, no_effect)
           | Some i \<Rightarrow>
               if k_key event = ''e'' then (setStatus i \<lparr>p_status = Some Escalated, p_dismissReason = None\<rparr> t, prevent_only)
               else if k_key event = ''d'' then
                 (t\<lparr>t_dismissTarget := find (\<lambda>c. c_id c = i) filtered\<rparr>, prevent_only)
               else if k_key event = ''i'' then (t, \<lparr>ke_prevent = True, ke_push = Some (''/investigation-canvas?case='' @ i)\<rparr>)
               else (t, no_effect))"

fun dismiss_do :: "dismiss_action \<Rightarrow> Triage \<Rightarrow> Triage" where
  "dismiss_do (SetReason s) t = t\<lparr>t_reason := s\<rparr>"
| "dismiss_do CancelDismiss t = t\<lparr>t_dismissTarget := None\<rparr>"
| "dismiss_do (ConfirmDismiss reason) t =
     (case t_dismissTarget t of
        None \<Rightarrow> t
      | Some c \<Rightarrow> setStatus (c_id c) \<lparr>p_status = Some Dismissed, p_dismissReason = Some reason\<rparr> t)
     \<lparr>t_reason := '''', t_dismissTarget := None\<rparr>"

text \<open>What the client renders for a loaded feed: the dialog over its four panels.\<close>

definition dismiss_view :: "Triage \<Rightarrow> dismiss_action html" where
  "dismiss_view t =
     DismissDialog (t_dismissTarget t \<noteq> None) (case t_dismissTarget t of None \<Rightarrow> '''' | Some c \<Rightarrow> c_title c) (t_reason t)"

text \<open>Steps of the component; typing is possible in the open dialog, its buttons as rendered.\<close>

inductive triage_step :: "Triage \<Rightarrow> Triage \<Rightarrow> bool" where
  key: "allCases stream t = Inr cs \<Longrightarrow>
    triage_step t (fst (queue_key overlay event (applyFilters cs (t_filters t)) t))"
| filters: "f \<in> set (actions (FilterRail cs (t_filters t))) \<Longrightarrow> triage_step t (t\<lparr>t_filters := f\<rparr>)"
| select: "triage_step t (t\<lparr>t_selectedId := Some i\<rparr>)"
| typing: "t_dismissTarget t \<noteq> None \<Longrightarrow> triage_step t (dismiss_do (SetReason s) t)"
| dialog: "t_dismissTarget t \<noteq> None \<Longrightarrow> a \<in> set (actions (dismiss_view t)) \<Longrightarrow> triage_step t (dismiss_do a t)"

inductive reachable_triage :: "Triage \<Rightarrow> bool" where
  init: "reachable_triage triage_init"
| step: "reachable_triage t \<Longrightarrow> triage_step t t' \<Longrightarrow> reachable_triage t'"

inductive_cases triage_stepE: "triage_step t t'"

section \<open>Counting and moving\<close>

lemma count_get_bump: "count_get (bump k m) k' = count_get m k' + (if k' = k then 1 else 0)"
  by (simp add: count_get_def bump_def update_conv' split: option.split)

lemma count_get_foldl: "count_get (foldl (\<lambda>n t. bump t n) m ts) k = count_get m k + count_list ts k"
  by (induction ts arbitrary: m) (simp_all add: count_get_bump)

lemma count_list_distinct: "distinct xs \<Longrightarrow> count_list xs x = (if x \<in> set xs then 1 else 0)"
  by (induction xs) auto

lemma rail_counts_snoc: "rail_counts (cs @ [c]) = count_case c (rail_counts cs)"
  by (simp add: rail_counts_def)

lemmas rail_simps = rail_counts_snoc count_case_def count_get_bump count_get_foldl

lemma rail_counts_spec:
  "count_get (rc_severity (rail_counts cs)) v = length (filter (\<lambda>c. c_severity c = v) cs)"
  "count_get (rc_disposition (rail_counts cs)) d = length (filter (\<lambda>c. c_disposition c = d) cs)"
  "count_get (rc_tenant (rail_counts cs)) t = length (filter (\<lambda>c. c_tenantId c = t) cs)"
  "rc_unassigned (rail_counts cs) = length (filter (\<lambda>c. c_assignee c = None) cs)"
  by (induction cs rule: rev_induct) (auto simp: rail_simps, simp_all add: rail_counts_def count_get_def)

lemma rail_counts_tactic:
  "list_all (\<lambda>c. distinct (c_tactics c)) cs \<Longrightarrow>
     count_get (rc_tactic (rail_counts cs)) t = length (filter (\<lambda>c. t \<in> set (c_tactics c)) cs)"
  by (induction cs rule: rev_induct) (auto simp: rail_simps count_list_distinct, simp_all add: rail_counts_def count_get_def)

lemma find_index_nth:
  assumes "distinct (map f xs)" "i < length xs"
  shows "find_index (\<lambda>x. f x = f (xs ! i)) xs = Some i"
proof -
  obtain j where j: "find_index (\<lambda>x. f x = f (xs ! i)) xs = Some j"
    using assms(2) find_index_None [of "\<lambda>x. f x = f (xs ! i)" xs] by (cases "find_index (\<lambda>x. f x = f (xs ! i)) xs") auto
  then have "j < length xs" "f (xs ! j) = f (xs ! i)" by (auto dest: find_index_Some)
  with assms have "j = i" by (metis length_map nth_eq_iff_index_eq nth_map)
  with j show ?thesis by simp
qed

lemma selected_index_nth:
  "distinct (map c_id xs) \<Longrightarrow> i < length xs \<Longrightarrow> c_id (xs ! i) \<noteq> [] \<Longrightarrow> selected_index xs (Some (c_id (xs ! i))) = int i"
  by (simp add: selected_index_def find_index_nth)

lemma selected_index_bounds: "- 1 \<le> selected_index xs s \<and> selected_index xs s < int (length xs)"
proof (cases s)
  case (Some i)
  show ?thesis
    by (cases "find_index (\<lambda>c. c_id c = i) xs") (use Some in \<open>auto simp: selected_index_def dest: find_index_Some\<close>)
qed (simp add: selected_index_def)

definition press :: "string \<Rightarrow> Case list \<Rightarrow> Triage \<Rightarrow> Triage" where
  "press key filtered t = fst (queue_key False (plain_key key) filtered t)"

abbreviation position :: "Case list \<Rightarrow> Triage \<Rightarrow> int" where
  "position filtered t \<equiv> selected_index filtered (t_selectedId t)"

text \<open>The queue as the keys see it: rows with pairwise different, non-empty identifiers.\<close>

definition queue_ok :: "Case list \<Rightarrow> bool" where
  "queue_ok filtered \<longleftrightarrow> filtered \<noteq> [] \<and> distinct (map c_id filtered) \<and> list_all (\<lambda>c. c_id c \<noteq> []) filtered"

lemma press_j_position:
  assumes "queue_ok filtered"
  shows "position filtered (press ''j'' filtered t) = min (position filtered t + 1) (int (length filtered) - 1)"
proof -
  let ?n = "nat (min (position filtered t + 1) (int (length filtered) - 1))"
  have b: "- 1 \<le> position filtered t" "0 < length filtered"
    using assms selected_index_bounds [of filtered "t_selectedId t"] by (auto simp: queue_ok_def)
  then have n: "?n < length filtered" "int ?n = min (position filtered t + 1) (int (length filtered) - 1)"
    by (cases filtered; simp add: nat_less_iff min_less_iff_disj)+
  have "t_selectedId (press ''j'' filtered t) = Some (c_id (filtered ! ?n))"
    using assms b by (simp add: press_def queue_key_def isEditableTarget_def queue_ok_def Let_def max_absorb1)
  moreover have "c_id (filtered ! ?n) \<noteq> []" using assms n(1) by (auto simp: queue_ok_def list_all_length)
  ultimately show ?thesis using assms n selected_index_nth [of filtered ?n] by (simp add: queue_ok_def)
qed

lemma press_k_position:
  assumes "queue_ok filtered"
  shows "position filtered (press ''k'' filtered t) = max (position filtered t - 1) 0"
proof -
  let ?n = "nat (max (position filtered t - 1) 0)"
  have b: "position filtered t < int (length filtered)" "0 < length filtered"
    using assms selected_index_bounds [of filtered "t_selectedId t"] by (auto simp: queue_ok_def)
  then have n: "?n < length filtered" "int ?n = max (position filtered t - 1) 0"
    by (cases filtered; simp add: nat_less_iff)+
  have "t_selectedId (press ''k'' filtered t) = Some (c_id (filtered ! ?n))"
    using assms b by (simp add: press_def queue_key_def isEditableTarget_def queue_ok_def Let_def)
  moreover have "c_id (filtered ! ?n) \<noteq> []" using assms n(1) by (auto simp: queue_ok_def list_all_length)
  ultimately show ?thesis using assms n selected_index_nth [of filtered ?n] by (simp add: queue_ok_def)
qed

lemma press_j_iter:
  "queue_ok filtered \<Longrightarrow>
     position filtered ((press ''j'' filtered ^^ n) t) = min (position filtered t + int n) (int (length filtered) - 1)"
proof (induction n)
  case 0
  then show ?case using selected_index_bounds [of filtered "t_selectedId t"] by simp
qed (auto simp: press_j_position)

lemma press_k_iter:
  "queue_ok filtered \<Longrightarrow> 0 \<le> position filtered t \<Longrightarrow>
     position filtered ((press ''k'' filtered ^^ n) t) = max (position filtered t - int n) 0"
  by (induction n) (auto simp: press_k_position)

section \<open>Dismissals\<close>

definition reasoned :: "string \<times> Patch \<Rightarrow> bool" where
  "reasoned = (\<lambda>(i, p). p_status p = Some Dismissed \<longrightarrow>
     (\<exists>r. p_dismissReason p = Some r \<and> list_ex (\<lambda>c. \<not> js_space c) r))"

lemma trim_visible:
  assumes "trim s \<noteq> []"
  shows "list_ex (\<lambda>c. \<not> js_space c) (trim s)"
proof -
  let ?d = "dropWhile js_space (rev (dropWhile js_space s))"
  have "?d \<noteq> []" using assms by (simp add: trim_def)
  from hd_dropWhile [OF this] hd_in_set [OF this] show ?thesis by (auto simp: list_ex_iff trim_def simp del: dropWhile_eq_Nil_conv)
qed

lemma setStatus_reasoned:
  assumes "list_all reasoned (t_overrides t)"
    and "p_status p = Some Dismissed \<Longrightarrow> \<exists>r. p_dismissReason p = Some r \<and> list_ex (\<lambda>c. \<not> js_space c) r"
    and "p_status p \<noteq> None"
  shows "list_all reasoned (t_overrides (setStatus i p t))"
proof -
  have "\<exists>q. t_overrides (setStatus i p t) = AList.update i q (t_overrides t) \<and> p_status q = p_status p \<and>
      (p_status p = Some Dismissed \<longrightarrow> p_dismissReason q = p_dismissReason p)"
    using assms(2,3) by (auto simp: setStatus_def Let_def split: option.split)
  then show ?thesis using assms(1,2) by (auto intro!: list_all_update simp: reasoned_def)
qed

lemma queue_key_overrides:
  "t_overrides (fst (queue_key ov e fs t)) = t_overrides t \<or>
   (\<exists>i. t_overrides (fst (queue_key ov e fs t)) = t_overrides (setStatus i \<lparr>p_status = Some Escalated, p_dismissReason = None\<rparr> t))"
  by (auto simp: queue_key_def Let_def split: option.split)

lemma dismiss_actions:
  "set (actions (dismiss_view t)) \<subseteq> {CancelDismiss} \<union> (if trim (t_reason t) = [] then {} else {ConfirmDismiss (trim (t_reason t))})"
  by (auto simp: dismiss_view_def DismissDialog_def)

lemma triage_step_reasoned:
  assumes "triage_step t t'" "list_all reasoned (t_overrides t)"
  shows "list_all reasoned (t_overrides t')"
  using assms(1)
proof cases
  case (key stream cs overlay event)
  with assms(2) setStatus_reasoned [OF assms(2)] queue_key_overrides [of overlay event "applyFilters cs (t_filters t)" t]
  show ?thesis by (metis (no_types, lifting) CaseStatus.distinct Patch.select_convs(1) option.distinct(1) option.inject)
next
  case (dialog a)
  then consider "a = CancelDismiss" | "a = ConfirmDismiss (trim (t_reason t))" "trim (t_reason t) \<noteq> []"
    using dismiss_actions [of t] by (auto split: if_splits)
  then show ?thesis
  proof cases
    case 2
    with dialog assms(2) show ?thesis
      by (auto split: option.split intro!: setStatus_reasoned trim_visible)
  qed (use dialog assms(2) in simp)
qed (use assms(2) in simp_all)

lemma reachable_triage_reasoned: "reachable_triage t \<Longrightarrow> list_all reasoned (t_overrides t)"
  by (induction rule: reachable_triage.induct) (auto simp: triage_init_def intro: triage_step_reasoned)

section \<open>Properties\<close>

text \<open>
  C27: no case is dismissed without a reason. In every state the component can reach through keys,
  clicks, typing and the buttons as rendered, an override that dismisses a case carries a reason
  with at least one visible character.
\<close>

theorem dismissed_with_reason:
  assumes "reachable_triage t" and "map_of (t_overrides t) i = Some p" and "p_status p = Some Dismissed"
  shows "\<exists>r. p_dismissReason p = Some r \<and> list_ex (\<lambda>c. \<not> js_space c) r"
  using reachable_triage_reasoned [OF assms(1)] map_of_SomeD [OF assms(2)] assms(3)
  by (auto simp: list_all_iff reasoned_def)

definition sample_triage :: Triage where
  "sample_triage =
     dismiss_do (ConfirmDismiss ''benign scan'')
       (triage_init\<lparr>t_selectedId := Some (c_id sample_case), t_dismissTarget := Some sample_case, t_reason := '' benign scan ''\<rparr>)"

definition sample_feed :: CaseStreamState where
  "sample_feed = seed_cases [sample_case] stream_init"

lemma sample_triage_reachable: "reachable_triage sample_triage"
proof -
  let ?t1 = "triage_init\<lparr>t_selectedId := Some (c_id sample_case)\<rparr>"
  let ?t2 = "?t1\<lparr>t_dismissTarget := Some sample_case\<rparr>" and ?t3 = "?t1\<lparr>t_dismissTarget := Some sample_case, t_reason := '' benign scan ''\<rparr>"
  have all: "allCases sample_feed ?t1 = Inr [sample_case]" by code_simp
  have "fst (queue_key False (plain_key ''d'') (applyFilters [sample_case] (t_filters ?t1)) ?t1) = ?t2" by code_simp
  with triage_step.key [OF all, of False "plain_key ''d''"] have s2: "triage_step ?t1 ?t2" by simp
  have s1: "triage_step triage_init ?t1" by (rule triage_step.select)
  have s3: "triage_step ?t2 ?t3" using triage_step.typing [of ?t2 "'' benign scan ''"] by simp
  have "ConfirmDismiss ''benign scan'' \<in> set (actions (dismiss_view ?t3))" by code_simp
  then have s4: "triage_step ?t3 sample_triage" unfolding sample_triage_def by (intro triage_step.dialog) simp_all
  show ?thesis
    using reachable_triage.init s1 s2 s3 s4 by (meson reachable_triage.step)
qed

theorem dismissed_with_reason_witness:
  "\<exists>p r. map_of (t_overrides sample_triage) (c_id sample_case) = Some p \<and> p_dismissReason p = Some r \<and> list_ex (\<lambda>c. \<not> js_space c) r"
proof -
  have "map_of (t_overrides sample_triage) (c_id sample_case) = Some \<lparr>p_status = Some Dismissed, p_dismissReason = Some ''benign scan''\<rparr>"
    by code_simp
  with dismissed_with_reason [OF sample_triage_reachable this] show ?thesis by simp
qed

text \<open>
  The counts of the filter rail are what the filters leave. For every option of every dimension
  the number shown beside it is the number of rows that remain when that option alone is ticked.
\<close>

theorem filter_counts:
  assumes "list_all (\<lambda>c. distinct (c_tactics c)) cases"
  shows "count_get (rc_severity (rail_counts cases)) v =
      length (applyFilters cases (emptyFilterState\<lparr>f_severities := toggle [] v\<rparr>)) \<and>
    count_get (rc_disposition (rail_counts cases)) d =
      length (applyFilters cases (emptyFilterState\<lparr>f_dispositions := toggle [] d\<rparr>)) \<and>
    count_get (rc_tenant (rail_counts cases)) tenant =
      length (applyFilters cases (emptyFilterState\<lparr>f_tenants := toggle [] tenant\<rparr>)) \<and>
    count_get (rc_tactic (rail_counts cases)) tac =
      length (applyFilters cases (emptyFilterState\<lparr>f_tactics := toggle [] tac\<rparr>)) \<and>
    rc_unassigned (rail_counts cases) = length (applyFilters cases (emptyFilterState\<lparr>f_unassignedOnly := True\<rparr>))"
proof -
  have "(\<exists>t \<in> set ts. t = tac) \<longleftrightarrow> tac \<in> set ts" for ts :: "Tactic list" by blast
  then show ?thesis
    using rail_counts_tactic [OF assms]
    by (simp add: rail_counts_spec applyFilters_def passes_def emptyFilterState_def toggle_def set_add_def list_ex_iff
        cong: filter_cong)
qed

theorem filter_counts_witness:
  "count_get (rc_tactic (rail_counts [sample_case])) (hd (c_tactics sample_case)) =
     length (applyFilters [sample_case] (emptyFilterState\<lparr>f_tactics := toggle [] (hd (c_tactics sample_case))\<rparr>))"
proof -
  have "list_all (\<lambda>c. distinct (c_tactics c)) [sample_case]" by (simp add: sample_case_def)
  from filter_counts [OF this] show ?thesis by blast
qed

text \<open>
  The keys reach every case of the queue. On a queue with pairwise different identifiers, \<open>m + 1\<close>
  presses of \<^verbatim>\<open>j\<close> without a selection select row \<open>m\<close> (the last row from then on), and from any row
  \<^verbatim>\<open>k\<close> walks back to the first.
\<close>

theorem queue_keys_reach_all:
  assumes "queue_ok filtered" and "t_selectedId t = None"
  shows "position filtered ((press ''j'' filtered ^^ Suc m) t) = int (min m (length filtered - 1)) \<and>
    position filtered ((press ''k'' filtered ^^ n) ((press ''j'' filtered ^^ Suc m) t)) = int (min m (length filtered - 1) - n)"
proof -
  have "position filtered t = - 1" using assms(2) by (simp add: selected_index_def)
  with press_j_iter [OF assms(1), of "Suc m" t] have "position filtered ((press ''j'' filtered ^^ Suc m) t) = int (min m (length filtered - 1))"
    using assms(1) by (cases filtered) (simp_all add: queue_ok_def)
  moreover have "int (a - n) = max (int a - int n) 0" for a by (simp add: max_def)
  ultimately show ?thesis
    using press_k_iter [OF assms(1), of "(press ''j'' filtered ^^ Suc m) t" n] by (simp del: funpow.simps)
qed

theorem queue_keys_reach_all_witness:
  "position [sample_case] ((press ''j'' [sample_case] ^^ Suc 0) triage_init) = 0"
proof -
  have "queue_ok [sample_case]" by (simp add: queue_ok_def sample_case_def)
  from queue_keys_reach_all [OF this, of triage_init 0] show ?thesis by (simp add: triage_init_def)
qed

text \<open>
  The keys move through the filtered cases in feed order, the table shows them by descending risk:
  with two cases the first \<^verbatim>\<open>j\<close> selects the one of lower risk although it is displayed second.
\<close>

lemma queue_keys_ignore_sorting:
  "let low = sample_case\<lparr>c_riskScore := 100\<rparr>; high = sample_case\<lparr>c_id := ''case-1'', c_riskScore := 9000\<rparr>;
       displayed = sort_key (\<lambda>c. - c_riskScore c) [low, high]
   in displayed = [high, low] \<and> t_selectedId (press ''j'' [low, high] triage_init) = Some (c_id low)"
  by code_simp

end
