(* ===== verification/Verdict_Ledger.thy ===== *)
theory Verdict_Ledger
  imports Api Watchfloor
begin

text \<open>
  The verdict ledger and the drift monitor, \<^verbatim>\<open>web/src/components/verdict-ledger\<close> and
  \<^verbatim>\<open>web/src/components/drift-monitor\<close>: the table of sealed manifests, the link of the hash chain, the panel
  that verifies a manifest in the browser (claims, evidence proofs, kernel, verdict hash), and the rows of the drift
  report. The panel talks to the handlers of \<^verbatim>\<open>Api\<close>; the kernel module is a parameter, as in \<^verbatim>\<open>Ledger\<close>.
\<close>

section \<open>The verification panel\<close>

datatype StepStatus = StepPending | StepActive | StepDone | StepFailed

record Step =
  stp_id :: string
  stp_label :: string
  stp_status :: StepStatus

definition INITIAL_STEPS :: "Step list" where
  "INITIAL_STEPS =
     [\<lparr>stp_id = ''fetch'', stp_label = ''Fetch claim set'', stp_status = StepPending\<rparr>,
      \<lparr>stp_id = ''evidence'', stp_label = ''Verify evidence inclusion'', stp_status = StepPending\<rparr>,
      \<lparr>stp_id = ''kernel'', stp_label = ''Run kernel (WASM, in-browser)'', stp_status = StepPending\<rparr>,
      \<lparr>stp_id = ''compare'', stp_label = ''Compare verdict hash'', stp_status = StepPending\<rparr>]"

datatype outcome = ResultIdle | ResultMatch | ResultMismatch | ResultError

record Panel =
  vp_steps :: "Step list"
  vp_result :: outcome
  vp_recomputedHash :: "string option"
  vp_errorMsg :: "string option"
  vp_tampered :: bool
  vp_running :: bool

definition panel_init :: Panel where
  "panel_init = \<lparr>vp_steps = INITIAL_STEPS, vp_result = ResultIdle, vp_recomputedHash = None, vp_errorMsg = None,
     vp_tampered = False, vp_running = False\<rparr>"

definition setStep :: "string \<Rightarrow> StepStatus \<Rightarrow> Panel \<Rightarrow> Panel" where
  "setStep i status s = s\<lparr>vp_steps := map (\<lambda>step. if stp_id step = i then step\<lparr>stp_status := status\<rparr> else step) (vp_steps s)\<rparr>"

text \<open>
  \<^verbatim>\<open>fetchClaims\<close> does not look at the status: an error body has no \<^verbatim>\<open>claims\<close>, and reading their length throws.
  \<^verbatim>\<open>fetchProof\<close> returns null unless the response is ok.
\<close>

definition fetchClaims :: "ClaimsBody http \<Rightarrow> ClaimsBody result" where
  "fetchClaims resp = (case resp of HttpOk b \<Rightarrow> Inr b | _ \<Rightarrow> Inl TypeError)"

definition fetchProof :: "InclusionProof http \<Rightarrow> InclusionProof option" where
  "fetchProof resp = (case resp of HttpOk p \<Rightarrow> Some p | _ \<Rightarrow> None)"

fun all_included :: "hash_fun \<Rightarrow> (string \<Rightarrow> InclusionProof http) \<Rightarrow> string list \<Rightarrow> bool" where
  "all_included blake3 prf [] \<longleftrightarrow> True"
| "all_included blake3 prf (i # is) \<longleftrightarrow>
     (case fetchProof (prf i) of
        None \<Rightarrow> False
      | Some p \<Rightarrow> if verifyInclusion blake3 i p then all_included blake3 prf is else False)"

text \<open>The demonstration of a tampered claim: the first observed value, raised by 999999.\<close>

definition tamper :: "LedgerClaim list \<Rightarrow> LedgerClaim list" where
  "tamper claims =
     (case claims of
        [] \<Rightarrow> []
      | c # cs \<Rightarrow> c\<lparr>lc_observed_value := Some (num_add (case lc_observed_value c of None \<Rightarrow> 0 | Some v \<Rightarrow> v) 999999)\<rparr> # cs)"

definition panel_request :: "bool \<Rightarrow> SealedManifest \<Rightarrow> ClaimsBody \<Rightarrow> KernelRequest" where
  "panel_request withTamper sealed body =
     \<lparr>kr_kernel_version = m_kernel_version (sm_manifest sealed), kr_policy = cb_policy body,
      kr_claims = map ledger_claim_json (if withTamper then tamper (cb_claims body) else cb_claims body)\<rparr>"

text \<open>
  The body of the \<^verbatim>\<open>try\<close> block: the state it leaves, and the exception it ends with, if any. \<open>claims\<close> and \<open>prf\<close>
  answer the two requests for an investigation, \<open>k\<close> is \<^verbatim>\<open>verifyClaimSet\<close>.
\<close>

definition verification_body ::
  "hash_fun \<Rightarrow> (string \<Rightarrow> ClaimsBody http) \<Rightarrow> (string \<Rightarrow> string \<Rightarrow> InclusionProof http) \<Rightarrow> kernel_call \<Rightarrow> bool \<Rightarrow>
     SealedManifest \<Rightarrow> Panel \<Rightarrow> js_error option \<times> Panel" where
  "verification_body blake3 claims prf k withTamper sealed s =
     (let investigationId = m_investigation_id (sm_manifest sealed); s = setStep ''fetch'' StepActive s in
      case fetchClaims (claims investigationId) of
        Inl e \<Rightarrow> (Some e, s)
      | Inr body \<Rightarrow>
          if cb_claims body = [] then (Some (Thrown ''no claims returned for this investigation''), s)
          else let s = setStep ''evidence'' StepActive (setStep ''fetch'' StepDone s) in
            if \<not> all_included blake3 (prf investigationId) (evidence_set (cb_claims body))
            then (None, (setStep ''evidence'' StepFailed s)\<lparr>vp_result := ResultMismatch,
                    vp_errorMsg := Some ''An evidence hash failed inclusion verification against the epoch root.''\<rparr>)
            else let s = setStep ''kernel'' StepActive (setStep ''evidence'' StepDone s) in
              case k (panel_request withTamper sealed body) of
                Inl e \<Rightarrow> (Some e, s)
              | Inr (KernelError msg) \<Rightarrow> (None, (setStep ''kernel'' StepFailed s)\<lparr>vp_result := ResultError, vp_errorMsg := Some msg\<rparr>)
              | Inr (KernelOk verdict) \<Rightarrow>
                  (let s = (setStep ''compare'' StepActive (setStep ''kernel'' StepDone s))\<lparr>vp_recomputedHash := Some (kv_verdict_hash verdict)\<rparr>;
                       matches = (kv_verdict_hash verdict = m_verdict_hash (sm_manifest sealed))
                   in (None, (setStep ''compare'' (if matches then StepDone else StepFailed) s)
                         \<lparr>vp_result := (if matches then ResultMatch else ResultMismatch)\<rparr>)))"

text \<open>\<^verbatim>\<open>err.message\<close>: of an error the program threw its text, otherwise the engine's (\<open>engine_text\<close>).\<close>

definition error_message :: "(js_error \<Rightarrow> string) \<Rightarrow> js_error \<Rightarrow> string" where
  "error_message engine_text e = (case e of Thrown msg \<Rightarrow> msg | _ \<Rightarrow> engine_text e)"

definition runVerification ::
  "(js_error \<Rightarrow> string) \<Rightarrow> hash_fun \<Rightarrow> (string \<Rightarrow> ClaimsBody http) \<Rightarrow> (string \<Rightarrow> string \<Rightarrow> InclusionProof http) \<Rightarrow> kernel_call \<Rightarrow> bool \<Rightarrow>
     SealedManifest \<Rightarrow> Panel" where
  "runVerification engine_text blake3 claims prf k withTamper sealed =
     (let started = \<lparr>vp_steps = INITIAL_STEPS, vp_result = ResultIdle, vp_recomputedHash = None, vp_errorMsg = None,
                     vp_tampered = withTamper, vp_running = True\<rparr>
      in case verification_body blake3 claims prf k withTamper sealed started of
           (None, s) \<Rightarrow> s\<lparr>vp_running := False\<rparr>
         | (Some e, s) \<Rightarrow> s\<lparr>vp_result := ResultError, vp_errorMsg := Some (error_message engine_text e), vp_running := False\<rparr>)"

text \<open>The exported file: its name and the document \<^verbatim>\<open>JSON.stringify\<close> lays out.\<close>

definition exportBundle :: "SealedManifest \<Rightarrow> string \<times> json" where
  "exportBundle sealed =
     (m_investigation_id (sm_manifest sealed) @ ''-evidence-bundle.json'',
      JObj [(''manifest'', manifest_json (sm_manifest sealed)), (''manifest_hash'', JStr (sm_manifest_hash sealed)),
        (''signature'', JStr (sm_signature sealed)), (''public_key'', JStr (sm_public_key sealed)),
        (''note'', JStr (''Synthetic Phase 11 demo bundle -- see phases/reports/PHASE-11.md for what'' @ [CHR 0x27] @
           ''s real (kernel verification) vs. synthetic (manifest signature/chain) in this export.''))])"

datatype panel_action = RunVerification bool | ExportBundle

definition step_icon :: "StepStatus \<Rightarrow> string" where
  "step_icon st = (case st of StepPending \<Rightarrow> ''span'' | StepActive \<Rightarrow> ''Loader2'' | StepDone \<Rightarrow> ''CheckCircle2'' | StepFailed \<Rightarrow> ''XCircle'')"

definition VerificationPanel :: "SealedManifest \<Rightarrow> Panel \<Rightarrow> panel_action html" where
  "VerificationPanel sealed s =
     (let busy = when_shown (vp_running s) [(''disabled'', ''true'')] in
      El ''div'' [] []
        ([El ''button'' ((''data-testid'', ''run-verification'') # busy) [(''onClick'', RunVerification False)]
            (when_shown (vp_running s \<and> \<not> vp_tampered s) [El ''Loader2'' [] [] []] @ [Txt ''Verify'']),
          El ''button'' ((''data-testid'', ''run-tamper-demo'') # busy) [(''onClick'', RunVerification True)] [Txt ''Simulate tampered claim''],
          El ''button'' [(''data-testid'', ''export-bundle'')] [(''onClick'', ExportBundle)] [Txt ''Export evidence bundle''],
          El ''ul'' [(''data-testid'', ''verification-steps'')] []
            (map (\<lambda>step. El ''li'' [] [] [El (step_icon (stp_status step)) [] [] [], El ''span'' [] [] [Txt (stp_label step)]]) (vp_steps s))] @
         when_shown (vp_result s = ResultMatch)
           [El ''div'' [(''data-testid'', ''verification-seal'')] []
              [Txt ''Verified'', Txt (case vp_recomputedHash s of None \<Rightarrow> [] | Some h \<Rightarrow> h)]] @
         when_shown (vp_result s = ResultMismatch)
           [El ''div'' [(''data-testid'', ''verification-broken'')] []
              (Txt (if vp_tampered s then ''Verification failed (expected -- claim set was tampered)'' else ''Verification failed'') #
               concat (map (\<lambda>h. when_shown (h \<noteq> []) [Txt (''stored: '' @ m_verdict_hash (sm_manifest sealed)), Txt (''recomputed: '' @ h)])
                 (opt_list (vp_recomputedHash s))) @
               concat (map (\<lambda>e. when_shown (e \<noteq> []) [Txt e]) (opt_list (vp_errorMsg s))))] @
         concat (map (\<lambda>e. when_shown (vp_result s = ResultError \<and> e \<noteq> []) [El ''div'' [] [] [Txt e]]) (opt_list (vp_errorMsg s)))))"

section \<open>Table, chain and page\<close>

definition ledger_age :: "int \<Rightarrow> int \<Rightarrow> string" where
  "ledger_age nowMs ns =
     (let deltaS = max 0 (js_round (js_div (js_sub (of_int nowMs) (js_div (of_int ns) 1000000)) 1000)) in
      if deltaS < 60 then show_int deltaS @ ''s''
      else if deltaS < 3600 then show_int (js_round (js_div (of_int deltaS) 60)) @ ''m''
      else if deltaS < 86400 then show_int (js_round (js_div (of_int deltaS) 3600)) @ ''h''
      else show_int (js_round (js_div (of_int deltaS) 86400)) @ ''d'')"

text \<open>The severity of a manifest or a drift is the kernel's string; the class of an unknown one is undefined.\<close>

definition severity_span :: "string \<Rightarrow> 'a html" where
  "severity_span sev =
     El ''span'' [(''className'', if sev \<in> severity_name ` set SEVERITIES then ''text-severity-'' @ sev else ''undefined'')] [] [Txt sev]"

definition gridcell :: "'a html \<Rightarrow> 'a html" where
  "gridcell h = El ''div'' [(''role'', ''gridcell'')] [] [h]"

definition manifest_row :: "int \<Rightarrow> string option \<Rightarrow> SealedManifest \<Rightarrow> string html" where
  "manifest_row nowMs selectedId sealed =
     (let m = sm_manifest sealed; i = m_investigation_id m in
      El ''div'' [(''role'', ''row''), (''aria-selected'', show_bool (selectedId = Some i)), (''tabIndex'', ''0'')]
        [(''onClick'', i), (''onKeyDown'', i)]
        [gridcell (Txt i), gridcell (severity_span (m_verdict_severity m)), gridcell (Txt (inf_model_id (m_inference m))),
         gridcell (Txt (m_policy_version m)), gridcell (Txt (show_int (m_epoch_id m))),
         gridcell (Txt (ledger_age nowMs (m_completed_at_ns m))),
         gridcell (El ''span'' [] [] [Txt (if sm_chainBroken sealed then ''broken'' else ''ok'')])])"

text \<open>The rows select on a click, and on Enter and space.\<close>

definition row_key :: "string \<Rightarrow> bool" where
  "row_key key \<longleftrightarrow> key = ''Enter'' \<or> key = '' ''"

definition ManifestTable :: "int \<Rightarrow> SealedManifest list \<Rightarrow> string option \<Rightarrow> string html" where
  "ManifestTable nowMs manifests selectedId =
     El ''div'' [(''role'', ''grid''), (''aria-label'', ''Sealed manifests'')] []
       (El ''div'' [(''role'', ''row'')] []
          (map (\<lambda>h. El ''div'' [(''role'', ''columnheader'')] [] [Txt h])
             [''Investigation'', ''Verdict'', ''Model'', ''Policy'', ''Epoch'', ''Age'', ''Chain'']) #
        map (manifest_row nowMs selectedId) manifests)"

definition short_hash :: "string \<Rightarrow> string" where
  "short_hash hash = take 10 hash @ ellipsis @ drop (length hash - 6) hash"

definition HashChain :: "SealedManifest \<Rightarrow> 'a html" where
  "HashChain sealed =
     El ''div'' [(''data-testid'', if sm_chainBroken sealed then ''hash-chain-broken'' else ''hash-chain-ok'')] []
       ([El ''span'' [] [] [Txt (short_hash (m_prev_manifest_hash (sm_manifest sealed)))], El ''span'' [(''aria-hidden'', ''true'')] [] [Txt arrow_right],
         El ''span'' [] [] [Txt (short_hash (sm_manifest_hash sealed))]] @
        when_shown (sm_chainBroken sealed) [El ''span'' [] [] [Txt ''chain broken'']])"

text \<open>The selection the page uses: the first manifest while nothing is selected.\<close>

definition ledger_selection :: "SealedManifest list \<Rightarrow> string option \<Rightarrow> string option" where
  "ledger_selection manifests selectedId =
     (if (selectedId = None \<or> selectedId = Some []) \<and> manifests \<noteq> []
      then Some (m_investigation_id (sm_manifest (hd manifests))) else selectedId)"

definition selected_manifest :: "SealedManifest list \<Rightarrow> string option \<Rightarrow> SealedManifest option" where
  "selected_manifest manifests selectedId = find (\<lambda>m. Some (m_investigation_id (sm_manifest m)) = selectedId) manifests"

datatype ledger_action = SelectManifest string | PanelDo panel_action

definition VerdictLedgerClient ::
  "int \<Rightarrow> SealedManifest list option \<Rightarrow> string option \<Rightarrow> Panel \<Rightarrow> ledger_action html" where
  "VerdictLedgerClient nowMs answer selectedId s =
     (case answer of
        None \<Rightarrow> El ''div'' [] [] [Txt (''Loading ledger'' @ ellipsis)]
      | Some manifests \<Rightarrow>
          if manifests = []
          then EmptyState ''No sealed manifests yet''
            ''Manifests appear here once investigations close and seal (services/adjudicate, Phase 7).''
            ''Waiting on sealed investigations''
          else El ''div'' [] []
            [map_html SelectManifest (ManifestTable nowMs manifests (ledger_selection manifests selectedId)),
             (case selected_manifest manifests (ledger_selection manifests selectedId) of
                None \<Rightarrow> El ''div'' [] [] [Txt ''Select a manifest to verify it.'']
              | Some sealed \<Rightarrow> El ''div'' [] []
                  [El ''div'' [] [] [Txt ''Investigation''], El ''div'' [] [] [Txt (m_investigation_id (sm_manifest sealed))],
                   HashChain sealed, map_html PanelDo (VerificationPanel sealed s)])])"

section \<open>The drift monitor\<close>

datatype drift_action = ToggleRow | Reopen VerdictDrift

definition signed_weight :: "int \<Rightarrow> string" where
  "signed_weight w = (if w \<ge> 0 then ''+'' else []) @ show_int w"

definition AttributionTable :: "string \<Rightarrow> AttributedClaim list \<Rightarrow> 'a html" where
  "AttributionTable title claims =
     El ''div'' [] []
       [El ''div'' [] [] [Txt title],
        El ''ul'' [] [] (map (\<lambda>c. El ''li'' [] []
          [El ''span'' [] [] [Txt (ac_predicate c)],
           El ''span'' [(''className'', if ac_attributed_weight c \<ge> 0 then ''text-disposition-benign'' else ''text-severity-high'')] []
             [Txt (signed_weight (ac_attributed_weight c))]]) claims)]"

text \<open>\<open>date_text\<close> is \<^verbatim>\<open>toLocaleDateString\<close>; a missing identifier leaves \<^verbatim>\<open>undefined\<close>, which renders as nothing.\<close>

definition DriftRow :: "(int \<Rightarrow> string) \<Rightarrow> VerdictDrift \<Rightarrow> bool \<Rightarrow> drift_action html" where
  "DriftRow date_text d expanded =
     El ''div'' [(''data-testid'', ''drift-row'')] []
       (El ''button'' [(''type'', ''button''), (''aria-expanded'', show_bool expanded)] [(''onClick'', ToggleRow)]
          [El ''span'' [] [] [Txt (vd_case_id d)],
           severity_span (vd_old_severity d), El ''span'' [(''aria-hidden'', ''true'')] [] [Txt arrow_right], severity_span (vd_new_severity d),
           El ''span'' [] [] [Txt (''closed '' @ date_text (vd_closed_at_ms d))], El ''span'' [] [] [Txt (''flipped '' @ date_text (vd_flipped_at_ms d))]] #
        when_shown expanded
          [El ''div'' [] []
             (El ''div'' [] [] [Txt ''Responsible claim & policy delta''] #
              map (\<lambda>pd. El ''p'' [] []
                [Txt (''Claim '' @ take 12 (concat (take 1 (vd_responsible_claim_ids d))) @ ellipsis @ '' ('' @ pd_predicate pd @ '') weight ''),
                 El ''span'' [] [] [Txt (show_int (pd_old_weight pd))], Txt ('' '' @ arrow_right @ '' ''),
                 El ''span'' [] [] [Txt (show_int (pd_new_weight pd))]]) (vd_policy_deltas d) @
              [El ''p'' [] [] [Txt (''indicator corpus '' @ vd_indicator_corpus_version d @ '' ('' @ take 12 (vd_indicator_corpus_hash d) @ ellipsis @ '')'')],
               AttributionTable ''Before'' (vd_old_contributing_claims d), AttributionTable ''After'' (vd_new_contributing_claims d),
               El ''div'' [] [] [Txt (take 12 (vd_old_verdict_hash d) @ ellipsis @ '' '' @ arrow_right @ '' '' @ take 12 (vd_new_verdict_hash d) @ ellipsis)],
               El ''button'' [(''data-testid'', ''reopen-investigation'')] [(''onClick'', Reopen d)] [Txt ''Reopen investigation'']])])"

definition reopen :: "VerdictDrift \<Rightarrow> string" where
  "reopen d = ''/investigation-canvas?case='' @ vd_case_id d"

definition DriftMonitorClient :: "(int \<Rightarrow> string) \<Rightarrow> (VerdictDrift \<Rightarrow> bool) \<Rightarrow> VerdictDrift list option \<Rightarrow> (VerdictDrift \<times> drift_action) html" where
  "DriftMonitorClient date_text expanded answer =
     (case answer of
        None \<Rightarrow> El ''div'' [] [] [Txt (''Loading drift sweep'' @ ellipsis)]
      | Some drifts \<Rightarrow>
          if drifts = []
          then EmptyState ''No drift this sweep''
            (''Every closed case'' @ [CHR 0x27] @ ''s verdict still matches the current policy -- nothing to reopen.'')
            ''RVD sweep found zero flips''
          else El ''div'' [(''data-testid'', ''drift-list'')] []
            (map (\<lambda>d. map_html (Pair d) (DriftRow date_text d (expanded d))) drifts))"

section \<open>What the panel establishes\<close>

lemma all_included_iff:
  "all_included blake3 prf is \<longleftrightarrow> (\<forall>i \<in> set is. \<exists>p. prf i = HttpOk p \<and> verifyInclusion blake3 i p)"
  by (induction "is") (auto simp: fetchProof_def split: http.splits)

context proof_service begin

lemma serves_all: "built k \<Longrightarrow> set is \<subseteq> listed k \<Longrightarrow> all_included blake3 (serve k) is"
  unfolding all_included_iff using serves by blast

end

definition all_done :: "Step list" where
  "all_done = map (\<lambda>s. s\<lparr>stp_status := StepDone\<rparr>) INITIAL_STEPS"

lemmas panel_simps = runVerification_def verification_body_def setStep_def INITIAL_STEPS_def all_done_def Let_def

lemma verification_match:
  assumes "claims (m_investigation_id (sm_manifest sealed)) = HttpOk body" "cb_claims body \<noteq> []"
    and "all_included blake3 (prf (m_investigation_id (sm_manifest sealed))) (evidence_set (cb_claims body))"
    and "k (panel_request withTamper sealed body) = Inr (KernelOk v)"
    and "kv_verdict_hash v = m_verdict_hash (sm_manifest sealed)"
  shows "runVerification engine_text blake3 claims prf k withTamper sealed =
    \<lparr>vp_steps = all_done, vp_result = ResultMatch, vp_recomputedHash = Some (m_verdict_hash (sm_manifest sealed)),
     vp_errorMsg = None, vp_tampered = withTamper, vp_running = False\<rparr>"
  using assms by (simp add: panel_simps fetchClaims_def)

lemma verification_only_match:
  assumes "vp_result (runVerification engine_text blake3 claims prf k withTamper sealed) = ResultMatch"
  obtains body v where "claims (m_investigation_id (sm_manifest sealed)) = HttpOk body" "cb_claims body \<noteq> []"
    "all_included blake3 (prf (m_investigation_id (sm_manifest sealed))) (evidence_set (cb_claims body))"
    "k (panel_request withTamper sealed body) = Inr (KernelOk v)"
    "kv_verdict_hash v = m_verdict_hash (sm_manifest sealed)"
  using assms
  by (auto simp: panel_simps fetchClaims_def split: http.splits sum.splits if_splits KernelResult.splits)

text \<open>Of the sealed manifest a run reads three fields.\<close>

lemma verification_fields:
  assumes "m_investigation_id (sm_manifest sealed) = m_investigation_id (sm_manifest sealed')"
    and "m_kernel_version (sm_manifest sealed) = m_kernel_version (sm_manifest sealed')"
    and "m_verdict_hash (sm_manifest sealed) = m_verdict_hash (sm_manifest sealed')"
  shows "runVerification engine_text blake3 claims prf k withTamper sealed = runVerification engine_text blake3 claims prf k withTamper sealed'"
  unfolding runVerification_def verification_body_def panel_request_def assms ..

lemma verification_ends:
  "\<not> vp_running (runVerification engine_text blake3 claims prf k withTamper sealed) \<and>
   vp_result (runVerification engine_text blake3 claims prf k withTamper sealed) \<noteq> ResultIdle"
  by (auto simp: panel_simps split: sum.splits KernelResult.splits)

text \<open>
  The behaviour of the kernel the comparison relies on (\<^verbatim>\<open>kernel/wasm_bridge\<close>): a field of a claim it does not know,
  such as \<^verbatim>\<open>claim_id\<close>, is ignored, and a verdict names the kernel version of its request.
\<close>

definition kernel_reads_claims :: "kernel_call \<Rightarrow> bool" where
  "kernel_reads_claims k \<longleftrightarrow>
     (\<forall>version cs. list_all sealable (map RawClaim.truncate cs) \<longrightarrow>
        k \<lparr>kr_kernel_version = version, kr_policy = buildSyntheticPolicy, kr_claims = map ledger_claim_json cs\<rparr> =
        k \<lparr>kr_kernel_version = version, kr_policy = buildSyntheticPolicy, kr_claims = map raw_claim_json (map RawClaim.truncate cs)\<rparr>) \<and>
     (\<forall>r v. posted r \<and> k r = Inr (KernelOk v) \<longrightarrow> kv_kernel_version v = kr_kernel_version r)"

lemma sealed_request:
  assumes "sealed_entry blake3 k t c prev broken x" "kernel_reads_claims k"
    and "cb_claims body = ld_claims (snd x)" "cb_policy body = buildSyntheticPolicy"
  obtains v where "k (panel_request False (fst x) body) = Inr (KernelOk v)" "kv_verdict_hash v = m_verdict_hash (sm_manifest (fst x))"
proof -
  obtain v where v: "adjudicated k (map RawClaim.truncate (ld_claims (snd x))) = Inr v"
    "m_verdict_hash (sm_manifest (fst x)) = kv_verdict_hash v" "m_kernel_version (sm_manifest (fst x)) = kv_kernel_version v"
    using assms(1) by (auto simp: sealed_entry_def Let_def)
  let ?r = "\<lparr>kr_kernel_version = KERNEL_VERSION, kr_policy = buildSyntheticPolicy,
    kr_claims = map raw_claim_json (map RawClaim.truncate (ld_claims (snd x)))\<rparr>"
  have r: "k ?r = Inr (KernelOk v)"
    using v(1) by (auto simp: adjudicated_def split: sum.splits KernelResult.splits)
  have "posted ?r" unfolding console_claims_posted using policy_weights_keys by (simp add: buildSyntheticPolicy_def)
  with r have "kv_kernel_version v = KERNEL_VERSION"
    using assms(2) [unfolded kernel_reads_claims_def, THEN conjunct2, rule_format, of ?r v] by simp
  with v(3) assms(3,4) have "panel_request False (fst x) body =
      \<lparr>kr_kernel_version = KERNEL_VERSION, kr_policy = buildSyntheticPolicy, kr_claims = map ledger_claim_json (ld_claims (snd x))\<rparr>"
    by (simp add: panel_request_def)
  also have "k \<dots> = k ?r"
    by (rule assms(2) [unfolded kernel_reads_claims_def, THEN conjunct1, rule_format])
       (use assms(1) in \<open>simp add: sealed_entry_def Let_def\<close>)
  finally show thesis using that [of v] r v(2) by simp
qed

lemma entry_verifies:
  assumes "sealed_entry blake3 k t c prev broken x" "kernel_reads_claims k"
    and "map_of (lg_caseData L) (ld_investigationId (snd x)) = Some (snd x)" "lg_policy L = buildSyntheticPolicy"
  shows "runVerification engine_text blake3 (claims_GET (Inr L)) (ledger_proof_GET (Inr L)) k False (fst x) =
    \<lparr>vp_steps = all_done, vp_result = ResultMatch, vp_recomputedHash = Some (m_verdict_hash (sm_manifest (fst x))),
     vp_errorMsg = None, vp_tampered = False, vp_running = False\<rparr>"
proof -
  let ?d = "snd x"
  let ?body = "\<lparr>cb_claims = ld_claims ?d, cb_policy = lg_policy L, cb_evidenceIds = ld_evidenceIds ?d, cb_merkleRoot = ld_merkleRoot ?d\<rparr>"
  have i: "m_investigation_id (sm_manifest (fst x)) = ld_investigationId ?d" and ne: "ld_claims ?d \<noteq> []"
    using assms(1) by (simp_all add: sealed_entry_def Let_def)
  have ok: "entry_ok blake3 ?d" by (rule sealed_entry_ok [OF assms(1)])
  have inc: "all_included blake3 (ledger_proof_GET (Inr L) (ld_investigationId ?d)) (evidence_set (ld_claims ?d))"
    using ok assms(3) by (intro ledger_proofs.serves_all) (auto simp: entry_ok_def ledger_built_def ledger_listed_def)
  obtain v where "k (panel_request False (fst x) ?body) = Inr (KernelOk v)" "kv_verdict_hash v = m_verdict_hash (sm_manifest (fst x))"
    by (rule sealed_request [OF assms(1,2), of ?body]) (simp_all add: assms(4))
  then show ?thesis
    using i ne inc assms(3) by (intro verification_match [where body = ?body]) (simp_all add: claims_GET_def)
qed

lemma chain_entry_sealed:
  assumes "list_all2 (tenant_chain blake3 k cases) tenants xss" "x \<in> set (concat xss)"
  obtains t c prev broken where "sealed_entry blake3 k t c prev broken x"
proof -
  from assms(2) obtain xs where xs: "xs \<in> set xss" "x \<in> set xs" by auto
  with assms(1) obtain t where "tenant_chain blake3 k cases t xs"
    by (auto simp: list_all2_conv_all_nth in_set_conv_nth)
  from tenant_chain_nth [OF this] xs(2) that show thesis
    by (auto simp: linked_chain_def in_set_conv_nth)
qed

definition investigation_ids :: "SealedManifest list \<Rightarrow> string list" where
  "investigation_ids ms = map (\<lambda>sm. m_investigation_id (sm_manifest sm)) ms"

lemma ledger_lookup:
  assumes "\<And>x. x \<in> set (concat xss) \<Longrightarrow> m_investigation_id (sm_manifest (fst x)) = ld_investigationId (snd x)"
    and "distinct (investigation_ids (lg_manifests (ledger_of xss)))" "x \<in> set (concat xss)"
  shows "map_of (lg_caseData (ledger_of xss)) (ld_investigationId (snd x)) = Some (snd x)"
proof -
  let ?kvs = "map (\<lambda>x. (ld_investigationId (snd x), snd x)) (concat xss)"
  have "mset (investigation_ids (lg_manifests (ledger_of xss))) = mset (investigation_ids (map fst (concat xss)))"
    by (simp add: investigation_ids_def ledger_of_def multiset.map_comp)
  with assms(2) have "distinct (investigation_ids (map fst (concat xss)))" by (metis mset_eq_imp_distinct_iff)
  also have "investigation_ids (map fst (concat xss)) = map fst ?kvs"
    using assms(1) by (auto simp: investigation_ids_def)
  finally have d: "distinct (map fst ?kvs)" .
  then have "map_of ?kvs (ld_investigationId (snd x)) = Some (snd x)" using assms(3) by (intro map_of_is_SomeI) auto
  then show ?thesis using js_map_of_distinct [OF d] by (simp add: ledger_of_def)
qed

section \<open>Properties\<close>

text \<open>
  From sealing to the seal in the browser, for any kernel that keeps the contract. Investigation identifiers are assumed
  distinct; they end in six random hexadecimal digits.
\<close>

lemma ledger_verifies:
  assumes "kernel_accepts k" "kernel_reads_claims k" "store_inv store" "clock_ok clock"
  shows "case buildLedger blake3 k clock store of
     Inl e \<Rightarrow> e = PickUndefined
   | Inr L \<Rightarrow> distinct (investigation_ids (lg_manifests L)) \<longrightarrow>
       (\<forall>sealed \<in> set (lg_manifests L).
          runVerification engine_text blake3 (claims_GET (Inr L)) (ledger_proof_GET (Inr L)) k False sealed =
            \<lparr>vp_steps = all_done, vp_result = ResultMatch, vp_recomputedHash = Some (m_verdict_hash (sm_manifest sealed)),
             vp_errorMsg = None, vp_tampered = False, vp_running = False\<rparr>)"
  using assms(1,3,4)
proof (cases rule: buildLedger_cases [of k store clock blake3])
  case (ok cases xss)
  have sealed: "m_investigation_id (sm_manifest (fst x)) = ld_investigationId (snd x)" if "x \<in> set (concat xss)" for x
    using chain_entry_sealed [OF ok(3) that] by (auto simp: sealed_entry_def Let_def)
  have "runVerification engine_text blake3 (claims_GET (Inr (ledger_of xss))) (ledger_proof_GET (Inr (ledger_of xss))) k False (fst x) =
      \<lparr>vp_steps = all_done, vp_result = ResultMatch, vp_recomputedHash = Some (m_verdict_hash (sm_manifest (fst x))),
       vp_errorMsg = None, vp_tampered = False, vp_running = False\<rparr>"
    if d: "distinct (investigation_ids (lg_manifests (ledger_of xss)))" and x: "x \<in> set (concat xss)" for x
  proof -
    obtain t c prev broken where "sealed_entry blake3 k t c prev broken x" using chain_entry_sealed [OF ok(3) x] .
    then show ?thesis
      using assms(2) by (rule entry_verifies) (use ledger_lookup [OF sealed d x] in \<open>simp_all add: ledger_of_def\<close>)
  qed
  then show ?thesis unfolding ok(2) sum.case by (auto simp: ledger_of_def)
qed simp

definition echo_call :: kernel_call where
  "echo_call request = Inr (KernelOk ((sample_verdict (map (\<lambda>_. ''c1'') (kr_claims request)))\<lparr>kv_kernel_version := kr_kernel_version request\<rparr>))"

text \<open>
  C8: what the seal stands for. A run always ends with a result; it ends verified exactly when the answer had claims,
  every evidence identifier they cite came with a proof that checks against its own root, and the kernel's hash on the
  (possibly tampered) claims is the sealed one. The sealed epoch root plays no part: changing it changes nothing.
\<close>

theorem verification_seal:
  shows "let s = runVerification engine_text blake3 claims prf k withTamper sealed in
    \<not> vp_running s \<and> vp_result s \<noteq> ResultIdle \<and>
    (vp_result s = ResultMatch \<longleftrightarrow>
       (\<exists>body v. claims (m_investigation_id (sm_manifest sealed)) = HttpOk body \<and> cb_claims body \<noteq> [] \<and>
          (\<forall>i \<in> set (evidence_set (cb_claims body)). \<exists>p. prf (m_investigation_id (sm_manifest sealed)) i = HttpOk p \<and> verifyInclusion blake3 i p) \<and>
          k (panel_request withTamper sealed body) = Inr (KernelOk v) \<and> kv_verdict_hash v = m_verdict_hash (sm_manifest sealed))) \<and>
    runVerification engine_text blake3 claims prf k withTamper (sealed\<lparr>sm_manifest := (sm_manifest sealed)\<lparr>m_epoch_root := r\<rparr>\<rparr>) = s"
proof -
  let ?s = "runVerification engine_text blake3 claims prf k withTamper sealed"
  have "vp_result ?s = ResultMatch \<longleftrightarrow>
       (\<exists>body v. claims (m_investigation_id (sm_manifest sealed)) = HttpOk body \<and> cb_claims body \<noteq> [] \<and>
          (\<forall>i \<in> set (evidence_set (cb_claims body)). \<exists>p. prf (m_investigation_id (sm_manifest sealed)) i = HttpOk p \<and> verifyInclusion blake3 i p) \<and>
          k (panel_request withTamper sealed body) = Inr (KernelOk v) \<and> kv_verdict_hash v = m_verdict_hash (sm_manifest sealed))"
    (is "_ \<longleftrightarrow> (\<exists>body v. ?ok body v)")
  proof
    assume "vp_result ?s = ResultMatch"
    then obtain body v where "?ok body v" by (rule verification_only_match) (auto simp: all_included_iff)
    then show "\<exists>body v. ?ok body v" by blast
  next
    assume "\<exists>body v. ?ok body v"
    then obtain body v where "?ok body v" by blast
    then have "?s = \<lparr>vp_steps = all_done, vp_result = ResultMatch, vp_recomputedHash = Some (m_verdict_hash (sm_manifest sealed)),
        vp_errorMsg = None, vp_tampered = withTamper, vp_running = False\<rparr>"
      by (intro verification_match [where body = body and v = v]) (simp_all add: all_included_iff)
    then show "vp_result ?s = ResultMatch" by simp
  qed
  moreover have "runVerification engine_text blake3 claims prf k withTamper (sealed\<lparr>sm_manifest := (sm_manifest sealed)\<lparr>m_epoch_root := r\<rparr>\<rparr>) = ?s"
    by (rule verification_fields) simp_all
  ultimately show ?thesis using verification_ends by (simp add: Let_def)
qed

definition sample_sealed :: SealedManifest where
  "sample_sealed = \<lparr>sm_manifest = sample_manifest ''p'', sm_manifest_hash = '''', sm_signature = '''', sm_public_key = '''', sm_chainBroken = False\<rparr>"

theorem verification_seal_witness:
  "vp_result (runVerification (\<lambda>_. []) sample_hash (\<lambda>_. HttpStatus 404 ''not found'') (\<lambda>_ _. HttpStatus 404 ''not found'') echo_call True sample_sealed) \<noteq> ResultMatch"
  using verification_seal [of "\<lambda>_. []" sample_hash "\<lambda>_. HttpStatus 404 ''not found''" "\<lambda>_ _. HttpStatus 404 ''not found''" echo_call True sample_sealed]
  by (simp add: Let_def)

end
