(* ===== verification/Kernel_Contract.thy ===== *)
theory Kernel_Contract
  imports Verdict_Ledger
begin

text \<open>
  The console and the kernel together. The ledger, the drift sweep and the verification panel rely on a kernel through
  the contract \<open>console_kernel\<close>; here the module of \<^verbatim>\<open>kernel/wasm_bridge\<close>, called through the loader, is shown to keep it,
  and what the sealed verdicts say is traced back to the scores the kernel computes.
\<close>

section \<open>The contract\<close>

locale console_kernel =
  fixes k :: kernel_call
  assumes accepts: "kernel_accepts k" and reads: "kernel_reads_claims k" and answers: "kernel_answers k"
begin

lemma chained:
  assumes "store_inv store" "clock_ok clock"
  shows "case buildLedger blake3 k clock store of
     Inl e \<Rightarrow> e = PickUndefined
   | Inr L \<Rightarrow> \<exists>cases xss. listCases store = map Some cases \<and> L = ledger_of xss \<and>
       list_all2 (tenant_chain blake3 k cases) LEDGER_TENANTS xss"
  using accepts assms
  by (cases rule: buildLedger_cases [of k store clock blake3]) auto

lemmas verified = ledger_verifies [OF accepts reads]

end

section \<open>The policy bundle inside the kernel\<close>

definition exact_policy_input :: "PolicyBundle \<Rightarrow> PolicyInput" where
  "exact_policy_input p = \<lparr>pi_policy_version = pb_policy_version p,
     pi_predicate_weights = sort_key (\<lambda>kv. utf8 (fst kv)) (map (apsnd (\<lambda>w. \<lparr>pwi_tactic = pw_tactic w, pwi_weight = pw_weight w,
       pwi_techniques = pw_techniques w\<rparr>)) (pb_predicate_weights p)),
     pi_chain_multipliers = map (\<lambda>m. \<lparr>cmi_from = cm_from m, cmi_to = cm_to m, cmi_bonus = cm_bonus m\<rparr>) (pb_chain_multipliers p),
     pi_severity_thresholds = pb_severity_thresholds p\<rparr>"

definition small_policy :: "PolicyBundle \<Rightarrow> bool" where
  "small_policy p \<longleftrightarrow> list_all (\<lambda>(_, w). \<bar>pw_weight w\<bar> \<le> 100000) (pb_predicate_weights p) \<and>
     list_all (\<lambda>m. \<bar>cm_bonus m\<bar> \<le> 100000) (pb_chain_multipliers p) \<and> list_all (\<lambda>(n, _). \<bar>n\<bar> \<le> 100000) (pb_severity_thresholds p)"

lemma small_int: "\<bar>n\<bar> \<le> 100000 \<Longrightarrow> shortest_int n = n \<and> i64 n"
  using shortest_int_small [of n] by (auto simp: i64_def)

lemma small_policy_read:
  assumes "small_policy p"
  shows "policy_input p = exact_policy_input p" "distinct (map fst (pb_predicate_weights p)) \<Longrightarrow> policy_fits p"
proof -
  have n: "(x, w) \<in> set (pb_predicate_weights p) \<Longrightarrow> shortest_int (pw_weight w) = pw_weight w \<and> i64 (pw_weight w)"
    "m \<in> set (pb_chain_multipliers p) \<Longrightarrow> shortest_int (cm_bonus m) = cm_bonus m \<and> i64 (cm_bonus m)"
    "(i, y) \<in> set (pb_severity_thresholds p) \<Longrightarrow> shortest_int i = i \<and> i64 i" for x w m i y
    using assms by (force simp: small_policy_def list_all_iff intro!: small_int)+
  then show "policy_input p = exact_policy_input p"
    by (auto simp: policy_input_def exact_policy_input_def weight_input_def
        intro!: arg_cong [where f = "sort_key (\<lambda>kv. utf8 (fst kv))"] map_idI)
  show "policy_fits p" if "distinct (map fst (pb_predicate_weights p))"
    using n that by (auto simp: policy_fits_def list_all_iff)
qed

lemma synthetic_small: "small_policy buildSyntheticPolicy"
  by code_simp

lemma synthetic_policy_fits: "policy_fits buildSyntheticPolicy"
  using small_policy_read(2) [OF synthetic_small] policy_weights_keys by (simp add: buildSyntheticPolicy_def)

definition synthetic_weights :: "string + (string \<times> KPredicateWeight) list" where
  "synthetic_weights = try_map build_weight (pi_predicate_weights (exact_policy_input buildSyntheticPolicy))"

definition synthetic_chain :: "((Tactic \<times> Tactic) \<times> int) list" where
  "synthetic_chain = [((InitialAccess, Execution), 500), ((Execution, Persistence), 400), ((CredentialAccess, LateralMovement), 600),
     ((Collection, Exfiltration), 700), ((CommandAndControl, Exfiltration), 500)]"

definition synthetic_kernel_policy :: KPolicyBundle where
  "synthetic_kernel_policy = \<lparr>kp_policy_version = POLICY_VERSION,
     kp_predicate_weights = (case synthetic_weights of Inr ws \<Rightarrow> map_of (rev ws)), kp_chain_multipliers = map_of (rev synthetic_chain),
     kp_severity_thresholds = [(0, Info), (1500, Low), (3500, Medium), (6000, High), (8500, Critical)]\<rparr>"

text \<open>Every predicate is priced as the console's bundle says.\<close>

lemma synthetic_weights_built:
  "case synthetic_weights of
     Inl _ \<Rightarrow> False
   | Inr ws \<Rightarrow> list_all (\<lambda>(p, w). case map_of (rev ws) p of
         None \<Rightarrow> False
       | Some kw \<Rightarrow> Tactic_name (kw_tactic kw) = pw_tactic w \<and> kw_weight kw = pw_weight w \<and> kw_techniques kw = pw_techniques w \<and>
           1200 \<le> kw_weight kw \<and> kw_weight kw \<le> 2400) policy_weights"
  by code_simp

lemma synthetic_chain_built:
  "try_map build_chain (pi_chain_multipliers (exact_policy_input buildSyntheticPolicy)) = Inr synthetic_chain"
  "try_map build_threshold (pi_severity_thresholds (exact_policy_input buildSyntheticPolicy)) =
     Inr (kp_severity_thresholds synthetic_kernel_policy)"
  by (simp_all add: exact_policy_input_def buildSyntheticPolicy_def build_chain_def tactic_named_def Tactic_from_name_def
      Tactic_ALL_def synthetic_chain_def build_threshold_def Severity_from_name_def synthetic_kernel_policy_def)

lemma synthetic_policy_built: "build_policy (policy_input buildSyntheticPolicy) = Inr synthetic_kernel_policy"
proof -
  obtain ws where ws: "synthetic_weights = Inr ws" using synthetic_weights_built by (auto split: sum.splits)
  then have w: "try_map build_weight (pi_predicate_weights (exact_policy_input buildSyntheticPolicy)) = Inr ws"
    by (simp only: synthetic_weights_def)
  have "pi_policy_version (exact_policy_input buildSyntheticPolicy) = POLICY_VERSION"
    by (simp add: exact_policy_input_def buildSyntheticPolicy_def)
  then show ?thesis
    by (simp add: small_policy_read(1) [OF synthetic_small] build_policy_def w synthetic_chain_built)
       (simp add: synthetic_kernel_policy_def ws PolicyBundle_new_def)
qed

lemma synthetic_kernel_thresholds:
  "kp_severity_thresholds synthetic_kernel_policy = [(0, Info), (1500, Low), (3500, Medium), (6000, High), (8500, Critical)]"
  by (simp add: synthetic_kernel_policy_def)

section \<open>The claims inside the kernel\<close>

definition kernel_claim :: "'a RawClaim_scheme \<Rightarrow> Claim" where
  "kernel_claim c = \<lparr>cl_predicate = lc_predicate c, cl_subject = lc_subject c, cl_object = lc_object c,
     cl_interval_start_ns = shortest_int (lc_interval_start_ns c), cl_interval_end_ns = shortest_int (lc_interval_end_ns c),
     cl_evidence = lc_evidence c, cl_extractor_kind = lc_extractor_kind c, cl_extractor_id = lc_extractor_id c,
     cl_extractor_version = lc_extractor_version c, cl_observed_value = map_option shortest_int (lc_observed_value c),
     cl_polarity = lc_polarity c, cl_hypothesis_ref = lc_hypothesis_ref c\<rparr>"

lemma Polarity_name_read: "Polarity_from_name (polarity_name p) = Some p"
  by (cases p) (simp_all add: Polarity_from_name_def)

lemma build_claim_input: "lc_evidence c \<noteq> [] \<Longrightarrow> build_claim (claim_input c) = Inr (kernel_claim c)"
  by (simp add: build_claim_def claim_input_def Polarity_name_read Claim_new_def kernel_claim_def)

lemma try_map_ok: "(\<And>x. x \<in> set xs \<Longrightarrow> f x = Inr (g x)) \<Longrightarrow> try_map f xs = Inr (map g xs)"
  by (induction xs) auto

lemma build_claims_inputs:
  assumes "\<And>c. c \<in> set cs \<Longrightarrow> lc_evidence c \<noteq> []"
  shows "build_claims (map claim_input cs) = Inr (map kernel_claim cs)"
proof -
  have "build_claims (map claim_input cs) = Inr (map (\<lambda>x. kernel_claim (cs ! fst x)) (List.enumerate 0 (map claim_input cs)))"
    unfolding build_claims_def
    by (rule try_map_ok) (use assms in \<open>auto simp: in_set_enumerate_eq build_claim_input\<close>)
  also have "map (\<lambda>x. kernel_claim (cs ! fst x)) (List.enumerate 0 (map claim_input cs)) = map kernel_claim cs"
    by (rule nth_equalityI) (simp_all add: nth_enumerate_eq)
  finally show ?thesis .
qed

lemma kernel_claim_truncate [simp]:
  "claim_input (RawClaim.truncate c) = claim_input c" "numbers_fit (RawClaim.truncate c) = numbers_fit c"
  "kernel_claim (RawClaim.truncate c) = kernel_claim c" "lc_evidence (RawClaim.truncate c) = lc_evidence c"
  "lc_predicate (RawClaim.truncate c) = lc_predicate c"
  by (simp_all add: claim_input_def numbers_fit_def kernel_claim_def RawClaim.truncate_def)

section \<open>The module keeps the contract\<close>

text \<open>The verdict the kernel reaches on claims of the console under the synthetic policy.\<close>

definition sealed_verdict :: "hash_fun \<Rightarrow> string \<Rightarrow> 'a RawClaim_scheme list \<Rightarrow> Verdict" where
  "sealed_verdict blake3 version cs = the (adjudicate blake3 (map kernel_claim cs) synthetic_kernel_policy version)"

lemma sealed_verdict: "adjudicate blake3 (map kernel_claim cs) synthetic_kernel_policy version = Some (sealed_verdict blake3 version cs)"
  using adjudicate_total [of synthetic_kernel_policy blake3 "map kernel_claim cs" version]
  by (auto simp: sealed_verdict_def synthetic_kernel_thresholds)

lemma kernel_outcome_sealable:
  assumes "\<And>c. c \<in> set cs \<Longrightarrow> lc_evidence c \<noteq> []"
  shows "kernel_outcome blake3 (Inr \<lparr>ri_kernel_version = version, ri_policy = policy_input buildSyntheticPolicy, ri_claims = map claim_input cs\<rparr>) =
    KernelOk (kernel_verdict (sealed_verdict blake3 version cs) (map (\<lambda>c. hex_encode (claim_id blake3 (kernel_claim c))) cs))"
  by (simp add: kernel_outcome_def synthetic_policy_built build_claims_inputs [OF assms] sealed_verdict comp_def)

lemma kernel_outcome_facts:
  assumes "kernel_outcome blake3 (Inr inp) = KernelOk v"
  shows "kv_kernel_version v = ri_kernel_version inp" "length (kv_submitted_claim_ids v) = length (ri_claims inp)"
proof -
  obtain policy claims where b: "build_policy (ri_policy inp) = Inr policy" "build_claims (ri_claims inp) = Inr claims"
    and v: "v = kernel_verdict (the (adjudicate blake3 claims policy (ri_kernel_version inp))) (map (\<lambda>c. hex_encode (claim_id blake3 c)) claims)"
    using assms by (auto simp: kernel_outcome_def split: sum.splits)
  obtain w where w: "adjudicate blake3 claims policy (ri_kernel_version inp) = Some w"
    using adjudicate_total [OF build_policy_total [OF b(1)]] by blast
  show "kv_kernel_version v = ri_kernel_version inp" using adjudicate_shape(6) [OF w] by (simp add: v w kernel_verdict_def)
  show "length (kv_submitted_claim_ids v) = length (ri_claims inp)"
    using build_claims_length [OF b(2)] by (simp add: v kernel_verdict_def)
qed

context serde
begin

lemma adjudicated_sealable:
  assumes "list_all sealable cs"
  shows "adjudicated (run_kernel (kernel_wasm from_str to_string blake3)) cs =
    Inr (kernel_verdict (sealed_verdict blake3 KERNEL_VERSION cs) (map (\<lambda>c. hex_encode (claim_id blake3 (kernel_claim c))) cs))"
proof -
  have n: "list_all numbers_fit cs" and e: "\<And>c. c \<in> set cs \<Longrightarrow> lc_evidence c \<noteq> []"
    using assms by (auto simp: list_all_iff sealable_def)
  show ?thesis
    by (simp only: adjudicated_def run_kernel_wasm reads_claims(1) [OF synthetic_policy_fits n] kernel_outcome_sealable [OF e]
        sum.case KernelResult.case)
qed

lemma contract: "console_kernel (run_kernel (kernel_wasm from_str to_string blake3))"
proof
  let ?k = "run_kernel (kernel_wasm from_str to_string blake3)"
  show "kernel_accepts ?k" unfolding kernel_accepts_def by (auto simp: adjudicated_sealable kernel_verdict_def)
  show "kernel_reads_claims ?k" unfolding kernel_reads_claims_def
  proof (intro conjI allI impI)
    fix version and cs :: "LedgerClaim list"
    assume "list_all sealable (map RawClaim.truncate cs)"
    then have n: "list_all numbers_fit cs" "list_all numbers_fit (map RawClaim.truncate cs)"
      by (auto simp: list_all_iff sealable_def)
    have "map claim_input (map RawClaim.truncate cs) = map claim_input cs" by simp
    then show "?k \<lparr>kr_kernel_version = version, kr_policy = buildSyntheticPolicy, kr_claims = map ledger_claim_json cs\<rparr> =
      ?k \<lparr>kr_kernel_version = version, kr_policy = buildSyntheticPolicy, kr_claims = map raw_claim_json (map RawClaim.truncate cs)\<rparr>"
      by (simp only: run_kernel_wasm reads_claims(1) [OF synthetic_policy_fits n(2)] reads_claims(2) [OF synthetic_policy_fits n(1)])
  next
    fix r v
    assume r: "posted r \<and> ?k r = Inr (KernelOk v)"
    then obtain inp where "from_str (stringify (request_json r)) = Inr inp" "kernel_outcome blake3 (Inr inp) = KernelOk v"
      by (cases "from_str (stringify (request_json r))") (auto simp: run_kernel_wasm kernel_outcome_def)
    with r show "kv_kernel_version v = kr_kernel_version r" by (simp add: kernel_outcome_facts reads_posted)
  qed
  show "kernel_answers ?k" unfolding kernel_answers_def
  proof (intro allI impI)
    fix r
    assume p: "posted r"
    show "case ?k r of Inl _ \<Rightarrow> False | Inr (KernelError _) \<Rightarrow> True
      | Inr (KernelOk v) \<Rightarrow> length (kv_submitted_claim_ids v) = length (kr_claims r)"
    proof (cases "from_str (stringify (request_json r))")
      case (Inl e)
      then show ?thesis by (simp add: run_kernel_wasm kernel_outcome_def)
    next
      case (Inr inp)
      then show ?thesis
        using kernel_outcome_facts(2) [of blake3 inp] reads_posted(2) [OF p Inr]
        by (auto simp: run_kernel_wasm split: KernelResult.splits)
    qed
  qed
qed

end

interpretation wasm: console_kernel "run_kernel (kernel_wasm exact_from_str exact_to_string blake3)" for blake3
  by (rule exact.contract)

section \<open>What a sealed severity means\<close>

lemma synthetic_price:
  assumes "p \<in> set (map fst policy_weights)"
  obtains w where "kp_predicate_weights synthetic_kernel_policy p = Some w" "1200 \<le> kw_weight w" "kw_weight w \<le> 2400"
proof -
  obtain ws where ws: "synthetic_weights = Inr ws" using synthetic_weights_built by (auto split: sum.splits)
  from assms obtain v where "(p, v) \<in> set policy_weights" by auto
  with synthetic_weights_built that show thesis
    by (fastforce simp: ws list_all_iff synthetic_kernel_policy_def split: option.splits)
qed

lemma synthetic_bonuses: "sum_list (map (\<lambda>p. \<bar>bonus_of synthetic_kernel_policy p\<bar>) adjacent_pairs) = 1400"
  by (simp add: bonus_of_def synthetic_kernel_policy_def synthetic_chain_def adjacent_pairs_def Tactic_ALL_def)

lemma sealable_kernel:
  assumes "sealable (RawClaim.truncate c)"
  shows "usable synthetic_kernel_policy (kernel_claim c)" "\<bar>kw_weight (price_of synthetic_kernel_policy (kernel_claim c))\<bar> \<le> 2400"
proof -
  have p: "lc_predicate c \<in> set (map fst policy_weights)" and e: "lc_evidence c \<noteq> []" using assms by (simp_all add: sealable_def)
  obtain w where w: "kp_predicate_weights synthetic_kernel_policy (lc_predicate c) = Some w" "1200 \<le> kw_weight w" "kw_weight w \<le> 2400"
    by (rule synthetic_price [OF p])
  show "usable synthetic_kernel_policy (kernel_claim c)" using w(1) e by (simp add: usable_def kernel_claim_def)
  show "\<bar>kw_weight (price_of synthetic_kernel_policy (kernel_claim c))\<bar> \<le> 2400"
    using w by (simp add: price_of_def kernel_claim_def)
qed

lemma sum_abs_le: "(\<And>x. x \<in> set xs \<Longrightarrow> f x \<le> b) \<Longrightarrow> sum_list (map f xs) \<le> int (length xs) * b" for f :: "_ \<Rightarrow> int"
proof (induction xs)
  case (Cons x xs)
  then have "f x \<le> b" "sum_list (map f xs) \<le> int (length xs) * b" by simp_all
  then show ?case by (simp add: algebra_simps)
qed simp

lemma synthetic_classify: "kclassify synthetic_kernel_policy n = Some (severityForScore (max 0 n))"
  by (auto simp: kclassify_def synthetic_kernel_thresholds severityForScore_def max_def)

lemma sealed_verdict_score:
  assumes "list_all (\<lambda>c. sealable (RawClaim.truncate c)) cs" "cs \<noteq> []" "length cs < 2 ^ 50"
  shows "v_confidence (sealed_verdict blake3 version cs) = max 0 (min 10000 (score_spec synthetic_kernel_policy (map kernel_claim cs))) \<and>
    v_severity (sealed_verdict blake3 version cs) = severityForScore (max 0 (score_spec synthetic_kernel_policy (map kernel_claim cs))) \<and>
    v_disposition (sealed_verdict blake3 version cs) = disposition_for (v_severity (sealed_verdict blake3 version cs))"
proof -
  let ?p = synthetic_kernel_policy and ?cs = "map kernel_claim cs"
  have u: "filter (usable ?p) ?cs = ?cs" using assms(1) by (auto simp: list_all_iff sealable_kernel intro!: filter_True)
  with assms(2) have ex: "list_ex (usable ?p) ?cs" by (metis list_ex_iff filter_empty_conv map_is_Nil_conv)
  have "sum_list (map (\<lambda>c. \<bar>kw_weight (price_of ?p c)\<bar>) ?cs) \<le> int (length ?cs) * 2400"
    by (rule sum_abs_le) (use assms(1) in \<open>auto simp: list_all_iff sealable_kernel\<close>)
  then have "load ?p (filter (usable ?p) ?cs) < 2 ^ 63" using assms(3) by (simp add: u load_def synthetic_bonuses)
  from score_exact [OF ex this, of blake3 version] show ?thesis
    using adjudicate_shape(7) [OF sealed_verdict [of blake3 cs version]] ex by (simp add: u synthetic_classify sealed_verdict)
qed

section \<open>Properties\<close>

text \<open>
  C1: from sealing to the seal in the browser. Let the server build the ledger with the kernel of \<^verbatim>\<open>kernel/\<close> behind its
  loader, let the browser load the same module, fetch the claims and the proofs from the server's handlers and run it: for
  every manifest of the ledger the panel runs through all four steps and shows the sealed verdict hash as verified. Of the
  JSON library its documented behaviour is assumed, of the clock that it stays before the year 2096; investigation
  identifiers, which end in six random hexadecimal digits, are assumed distinct.
\<close>

theorem ledger_verifies_with_kernel:
  assumes "serde from_str to_string" "store_inv store" "clock_ok clock"
  shows "case buildLedger blake3 (verifyClaimSetServer (Some (kernel_wasm from_str to_string blake3))) clock store of
     Inl e \<Rightarrow> e = PickUndefined
   | Inr L \<Rightarrow> distinct (investigation_ids (lg_manifests L)) \<longrightarrow>
       (\<forall>sealed \<in> set (lg_manifests L).
          runVerification engine_text blake3 (claims_GET (Inr L)) (ledger_proof_GET (Inr L))
            (\<lambda>r. fst (verifyClaimSet (200, kernel_wasm from_str to_string blake3) None r)) False sealed =
            \<lparr>vp_steps = all_done, vp_result = ResultMatch, vp_recomputedHash = Some (m_verdict_hash (sm_manifest sealed)),
             vp_errorMsg = None, vp_tampered = False, vp_running = False\<rparr>)"
proof -
  have k: "verifyClaimSetServer (Some m) = run_kernel m" "(\<lambda>r. fst (verifyClaimSet (200, m) None r)) = run_kernel m" for m
    by (simp_all add: fun_eq_iff verifyClaimSetServer_def verifyClaimSet_def getInstance_def load_module_def Let_def)
  show ?thesis unfolding k by (rule console_kernel.verified [OF serde.contract [OF assms(1)] assms(2,3)])
qed

theorem ledger_verifies_with_kernel_witness:
  "case buildLedger sample_hash (verifyClaimSetServer (Some (kernel_wasm exact_from_str exact_to_string sample_hash))) (\<lambda>n. 1767225600000) sample_store of
     Inl e \<Rightarrow> e = PickUndefined
   | Inr L \<Rightarrow> distinct (investigation_ids (lg_manifests L)) \<longrightarrow>
       (\<forall>sealed \<in> set (lg_manifests L).
          runVerification (\<lambda>_. []) sample_hash (claims_GET (Inr L)) (ledger_proof_GET (Inr L))
            (\<lambda>r. fst (verifyClaimSet (200, kernel_wasm exact_from_str exact_to_string sample_hash) None r)) False sealed =
            \<lparr>vp_steps = all_done, vp_result = ResultMatch, vp_recomputedHash = Some (m_verdict_hash (sm_manifest sealed)),
             vp_errorMsg = None, vp_tampered = False, vp_running = False\<rparr>)"
  by (rule ledger_verifies_with_kernel [OF exact.serde_axioms sample_store_inv sample_clock_ok])

lemma severity_names_agree: "Severity_name s = severity_name s"
  by (cases s) simp_all

lemma disposition_names_agree: "Disposition_name d = disposition_name d"
  by (cases d) simp_all

lemma tactic_names_agree: "Tactic_name t = tactic_name t"
  by (cases t) simp_all

lemmas names_agree = severity_names_agree disposition_names_agree tactic_names_agree

text \<open>A manifest whose verdict is the documented function of the score of the claims it names.\<close>

definition explained :: "hash_fun \<Rightarrow> Manifest \<Rightarrow> LedgerClaim list \<Rightarrow> bool" where
  "explained blake3 m cs \<longleftrightarrow>
     (let score = score_spec synthetic_kernel_policy (map kernel_claim cs); severity = severityForScore (max 0 score) in
      cs \<noteq> [] \<and> m_claim_ids m = map (\<lambda>c. hex_encode (claim_id blake3 (kernel_claim c))) cs \<and>
      map lc_claim_id cs = m_claim_ids m \<and>
      m_verdict_confidence m = max 0 (min 10000 score) \<and> m_verdict_severity m = severity_name severity \<and>
      m_verdict_disposition m = (if severity \<in> {Info, Low} then ''benign'' else if severity = Medium then ''suspicious'' else ''malicious'') \<and>
      m_verdict_hash m = hex_encode (compute_verdict_hash blake3 (sealed_verdict blake3 KERNEL_VERSION cs)))"

lemma disposition_for_name:
  "disposition_name (disposition_for s) = (if s \<in> {Info, Low} then ''benign'' else if s = Medium then ''suspicious'' else ''malicious'')"
  by (cases s) simp_all

lemma sealed_entry_explained:
  assumes "serde from_str to_string" "sealed_entry blake3 (run_kernel (kernel_wasm from_str to_string blake3)) t c prev broken x"
  shows "explained blake3 (sm_manifest (fst x)) (ld_claims (snd x))"
proof -
  let ?cs = "map RawClaim.truncate (ld_claims (snd x))" and ?v = "sealed_verdict blake3 KERNEL_VERSION (ld_claims (snd x))"
  let ?m = "sm_manifest (fst x)"
  have s: "list_all sealable ?cs" "ld_claims (snd x) \<noteq> []" "length (ld_claims (snd x)) \<le> 12"
    using assms(2) by (simp_all add: sealed_entry_def Let_def)
  have "sealed_verdict blake3 KERNEL_VERSION ?cs = ?v" "map kernel_claim ?cs = map kernel_claim (ld_claims (snd x))"
    by (simp_all add: sealed_verdict_def comp_def)
  then have a: "adjudicated (run_kernel (kernel_wasm from_str to_string blake3)) ?cs =
      Inr (kernel_verdict ?v (map (\<lambda>c. hex_encode (claim_id blake3 (kernel_claim c))) (ld_claims (snd x))))"
    using serde.adjudicated_sealable [OF assms(1) s(1), of blake3] by (simp add: comp_def)
  have v: "m_verdict_hash ?m = hex_encode (v_verdict_hash ?v)" "m_verdict_severity ?m = Severity_name (v_severity ?v)"
    "m_verdict_confidence ?m = js_int (v_confidence ?v)" "m_verdict_disposition ?m = Disposition_name (v_disposition ?v)"
    "m_claim_ids ?m = map (\<lambda>c. hex_encode (claim_id blake3 (kernel_claim c))) (ld_claims (snd x))"
    "m_claim_ids ?m = map lc_claim_id (ld_claims (snd x))"
    using assms(2) a by (auto simp: sealed_entry_def Let_def kernel_verdict_def)
  have "\<bar>v_confidence ?v\<bar> \<le> 10000" using adjudicate_shape(3,4) [OF sealed_verdict [of blake3 "ld_claims (snd x)" KERNEL_VERSION]] by simp
  then have "js_int (v_confidence ?v) = v_confidence ?v" using fl_int [of "v_confidence ?v"] by (simp add: js_int_def)
  moreover have "list_all (\<lambda>c. sealable (RawClaim.truncate c)) (ld_claims (snd x))" using s(1) by (simp add: list_all_iff)
  note score = sealed_verdict_score [OF this s(2), of blake3 KERNEL_VERSION]
  ultimately show ?thesis
    using v score s(2,3) adjudicate_shape(8) [OF sealed_verdict [of blake3 "ld_claims (snd x)" KERNEL_VERSION]]
    by (simp add: explained_def Let_def names_agree disposition_for_name del: insert_iff)
qed

text \<open>
  C7: what a sealed verdict says. In the ledger the server builds with the kernel of \<^verbatim>\<open>kernel/\<close>, every manifest has claims
  behind it whose kernel identifiers it lists, and its confidence, severity and disposition are those of the plain sum of
  the claims' weights, refuting claims subtracted, plus the kill-chain bonuses: the severity is the one the console's own
  \<^verbatim>\<open>severityForScore\<close> gives that sum, and the hash is the kernel's hash of exactly that verdict.
\<close>

theorem sealed_verdicts_explained:
  assumes "serde from_str to_string" "store_inv store" "clock_ok clock"
  shows "case buildLedger blake3 (verifyClaimSetServer (Some (kernel_wasm from_str to_string blake3))) clock store of
     Inl e \<Rightarrow> e = PickUndefined
   | Inr L \<Rightarrow> \<forall>sealed \<in> set (lg_manifests L). \<exists>cs. explained blake3 (sm_manifest sealed) cs"
proof -
  let ?k = "run_kernel (kernel_wasm from_str to_string blake3)"
  have k: "verifyClaimSetServer (Some (kernel_wasm from_str to_string blake3)) = ?k"
    by (simp add: fun_eq_iff verifyClaimSetServer_def)
  have "kernel_accepts ?k" using serde.contract [OF assms(1)] by (rule console_kernel.accepts)
  then show ?thesis using assms(2,3)
  proof (cases rule: buildLedger_cases [of ?k store clock blake3])
    case (ok cases xss)
    have "\<exists>cs. explained blake3 (sm_manifest (fst x)) cs" if "x \<in> set (concat xss)" for x
      using chain_entry_sealed [OF ok(3) that] sealed_entry_explained [OF assms(1)] by metis
    then show ?thesis unfolding k ok(2) sum.case by (auto simp: ledger_of_def)
  qed (simp add: k)
qed

theorem sealed_verdicts_explained_witness:
  "case buildLedger sample_hash (verifyClaimSetServer (Some (kernel_wasm exact_from_str exact_to_string sample_hash))) (\<lambda>n. 1767225600000) sample_store of
     Inl e \<Rightarrow> e = PickUndefined
   | Inr L \<Rightarrow> \<forall>sealed \<in> set (lg_manifests L). \<exists>cs. explained sample_hash (sm_manifest sealed) cs"
  by (rule sealed_verdicts_explained [OF exact.serde_axioms sample_store_inv sample_clock_ok])

section \<open>Bonuses that are never paid\<close>

text \<open>
  Two of the five chain multipliers of the synthetic policy name tactics that are not neighbours in the kill chain, so the
  kernel never looks them up: without them every adjudication is the same.
\<close>

lemma chain_bonus_cong:
  assumes "\<And>a b. is_adjacent a b \<Longrightarrow> kp_chain_multipliers p (a, b) = kp_chain_multipliers q (a, b)"
  shows "chain_bonus p present = chain_bonus q present"
proof -
  have "add_bonus p = add_bonus q" using assms by (auto simp: fun_eq_iff add_bonus_def)
  then show ?thesis by (simp add: chain_bonus_def)
qed

lemma unadjacent_multiplier_ignored:
  assumes "\<not> is_adjacent a b"
  shows "adjudicate blake3 claims (policy\<lparr>kp_chain_multipliers := m\<rparr>) version =
    adjudicate blake3 claims (policy\<lparr>kp_chain_multipliers := m((a, b) := x)\<rparr>) version"
proof -
  let ?p = "policy\<lparr>kp_chain_multipliers := m\<rparr>" and ?q = "policy\<lparr>kp_chain_multipliers := m((a, b) := x)\<rparr>"
  have c: "chain_bonus ?p present = chain_bonus ?q present" for present using assms by (intro chain_bonus_cong) auto
  have "tally_claim ?p = tally_claim ?q" "kclassify ?p = kclassify ?q" "incomplete_verdict ?p = incomplete_verdict ?q"
    "kp_policy_version ?p = kp_policy_version ?q"
    by (simp_all add: fun_eq_iff tally_claim_def kclassify_def incomplete_verdict_def split: list.splits)
  then show ?thesis by (simp only: adjudicate_def c)
qed

lemma synthetic_dead_bonuses:
  "kp_chain_multipliers synthetic_kernel_policy (CredentialAccess, LateralMovement) = Some 600 \<and> \<not> is_adjacent CredentialAccess LateralMovement"
  "kp_chain_multipliers synthetic_kernel_policy (Collection, Exfiltration) = Some 700 \<and> \<not> is_adjacent Collection Exfiltration"
  by (simp_all add: synthetic_kernel_policy_def synthetic_chain_def is_adjacent_def)

end
