(* ===== verification/Tamper_Check.thy ===== *)
theory Tamper_Check
  imports Kernel_Contract
begin

text \<open>
  The tampering demonstration of the verification panel (\<^verbatim>\<open>verification-panel.tsx\<close>) run against the modelled kernel: what a
  second run with the first observed value changed shows, after a run that ended verified.
\<close>

section \<open>The panel and the kernel\<close>

abbreviation browser_kernel :: "json_reader \<Rightarrow> json_writer \<Rightarrow> hash_fun \<Rightarrow> kernel_call" where
  "browser_kernel from_str to_string blake3 \<equiv> (\<lambda>r. fst (verifyClaimSet (200, kernel_wasm from_str to_string blake3) None r))"

lemma browser_kernel: "browser_kernel from_str to_string blake3 = run_kernel (kernel_wasm from_str to_string blake3)"
  by (simp add: fun_eq_iff verifyClaimSet_def getInstance_def load_module_def Let_def)

lemma verification_result:
  assumes "claims (m_investigation_id (sm_manifest sealed)) = HttpOk body" "cb_claims body \<noteq> []"
    and "all_included blake3 (proofs (m_investigation_id (sm_manifest sealed))) (evidence_set (cb_claims body))"
    and "k (panel_request withTamper sealed body) = Inr (KernelOk v)"
  shows "vp_result (runVerification engine_text blake3 claims proofs k withTamper sealed) =
    (if kv_verdict_hash v = m_verdict_hash (sm_manifest sealed) then ResultMatch else ResultMismatch)"
  using assms by (simp add: panel_simps fetchClaims_def)

lemma hex_encode_inject: "hex_encode a = hex_encode b \<longleftrightarrow> a = b"
proof -
  have "hex_encode bs = bytesToHex bs" for bs
    by (induction bs) (simp_all add: hex_encode_def bytesToHex_Cons, simp add: bytesToHex_def)
  then show ?thesis by simp
qed

lemma kernel_verdict_hash [simp]: "kv_verdict_hash (kernel_verdict v ids) = hex_encode (v_verdict_hash v)"
  by (simp add: kernel_verdict_def)

lemma try_map_InrD: "try_map f xs = Inr ys \<Longrightarrow> x \<in> set xs \<Longrightarrow> \<exists>y. f x = Inr y"
  by (induction xs arbitrary: ys) (auto split: sum.splits)

lemma build_claims_evidence:
  assumes "build_claims (map claim_input cs) = Inr claims" "c \<in> set cs"
  shows "lc_evidence c \<noteq> []"
proof -
  from assms(2) obtain i where i: "i < length cs" "cs ! i = c" by (auto simp: in_set_conv_nth)
  then have "(i, claim_input c) \<in> set (List.enumerate 0 (map claim_input cs))" by (auto simp: in_set_enumerate_eq)
  from try_map_InrD [OF assms(1) [unfolded build_claims_def] this] show ?thesis
    by (auto simp: build_claim_def claim_input_def Claim_new_def Polarity_name_read split: sum.splits)
qed

text \<open>What the kernel answers to the claims of a response it accepts.\<close>

definition verdict_on :: "hash_fun \<Rightarrow> KPolicyBundle \<Rightarrow> string \<Rightarrow> 'a RawClaim_scheme list \<Rightarrow> Verdict" where
  "verdict_on blake3 policy version cs = the (adjudicate blake3 (map kernel_claim cs) policy version)"

context serde
begin

lemma panel_kernel:
  assumes "policy_fits p" "build_policy (policy_input p) = Inr policy" "list_all numbers_fit cs"
  shows "(\<forall>c \<in> set cs. lc_evidence c \<noteq> []) \<Longrightarrow>
      run_kernel (kernel_wasm from_str to_string blake3) \<lparr>kr_kernel_version = version, kr_policy = p, kr_claims = map ledger_claim_json cs\<rparr> =
        Inr (KernelOk (kernel_verdict (verdict_on blake3 policy version cs) (map (\<lambda>c. hex_encode (claim_id blake3 (kernel_claim c))) cs)))"
    and "run_kernel (kernel_wasm from_str to_string blake3) \<lparr>kr_kernel_version = version, kr_policy = p, kr_claims = map ledger_claim_json cs\<rparr> =
        Inr (KernelOk v) \<Longrightarrow> \<forall>c \<in> set cs. lc_evidence c \<noteq> []"
proof -
  note read = run_kernel_wasm reads_claims(2) [OF assms(1) assms(3)] kernel_outcome_def
  show "run_kernel (kernel_wasm from_str to_string blake3) \<lparr>kr_kernel_version = version, kr_policy = p, kr_claims = map ledger_claim_json cs\<rparr> =
      Inr (KernelOk (kernel_verdict (verdict_on blake3 policy version cs) (map (\<lambda>c. hex_encode (claim_id blake3 (kernel_claim c))) cs)))"
    if "\<forall>c \<in> set cs. lc_evidence c \<noteq> []"
    using that by (simp add: read assms(2) build_claims_inputs verdict_on_def comp_def)
  show "\<forall>c \<in> set cs. lc_evidence c \<noteq> []"
    if "run_kernel (kernel_wasm from_str to_string blake3) \<lparr>kr_kernel_version = version, kr_policy = p, kr_claims = map ledger_claim_json cs\<rparr> =
        Inr (KernelOk v)"
    using that by (auto simp: read assms(2) dest: build_claims_evidence split: sum.splits)
qed

end

section \<open>What the change does to the verdict\<close>

text \<open>Observed values are small integers; the sum is exact.\<close>

definition observed_small :: "'a RawClaim_scheme \<Rightarrow> bool" where
  "observed_small c \<longleftrightarrow> pred_option (\<lambda>n. \<bar>n\<bar> < 2 ^ 52) (lc_observed_value c)"

lemma num_add_small: "\<bar>a\<bar> < 2 ^ 52 \<Longrightarrow> num_add a 999999 = a + 999999"
  using fl_int [of "a + 999999"] by (simp add: num_add_def js_add_def)

lemma tamper_Cons:
  assumes "observed_small c"
  obtains n where "tamper (c # cs) = c\<lparr>lc_observed_value := Some n\<rparr> # cs" "\<bar>n\<bar> < 2 ^ 53" "lc_observed_value c \<noteq> Some n"
proof -
  define old where "old = (case lc_observed_value c of None \<Rightarrow> 0 | Some v \<Rightarrow> v)"
  have old: "\<bar>old\<bar> < 2 ^ 52" using assms by (auto simp: old_def observed_small_def split: option.splits)
  show thesis
  proof (rule that [of "old + 999999"])
    show "tamper (c # cs) = c\<lparr>lc_observed_value := Some (old + 999999)\<rparr> # cs"
      using num_add_small [OF old] by (simp add: tamper_def old_def)
    show "\<bar>old + 999999\<bar> < 2 ^ 53" using old by simp
    show "lc_observed_value c \<noteq> Some (old + 999999)" by (auto simp: old_def split: option.splits)
  qed
qed

lemma kernel_claim_observed:
  fixes c :: LedgerClaim
  assumes "\<bar>n\<bar> < 2 ^ 53"
  shows "kernel_claim (c\<lparr>lc_observed_value := Some n\<rparr>) = (kernel_claim c)\<lparr>cl_observed_value := Some n\<rparr>"
  using shortest_int_small [OF assms] by (simp add: kernel_claim_def)

text \<open>
  That the texts hashed do not collide, and that what is hashed fits the encoding's length fields (strings and lists
  shorter than 4 GiB).
\<close>

definition hash_safe :: "hash_fun \<Rightarrow> Verdict \<Rightarrow> Verdict \<Rightarrow> Claim list \<Rightarrow> bool" where
  "hash_safe blake3 v w cs \<longleftrightarrow> verdict_sized v \<and> verdict_sized w \<and> list_all claim_sized cs \<and>
     collision_free blake3 ([verdict_bytes v, verdict_bytes w] @ map claim_bytes cs)"

lemma verdict_hash_length: "digest_length blake3 \<Longrightarrow> adjudicate blake3 cs policy version = Some v \<Longrightarrow> length (v_verdict_hash v) = 32"
  by (simp add: adjudicate_shape(8) compute_verdict_hash_def digest_length_def)

lemma changed_claim_changes_hash:
  assumes "adjudicate blake3 (c # cs) policy version = Some v" "adjudicate blake3 (d # cs) policy version = Some w"
    and "usable policy c" "usable policy d" "canonical_claim c \<noteq> canonical_claim d"
    and "hash_safe blake3 v w ((c # cs) @ (d # cs))"
  shows "v_verdict_hash v \<noteq> v_verdict_hash w"
proof
  assume "v_verdict_hash v = v_verdict_hash w"
  from verdict_hash_same [OF assms(1,2) this] assms(3-6) show False
    by (simp add: hash_safe_def)
qed


section \<open>Properties\<close>

text \<open>
  C4: tampering shows exactly where the policy looks. Whatever server answers, take a manifest the panel has verified with
  the kernel of \<^verbatim>\<open>kernel/\<close>, and run the demonstration, which raises the first claim's observed value: if the policy prices
  that claim the panel reports a mismatch, as no two of the texts hashed collide; if it does not, the panel reports the
  tampered claim set as verified. Observed values are below \<open>2^52\<close> in absolute value, so the change is not lost in rounding.
\<close>

theorem tampering_shown:
  assumes "serde from_str to_string"
    and "claims (m_investigation_id (sm_manifest sealed)) = HttpOk body"
    and "vp_result (runVerification engine_text blake3 claims prf (browser_kernel from_str to_string blake3) False sealed) = ResultMatch"
    and "policy_fits (cb_policy body)" "build_policy (policy_input (cb_policy body)) = Inr policy"
    and "list_all numbers_fit (cb_claims body)" "observed_small (hd (cb_claims body))"
    and "hash_safe blake3 (verdict_on blake3 policy (m_kernel_version (sm_manifest sealed)) (cb_claims body))
           (verdict_on blake3 policy (m_kernel_version (sm_manifest sealed)) (tamper (cb_claims body)))
           (map kernel_claim (cb_claims body @ tamper (cb_claims body)))"
  shows "vp_result (runVerification engine_text blake3 claims prf (browser_kernel from_str to_string blake3) True sealed) =
    (if kp_predicate_weights policy (lc_predicate (hd (cb_claims body))) = None then ResultMatch else ResultMismatch)"
proof -
  let ?k = "run_kernel (kernel_wasm from_str to_string blake3)" and ?version = "m_kernel_version (sm_manifest sealed)"
  from assms(2,3) obtain v where ne: "cb_claims body \<noteq> []"
    and inc: "all_included blake3 (prf (m_investigation_id (sm_manifest sealed))) (evidence_set (cb_claims body))"
    and run: "?k (panel_request False sealed body) = Inr (KernelOk v)" "kv_verdict_hash v = m_verdict_hash (sm_manifest sealed)"
    unfolding browser_kernel by (auto elim!: verification_only_match)
  then obtain c cs where cs: "cb_claims body = c # cs" by (cases "cb_claims body") auto
  obtain n where t: "tamper (c # cs) = c\<lparr>lc_observed_value := Some n\<rparr> # cs" "\<bar>n\<bar> < 2 ^ 53" "lc_observed_value c \<noteq> Some n"
    using tamper_Cons [of c cs] assms(7) by (auto simp: cs)
  let ?d = "c\<lparr>lc_observed_value := Some n\<rparr>"
  note kernel = serde.panel_kernel [OF assms(1,4,5)]
  have fit: "list_all numbers_fit (c # cs)" "list_all numbers_fit (?d # cs)"
    using assms(6) shortest_int_small [OF t(2)] t(2) by (auto simp: cs numbers_fit_def i64_def)
  have ev: "\<forall>x \<in> set (c # cs). lc_evidence x \<noteq> []"
    using kernel(2) [OF fit(1)] run(1) by (simp add: panel_request_def cs)
  then have ev': "\<forall>x \<in> set (?d # cs). lc_evidence x \<noteq> []" by simp
  have sealed: "m_verdict_hash (sm_manifest sealed) = hex_encode (v_verdict_hash (verdict_on blake3 policy ?version (c # cs)))"
    using run kernel(1) [OF fit(1) ev] by (auto simp: panel_request_def cs)
  have result: "vp_result (runVerification engine_text blake3 claims prf (browser_kernel from_str to_string blake3) True sealed) =
      (if v_verdict_hash (verdict_on blake3 policy ?version (?d # cs)) = v_verdict_hash (verdict_on blake3 policy ?version (c # cs))
       then ResultMatch else ResultMismatch)"
    unfolding browser_kernel
    using verification_result [where claims = claims and sealed = sealed and proofs = "prf" and k = ?k and withTamper = True, OF assms(2) ne inc] kernel(1) [OF fit(2) ev', of blake3 ?version]
    by (simp add: panel_request_def cs t(1) sealed hex_encode_inject)
  have total: "adjudicate blake3 (map kernel_claim xs) policy ?version = Some (verdict_on blake3 policy ?version xs)" for xs :: "LedgerClaim list"
    using adjudicate_total [OF build_policy_total [OF assms(5)]] by (auto simp: verdict_on_def)
  show ?thesis
  proof (cases "kp_predicate_weights policy (lc_predicate c) = None")
    case True
    then have "\<not> usable policy (kernel_claim c)" "\<not> usable policy (kernel_claim ?d)" by (simp_all add: usable_def kernel_claim_def)
    then have "verdict_on blake3 policy ?version (?d # cs) = verdict_on blake3 policy ?version (c # cs)"
      by (simp add: verdict_on_def unpriced_claim_unbound)
    with True result show ?thesis by (simp add: cs)
  next
    case False
    then have u: "usable policy (kernel_claim c)" "usable policy (kernel_claim ?d)" using ev by (auto simp: usable_def kernel_claim_def)
    have "cl_observed_value (kernel_claim c) \<noteq> Some n"
      using t(3) assms(7) by (auto simp: kernel_claim_def cs observed_small_def shortest_int_small)
    then have "canonical_claim (kernel_claim c) \<noteq> canonical_claim (kernel_claim ?d)"
      by (auto simp: canonical_claim_def kernel_claim_observed [OF t(2)] dest: arg_cong [where f = cl_observed_value])
    then have "v_verdict_hash (verdict_on blake3 policy ?version (c # cs)) \<noteq> v_verdict_hash (verdict_on blake3 policy ?version (?d # cs))"
      using changed_claim_changes_hash [OF total [of "c # cs", simplified] total [of "?d # cs", simplified] u] assms(8)
      by (simp add: cs t(1))
    with False result show ?thesis by (simp add: cs eq_commute)
  qed
qed

text \<open>A server that serves one claim, under a policy that prices it.\<close>

definition demo_claim :: LedgerClaim where
  "demo_claim = \<lparr>lc_predicate = ''P'', lc_subject = ''s'', lc_object = None, lc_interval_start_ns = 0, lc_interval_end_ns = 0,
     lc_evidence = [''e''], lc_extractor_kind = ''rule'', lc_extractor_id = ''x'', lc_extractor_version = ''1'',
     lc_observed_value = None, lc_polarity = Supports, lc_hypothesis_ref = None, lc_claim_id = []\<rparr>"

definition demo_body :: ClaimsBody where
  "demo_body = \<lparr>cb_claims = [demo_claim],
     cb_policy = \<lparr>pb_policy_version = ''p'', pb_predicate_weights = [(''P'', \<lparr>pw_tactic = ''execution'', pw_weight = 1000, pw_techniques = []\<rparr>)],
       pb_chain_multipliers = [], pb_severity_thresholds = [(0, ''info'')]\<rparr>,
     cb_evidenceIds = [''e''], cb_merkleRoot = []\<rparr>"

definition demo_proof :: "string \<Rightarrow> string \<Rightarrow> InclusionProof http" where
  "demo_proof investigationId i = HttpOk \<lparr>ip_leafIndex = 0, ip_steps = [], ip_root = bytesToHex (leafHash tail_hash i)\<rparr>"

definition demo_sealed :: SealedManifest where
  "demo_sealed = sample_sealed\<lparr>sm_manifest := (sample_manifest ''p'')\<lparr>m_kernel_version := [],
     m_verdict_hash := hex_encode (v_verdict_hash (tamper_verdict None))\<rparr>\<rparr>"

lemma demo_kernel_claim:
  "kernel_claim demo_claim = tamper_claim None"
  "kernel_claim (demo_claim\<lparr>lc_observed_value := Some 999999\<rparr>) = tamper_claim (Some 999999)"
  by (simp_all add: kernel_claim_def demo_claim_def tamper_claim_def shortest_int_small)

lemma demo_tamper: "tamper (cb_claims demo_body) = [demo_claim\<lparr>lc_observed_value := Some 999999\<rparr>]"
  using num_add_small [of 0] by (simp add: tamper_def demo_body_def demo_claim_def)

lemma demo_policy:
  "policy_fits (cb_policy demo_body)" "build_policy (policy_input (cb_policy demo_body)) = Inr tamper_policy"
  by (simp_all add: demo_body_def policy_fits_def policy_input_def weight_input_def shortest_int_small i64_small build_policy_def
      build_weight_def build_threshold_def tactic_named_def Tactic_from_name_def Tactic_ALL_def Severity_from_name_def
      PolicyBundle_new_def tamper_policy_def)

lemma demo_fits: "numbers_fit demo_claim" "observed_small demo_claim" "lc_evidence demo_claim = [''e'']" "lc_predicate demo_claim = ''P''"
  by (simp_all add: demo_claim_def numbers_fit_def observed_small_def shortest_int_small i64_small)

lemma demo_verdicts:
  "verdict_on tail_hash tamper_policy [] [demo_claim] = tamper_verdict None"
  "verdict_on tail_hash tamper_policy [] [demo_claim\<lparr>lc_observed_value := Some 999999\<rparr>] = tamper_verdict (Some 999999)"
  by (simp_all add: verdict_on_def tamper_verdict_def demo_kernel_claim)

lemma demo_safe: "hash_safe tail_hash (tamper_verdict None) (tamper_verdict (Some 999999)) [tamper_claim None, tamper_claim (Some 999999)]"
proof -
  have "collision_free tail_hash ([verdict_bytes (tamper_verdict None), verdict_bytes (tamper_verdict (Some 999999))] @
     map claim_bytes ([tamper_claim None] @ [tamper_claim (Some 999999)]))"
    using tamper_free by (simp only: distinct_map collision_free_def)
  then show ?thesis by (simp add: hash_safe_def tamper_verdict_sized tamper_sized)
qed

lemma demo_verified:
  "vp_result (runVerification (\<lambda>_. []) tail_hash (\<lambda>_. HttpOk demo_body) demo_proof
     (browser_kernel exact_from_str exact_to_string tail_hash) False demo_sealed) = ResultMatch"
proof -
  have "run_kernel (kernel_wasm exact_from_str exact_to_string tail_hash) (panel_request False demo_sealed demo_body) =
      Inr (KernelOk (kernel_verdict (tamper_verdict None) [hex_encode (claim_id tail_hash (tamper_claim None))]))"
    using exact.panel_kernel(1) [OF demo_policy, of "[demo_claim]" tail_hash "[]"]
    by (simp add: panel_request_def demo_sealed_def demo_body_def demo_fits demo_verdicts demo_kernel_claim)
  moreover have "all_included tail_hash (demo_proof i) (evidence_set (cb_claims demo_body))" for i
    by (simp add: all_included_iff demo_proof_def verifyInclusion_def)
  ultimately show ?thesis
    unfolding browser_kernel
    using verification_result [where claims = "\<lambda>_. HttpOk demo_body" and sealed = demo_sealed and proofs = demo_proof and body = demo_body]
    by (simp add: demo_body_def demo_sealed_def)
qed

theorem tampering_shown_witness:
  "vp_result (runVerification (\<lambda>_. []) tail_hash (\<lambda>_. HttpOk demo_body) demo_proof
     (browser_kernel exact_from_str exact_to_string tail_hash) False demo_sealed) = ResultMatch \<and>
   vp_result (runVerification (\<lambda>_. []) tail_hash (\<lambda>_. HttpOk demo_body) demo_proof
     (browser_kernel exact_from_str exact_to_string tail_hash) True demo_sealed) = ResultMismatch"
proof -
  have c: "cb_claims demo_body = [demo_claim]" by (simp add: demo_body_def)
  note t = demo_tamper [unfolded c]
  have v: "m_kernel_version (sm_manifest demo_sealed) = []" by (simp add: demo_sealed_def)
  have "kp_predicate_weights tamper_policy ''P'' \<noteq> None" by (simp add: tamper_policy_def)
  then show ?thesis
    using demo_verified tampering_shown [OF exact.serde_axioms refl demo_verified demo_policy]
    by (simp add: t c v demo_fits demo_verdicts demo_kernel_claim demo_safe)
qed

end
