(* ===== verification/Timeline_View.thy ===== *)
theory Timeline_View
  imports Chrome Case_Stream Api
begin

text \<open>
  The timeline reconstructor, \<^verbatim>\<open>web/src/components/timeline\<close>: the time scale with its optional compression of idle
  stretches, the track of events per tactic, and the page around it. Pixel positions are doubles; instants and
  their differences are integral milliseconds.
\<close>

section \<open>The time scale\<close>

definition BAND_HEIGHT :: nat where "BAND_HEIGHT = 32"
definition IDLE_GAP_THRESHOLD_MS :: int where "IDLE_GAP_THRESHOLD_MS = 60 * 60 * 1000"
definition COMPRESSED_GAP_PX :: rat where "COMPRESSED_GAP_PX = 24"

record Segment =
  sg_startMs :: int
  sg_endMs :: int
  sg_pxStart :: rat
  sg_pxWidth :: rat

text \<open>The first loop: the active stretches, from the instants after the first in order.\<close>

fun stretches :: "int \<Rightarrow> int \<Rightarrow> int list \<Rightarrow> (int \<times> int) list" where
  "stretches segStart lastMs [] = [(segStart, lastMs)]"
| "stretches segStart lastMs (t # ts) =
     (if t - lastMs > IDLE_GAP_THRESHOLD_MS then (segStart, lastMs) # stretches t t ts else stretches segStart t ts)"

text \<open>The second loop: their places; \<open>first\<close> is \<^verbatim>\<open>i === 0\<close>.\<close>

fun place :: "rat \<Rightarrow> bool \<Rightarrow> rat \<Rightarrow> (int \<times> int) list \<Rightarrow> Segment list \<times> rat" where
  "place pxPerMs first cursor [] = ([], cursor)"
| "place pxPerMs first cursor ((a, b) # rest) =
     (let c = (if first then cursor else js_add cursor COMPRESSED_GAP_PX);
          w = max 4 (js_mul (of_int (b - a)) pxPerMs);
          (segs, wid) = place pxPerMs False (js_add c w) rest
      in (\<lparr>sg_startMs = a, sg_endMs = b, sg_pxStart = c, sg_pxWidth = w\<rparr> # segs, wid))"

definition segment_px :: "rat \<Rightarrow> Segment list \<Rightarrow> int \<Rightarrow> rat" where
  "segment_px pxPerMs segments ms =
     (case find (\<lambda>s. sg_startMs s \<le> ms \<and> ms \<le> sg_endMs s) segments of
        Some seg \<Rightarrow> js_add (sg_pxStart seg) (js_mul (of_int (ms - sg_startMs seg)) pxPerMs)
      | None \<Rightarrow>
          (case find (\<lambda>s. ms < sg_startMs s) segments of
             Some after \<Rightarrow> sg_pxStart after
           | None \<Rightarrow> js_add (sg_pxStart (last segments)) (sg_pxWidth (last segments))))"

record Scale =
  sc_segments :: "Segment list"
  sc_totalPx :: rat
  sc_toPx :: "int \<Rightarrow> rat"

definition buildScale :: "TimelineEvent list \<Rightarrow> bool \<Rightarrow> rat \<Rightarrow> Scale" where
  "buildScale events compress pxPerMs =
     (if events = [] then \<lparr>sc_segments = [], sc_totalPx = 0, sc_toPx = (\<lambda>_. 0)\<rparr>
      else let sorted = map te_atMs (sort_key te_atMs events); minMs = hd sorted; maxMs = last sorted in
        if \<not> compress
        then let totalPx = max 1 (js_mul (of_int (maxMs - minMs)) pxPerMs)
             in \<lparr>sc_segments = [\<lparr>sg_startMs = minMs, sg_endMs = maxMs, sg_pxStart = 0, sg_pxWidth = totalPx\<rparr>],
                 sc_totalPx = totalPx, sc_toPx = (\<lambda>ms. js_mul (of_int (ms - minMs)) pxPerMs)\<rparr>
        else let (segments, wid) = place pxPerMs True 0 (stretches minMs minMs (tl sorted))
             in \<lparr>sc_segments = segments, sc_totalPx = wid, sc_toPx = segment_px pxPerMs segments\<rparr>)"

section \<open>Track and page\<close>

definition pxPerMsActive :: "rat \<Rightarrow> rat" where
  "pxPerMsActive zoom = (let p = js_mul (fl (6 / 100000)) zoom in if p = 0 then fl (6 / 100000) else p)"

datatype timeline_action = SelectEvent string | ToggleCompress | ZoomOut | ZoomIn

text \<open>A dot with its position; \<open>locale_date\<close> is \<^verbatim>\<open>toLocaleString\<close> of an instant.\<close>

definition event_dot :: "(int \<Rightarrow> string) \<Rightarrow> (int \<Rightarrow> rat) \<Rightarrow> string option \<Rightarrow> TimelineEvent \<Rightarrow> rat \<times> timeline_action html" where
  "event_dot locale_date toPx selectedEventId e =
     (toPx (te_atMs e),
      El ''button'' [(''type'', ''button''),
          (''aria-label'', te_predicate e @ '' on '' @ te_entity e @ '' at '' @ locale_date (te_atMs e)),
          (''aria-pressed'', show_bool (selectedEventId = Some (te_id e)))] [(''onClick'', SelectEvent (te_id e))] [])"

definition TimelineTrack ::
  "(int \<Rightarrow> string) \<Rightarrow> TimelineEvent list \<Rightarrow> bool \<Rightarrow> rat \<Rightarrow> string option \<Rightarrow> rat \<times> (Tactic \<times> (rat \<times> timeline_action html) list) list" where
  "TimelineTrack locale_date events compress zoom selectedEventId =
     (let scale = buildScale events compress (pxPerMsActive zoom)
      in (max 800 (js_add (sc_totalPx scale) 80),
          map (\<lambda>tactic. (tactic, map (event_dot locale_date (sc_toPx scale) selectedEventId) (filter (\<lambda>e. te_tactic e = tactic) events))) TACTICS))"

record TimelineState =
  tl_compress :: bool
  tl_zoom :: rat
  tl_selectedEventId :: "string option"

definition timeline_init :: TimelineState where
  "timeline_init = \<lparr>tl_compress = False, tl_zoom = 1, tl_selectedEventId = None\<rparr>"

fun timeline_do :: "timeline_action \<Rightarrow> TimelineState \<Rightarrow> TimelineState" where
  "timeline_do (SelectEvent i) s = s\<lparr>tl_selectedEventId := Some i\<rparr>"
| "timeline_do ToggleCompress s = s\<lparr>tl_compress := \<not> tl_compress s\<rparr>"
| "timeline_do ZoomOut s = s\<lparr>tl_zoom := max (fl (25 / 100)) (js_div (tl_zoom s) (fl (15 / 10)))\<rparr>"
| "timeline_do ZoomIn s = s\<lparr>tl_zoom := min 8 (js_mul (tl_zoom s) (fl (15 / 10)))\<rparr>"

definition selectedEvent :: "TimelineEvent list \<Rightarrow> TimelineState \<Rightarrow> TimelineEvent option" where
  "selectedEvent events s = find (\<lambda>e. Some (te_id e) = tl_selectedEventId s) events"

definition timeline_toolbar :: "Case \<Rightarrow> TimelineState \<Rightarrow> timeline_action html" where
  "timeline_toolbar c s =
     El ''div'' [] []
       [El ''div'' [] [] [Txt (c_title c)], El ''div'' [] [] [Txt (c_primaryEntity c)],
        El ''label'' [] [] [El ''input'' ((''type'', ''checkbox'') # when_shown (tl_compress s) [(''checked'', ''true'')])
            [(''onChange'', ToggleCompress)] [], Txt ''Compress idle time''],
        El ''button'' [(''aria-label'', ''Zoom out'')] [(''onClick'', ZoomOut)] [],
        El ''button'' [(''aria-label'', ''Zoom in'')] [(''onClick'', ZoomIn)] []]"

definition event_line :: "(int \<Rightarrow> string) \<Rightarrow> TimelineEvent \<Rightarrow> timeline_action html" where
  "event_line locale_date e =
     El ''div'' [] []
       [El ''span'' [] [] [Txt (te_predicate e)], El ''span'' [] [] [Txt (locale_date (te_atMs e))],
        El ''span'' [] [] [Txt (''claim:'' @ take 12 (te_claimId e) @ ellipsis)]]"

text \<open>
  The page for the query parameter, the fetched answer (\<^verbatim>\<open>None\<close> while it loads) and the state. The answer to an unknown
  case has no \<^verbatim>\<open>events\<close>: reading them throws.
\<close>

definition TimelineClient ::
  "(int \<Rightarrow> string) \<Rightarrow> string option \<Rightarrow> (Case \<times> TimelineEvent list option) http option \<Rightarrow> TimelineState \<Rightarrow> timeline_action html result" where
  "TimelineClient locale_date caseId answer s =
     (if caseId = None \<or> caseId = Some []
      then Inr (EmptyState ''No case selected''
        (''Open a case from the Watchfloor (press i on a selected row, or select '' @ [CHR 0xE2, CHR 0x80, CHR 0x9C] @
         ''Open investigation'' @ [CHR 0xE2, CHR 0x80, CHR 0x9D] @ '') to reconstruct its timeline.'')
        ''Select a case to begin'')
      else case answer of
        None \<Rightarrow> Inr (El ''div'' [] [] [Txt (''Loading timeline'' @ ellipsis)])
      | Some (HttpOk (c, Some events)) \<Rightarrow>
          Inr (El ''div'' [] []
            (timeline_toolbar c s #
             map (\<lambda>(tactic, dots). El ''div'' [] [] (Txt (tactic_name tactic) # map snd dots))
               (snd (TimelineTrack locale_date events (tl_compress s) (tl_zoom s) (tl_selectedEventId s))) @
             map (event_line locale_date) (opt_list (selectedEvent events s))))
      | Some _ \<Rightarrow> Inl TypeError)"

section \<open>The scale keeps the order of time\<close>

lemma stretch_first:
  "sorted (lastMs # ts) \<Longrightarrow> segStart \<le> lastMs \<Longrightarrow>
     \<exists>p \<in> set (stretches segStart lastMs ts). fst p = segStart \<and> lastMs \<le> snd p"
proof (induction segStart lastMs ts rule: stretches.induct)
  case (2 segStart lastMs t ts)
  then show ?case by (cases "t - lastMs > IDLE_GAP_THRESHOLD_MS") fastforce+
qed simp

lemma stretches_facts:
  assumes "sorted (lastMs # ts)" "segStart \<le> lastMs"
  shows "sorted_wrt (\<lambda>p q. snd p < fst q) (stretches segStart lastMs ts) \<and>
    (\<forall>p \<in> set (stretches segStart lastMs ts). segStart \<le> fst p \<and> fst p \<le> snd p) \<and>
    (\<forall>t \<in> set (lastMs # ts). \<exists>p \<in> set (stretches segStart lastMs ts). fst p \<le> t \<and> t \<le> snd p)"
  using assms
proof (induction segStart lastMs ts rule: stretches.induct)
  case (2 segStart lastMs t ts)
  show ?case
  proof (cases "t - lastMs > IDLE_GAP_THRESHOLD_MS")
    case True
    then have lt: "lastMs < t" by (simp add: IDLE_GAP_THRESHOLD_MS_def)
    from 2(1) [OF True] 2(3) have ih: "sorted_wrt (\<lambda>p q. snd p < fst q) (stretches t t ts)"
      "\<forall>p \<in> set (stretches t t ts). t \<le> fst p \<and> fst p \<le> snd p"
      "\<forall>u \<in> set (t # ts). \<exists>p \<in> set (stretches t t ts). fst p \<le> u \<and> u \<le> snd p" by simp_all
    have "\<forall>p \<in> set (stretches t t ts). segStart \<le> fst p \<and> lastMs < fst p" using ih(2) lt 2(4) by fastforce
    with True ih 2(4) show ?thesis by simp
  next
    case False
    have le: "segStart \<le> lastMs" "lastMs \<le> t" using 2 by simp_all
    with 2 False have ih: "sorted_wrt (\<lambda>p q. snd p < fst q) (stretches segStart t ts)"
      "\<forall>p \<in> set (stretches segStart t ts). segStart \<le> fst p \<and> fst p \<le> snd p"
      "\<forall>u \<in> set (t # ts). \<exists>p \<in> set (stretches segStart t ts). fst p \<le> u \<and> u \<le> snd p" by simp_all
    obtain p where "p \<in> set (stretches segStart t ts)" "fst p = segStart" "t \<le> snd p"
      using 2(3) le stretch_first [of t ts segStart] by auto
    with le have "\<exists>p \<in> set (stretches segStart t ts). fst p \<le> lastMs \<and> lastMs \<le> snd p" by (intro bexI [of _ p]) simp_all
    with ih False show ?thesis by simp
  qed
qed simp

definition seg_end :: "Segment \<Rightarrow> rat" where
  "seg_end s = js_add (sg_pxStart s) (sg_pxWidth s)"

definition seg_ok :: "rat \<Rightarrow> Segment \<Rightarrow> bool" where
  "seg_ok pxPerMs s \<longleftrightarrow> fl (sg_pxStart s) = sg_pxStart s \<and> sg_pxWidth s = max 4 (js_mul (of_int (sg_endMs s - sg_startMs s)) pxPerMs)"

lemma js_add_ge: "fl a = a \<Longrightarrow> 0 \<le> b \<Longrightarrow> a \<le> js_add a b"
  using fl_mono [of a "a + b"] by (simp add: js_add_def)

lemma place_facts:
  "place pxPerMs first cursor ps = (segs, wid) \<Longrightarrow> fl cursor = cursor \<Longrightarrow>
     map (\<lambda>s. (sg_startMs s, sg_endMs s)) segs = ps \<and> cursor \<le> wid \<and>
     (\<forall>s \<in> set segs. cursor \<le> sg_pxStart s \<and> seg_end s \<le> wid \<and> seg_ok pxPerMs s) \<and>
     sorted_wrt (\<lambda>s s'. seg_end s \<le> sg_pxStart s') segs"
proof (induction pxPerMs first cursor ps arbitrary: segs wid rule: place.induct)
  case (2 pxPerMs first cursor a b rest)
  define c where "c = (if first then cursor else js_add cursor COMPRESSED_GAP_PX)"
  define w where "w = max 4 (js_mul (of_int (b - a)) pxPerMs)"
  obtain segs' where rest: "place pxPerMs False (js_add c w) rest = (segs', wid)"
    and segs: "segs = \<lparr>sg_startMs = a, sg_endMs = b, sg_pxStart = c, sg_pxWidth = w\<rparr> # segs'"
    using 2(2) by (auto simp: c_def w_def Let_def split: prod.splits)
  have c: "fl c = c" "cursor \<le> c"
    using 2(3) js_add_ge [of cursor COMPRESSED_GAP_PX] by (auto simp: c_def js_add_def fl_idem COMPRESSED_GAP_PX_def)
  then have w: "c \<le> js_add c w" by (intro js_add_ge) (simp_all add: w_def)
  have ih: "map (\<lambda>s. (sg_startMs s, sg_endMs s)) segs' = rest \<and> js_add c w \<le> wid \<and>
     (\<forall>s \<in> set segs'. js_add c w \<le> sg_pxStart s \<and> seg_end s \<le> wid \<and> seg_ok pxPerMs s) \<and>
     sorted_wrt (\<lambda>s s'. seg_end s \<le> sg_pxStart s') segs'"
    by (rule 2(1) [OF c_def w_def rest]) (simp add: js_add_def fl_idem)
  with c w show ?case by (auto simp: segs seg_end_def seg_ok_def w_def)
qed simp

text \<open>The position of an instant inside a stretch, between the two ends of its segment.\<close>

lemma segment_position:
  assumes "seg_ok pxPerMs s" "sg_startMs s \<le> ms" "ms \<le> sg_endMs s" "0 < pxPerMs"
  shows "sg_pxStart s \<le> js_add (sg_pxStart s) (js_mul (of_int (ms - sg_startMs s)) pxPerMs)"
    "js_add (sg_pxStart s) (js_mul (of_int (ms - sg_startMs s)) pxPerMs) \<le> seg_end s"
proof -
  have "0 \<le> js_mul (of_int (ms - sg_startMs s)) pxPerMs"
    unfolding js_mul_def using assms by (intro dbl.rnd_nonneg mult_nonneg_nonneg) simp_all
  with assms(1) show "sg_pxStart s \<le> js_add (sg_pxStart s) (js_mul (of_int (ms - sg_startMs s)) pxPerMs)"
    by (intro js_add_ge) (simp_all add: seg_ok_def)
  have "js_mul (of_int (ms - sg_startMs s)) pxPerMs \<le> js_mul (of_int (sg_endMs s - sg_startMs s)) pxPerMs"
    unfolding js_mul_def using assms by (intro fl_mono mult_right_mono) simp_all
  also have "\<dots> \<le> sg_pxWidth s" using assms(1) by (simp add: seg_ok_def)
  finally show "js_add (sg_pxStart s) (js_mul (of_int (ms - sg_startMs s)) pxPerMs) \<le> seg_end s"
    unfolding js_add_def seg_end_def by (intro fl_mono) simp
qed

definition covers :: "Segment \<Rightarrow> int \<Rightarrow> bool" where
  "covers s ms \<longleftrightarrow> sg_startMs s \<le> ms \<and> ms \<le> sg_endMs s"

definition segs_ok :: "rat \<Rightarrow> Segment list \<Rightarrow> bool" where
  "segs_ok pxPerMs segs \<longleftrightarrow> (\<forall>s \<in> set segs. seg_ok pxPerMs s) \<and>
     sorted_wrt (\<lambda>s s'. sg_endMs s < sg_startMs s' \<and> seg_end s \<le> sg_pxStart s') segs"

lemma segment_px_found:
  assumes "\<exists>s \<in> set segs. covers s ms"
  obtains s where "s \<in> set segs" "covers s ms"
    "segment_px pxPerMs segs ms = js_add (sg_pxStart s) (js_mul (of_int (ms - sg_startMs s)) pxPerMs)"
proof (cases "find (\<lambda>s. sg_startMs s \<le> ms \<and> ms \<le> sg_endMs s) segs")
  case None
  with assms show thesis by (auto simp: find_None_iff covers_def)
next
  case (Some s)
  with that [of s] show thesis by (auto simp: find_Some_iff segment_px_def covers_def)
qed

lemma segment_px_mono:
  assumes "segs_ok pxPerMs segs" "\<exists>s \<in> set segs. covers s a" "\<exists>s \<in> set segs. covers s b" "a \<le> b" "0 < pxPerMs"
  shows "segment_px pxPerMs segs a \<le> segment_px pxPerMs segs b"
proof -
  obtain s where s: "s \<in> set segs" "covers s a"
    "segment_px pxPerMs segs a = js_add (sg_pxStart s) (js_mul (of_int (a - sg_startMs s)) pxPerMs)"
    using segment_px_found [OF assms(2)] by blast
  obtain s' where s': "s' \<in> set segs" "covers s' b"
    "segment_px pxPerMs segs b = js_add (sg_pxStart s') (js_mul (of_int (b - sg_startMs s')) pxPerMs)"
    using segment_px_found [OF assms(3)] by blast
  from s(1) s'(1) obtain i j where ij: "i < length segs" "s = segs ! i" "j < length segs" "s' = segs ! j" by (metis in_set_conv_nth)
  consider "i = j" | "i < j" | "j < i" by linarith
  then show ?thesis
  proof cases
    case 1
    with ij s(3) s'(3) assms(4,5) show ?thesis
      by (auto simp: js_add_def js_mul_def intro!: fl_mono mult_right_mono)
  next
    case 2
    with ij assms(1) have "seg_end s \<le> sg_pxStart s'" by (simp add: segs_ok_def sorted_wrt_iff_nth_less)
    moreover have "seg_ok pxPerMs s" "seg_ok pxPerMs s'" using assms(1) s(1) s'(1) by (simp_all add: segs_ok_def)
    ultimately show ?thesis
      using segment_position(2) [of pxPerMs s a] segment_position(1) [of pxPerMs s' b] s(2,3) s'(2,3) assms(5)
      by (simp add: covers_def)
  next
    case 3
    with ij assms(1) have "sg_endMs s' < sg_startMs s" by (simp add: segs_ok_def sorted_wrt_iff_nth_less)
    with s(2) s'(2) assms(4) show ?thesis by (simp add: covers_def)
  qed
qed

lemma compressed_segments:
  assumes "sorted (m # ts)" "place pxPerMs True 0 (stretches m m ts) = (segs, wid)"
  shows "segs_ok pxPerMs segs" "\<forall>t \<in> set (m # ts). \<exists>s \<in> set segs. covers s t"
    "\<forall>s \<in> set segs. 0 \<le> sg_pxStart s \<and> seg_end s \<le> wid"
proof -
  have p: "map (\<lambda>s. (sg_startMs s, sg_endMs s)) segs = stretches m m ts"
    "\<forall>s \<in> set segs. 0 \<le> sg_pxStart s \<and> seg_end s \<le> wid \<and> seg_ok pxPerMs s"
    "sorted_wrt (\<lambda>s s'. seg_end s \<le> sg_pxStart s') segs"
    using place_facts [OF assms(2)] by simp_all
  note st = stretches_facts [OF assms(1) order_refl, folded p(1)]
  from st have "sorted_wrt (\<lambda>s s'. sg_endMs s < sg_startMs s') segs" by (simp add: sorted_wrt_map)
  with p show "segs_ok pxPerMs segs" by (simp add: segs_ok_def sorted_wrt_iff_nth_less)
  show "\<forall>t \<in> set (m # ts). \<exists>s \<in> set segs. covers s t"
    using st by (auto simp: covers_def)
  show "\<forall>s \<in> set segs. 0 \<le> sg_pxStart s \<and> seg_end s \<le> wid" using p(2) by blast
qed

lemma segment_px_range:
  assumes "segs_ok pxPerMs segs" "\<forall>s \<in> set segs. 0 \<le> sg_pxStart s \<and> seg_end s \<le> wid" "\<exists>s \<in> set segs. covers s t" "0 < pxPerMs"
  shows "0 \<le> segment_px pxPerMs segs t \<and> segment_px pxPerMs segs t \<le> wid"
proof -
  obtain s where s: "s \<in> set segs" "covers s t"
    "segment_px pxPerMs segs t = js_add (sg_pxStart s) (js_mul (of_int (t - sg_startMs s)) pxPerMs)"
    using segment_px_found [OF assms(3)] by blast
  have "seg_ok pxPerMs s" using assms(1) s(1) by (simp add: segs_ok_def)
  with segment_position [of pxPerMs s t] s assms(2,4) show ?thesis by (force simp: covers_def)
qed

section \<open>Properties\<close>

text \<open>
  C31: the time scale, compressed or not, never reverses two events and keeps all of them on the track: for every pixel
  rate the position of an event is at least 0, at most the width of the track, and no smaller than that of an earlier
  event, in double arithmetic.
\<close>

theorem scale_keeps_order:
  assumes "0 < pxPerMs" "a \<in> set events" "b \<in> set events" "te_atMs a \<le> te_atMs b"
  shows "let sc = buildScale events compress pxPerMs in
    0 \<le> sc_toPx sc (te_atMs a) \<and> sc_toPx sc (te_atMs a) \<le> sc_toPx sc (te_atMs b) \<and> sc_toPx sc (te_atMs b) \<le> sc_totalPx sc"
proof -
  let ?ts = "map te_atMs (sort_key te_atMs events)"
  have ne: "events \<noteq> []" using assms(2) by auto
  then obtain m ts where ts: "?ts = m # ts" by (cases ?ts) auto
  have sorted: "sorted (m # ts)" using sorted_sort_key [of te_atMs events] by (simp add: ts)
  have mem: "te_atMs a \<in> set (m # ts)" "te_atMs b \<in> set (m # ts)" using assms(2,3) by (simp_all flip: ts)
  have lo: "m \<le> te_atMs a" using sorted mem(1) by auto
  have hi: "te_atMs b \<le> last (m # ts)" using sorted mem(2) by (metis in_set_conv_nth last_conv_nth length_pos_if_in_set less_Suc_eq_le list.distinct(1) One_nat_def Suc_pred diff_less less_one sorted_iff_nth_mono)
  show ?thesis
  proof (cases compress)
    case False
    have "js_mul (of_int (te_atMs b - m)) pxPerMs \<le> js_mul (of_int (last (m # ts) - m)) pxPerMs"
      unfolding js_mul_def using hi assms(1) by (intro fl_mono mult_right_mono) simp_all
    moreover have "js_mul (of_int (te_atMs a - m)) pxPerMs \<le> js_mul (of_int (te_atMs b - m)) pxPerMs"
      unfolding js_mul_def using assms(1,4) by (intro fl_mono mult_right_mono) simp_all
    moreover have "0 \<le> js_mul (of_int (te_atMs a - m)) pxPerMs"
      unfolding js_mul_def using lo assms(1) by (intro dbl.rnd_nonneg mult_nonneg_nonneg) simp_all
    ultimately show ?thesis using False ne by (simp add: buildScale_def Let_def ts)
  next
    case True
    obtain segs wid where pl: "place pxPerMs True 0 (stretches m m ts) = (segs, wid)" by fastforce
    note c = compressed_segments [OF sorted pl]
    have "buildScale events compress pxPerMs = \<lparr>sc_segments = segs, sc_totalPx = wid, sc_toPx = segment_px pxPerMs segs\<rparr>"
      using True ne pl by (simp add: buildScale_def Let_def ts)
    with segment_px_mono [OF c(1) bspec [OF c(2) mem(1)] bspec [OF c(2) mem(2)] assms(4,1)]
      segment_px_range [OF c(1,3) bspec [OF c(2) mem(1)] assms(1)] segment_px_range [OF c(1,3) bspec [OF c(2) mem(2)] assms(1)]
    show ?thesis by simp
  qed
qed

definition sample_event :: "int \<Rightarrow> TimelineEvent" where
  "sample_event t = \<lparr>te_id = ''e'', te_atMs = t, te_tactic = Execution, te_predicate = '''', te_entity = '''', te_claimId = ''''\<rparr>"

theorem scale_keeps_order_witness:
  "sc_toPx (buildScale [sample_event 9000000, sample_event 0] True (1 / 1000)) 0 \<le>
     sc_toPx (buildScale [sample_event 9000000, sample_event 0] True (1 / 1000)) 9000000"
  using scale_keeps_order [of "1 / 1000" "sample_event 0" "[sample_event 9000000, sample_event 0]" "sample_event 9000000" True]
  by (simp add: Let_def sample_event_def)

end
