(* ===== verification/Pages.thy ===== *)
theory Pages
  imports Chrome
begin

text \<open>
  The documents the server sends: \<^verbatim>\<open>app/layout.tsx\<close> with the theme provider, the shell of \<^verbatim>\<open>app/(console)/layout.tsx\<close> with
  its providers, and the pages of \<^verbatim>\<open>app/(console)\<close>. The client component a page places is an argument, because the parts
  of the console model their own views with their own actions; the placeholders ignore it.
\<close>

section \<open>Layouts\<close>

definition metadata :: "(string \<times> string) list" where
  "metadata = [(''title'', ''ATTESTA''), (''description'', ''Operator console'')]"

definition ThemeProvider :: "'a html \<Rightarrow> 'a html" where
  "ThemeProvider children =
     El ''NextThemesProvider'' [(''attribute'', ''class''), (''defaultTheme'', ''dark''), (''themes'', ''dark light''),
       (''enableSystem'', ''false''), (''disableTransitionOnChange'', ''true'')] [] [children]"

definition RootLayout :: "'a html \<Rightarrow> 'a html" where
  "RootLayout children =
     El ''html'' [(''lang'', ''en''), (''suppressHydrationWarning'', ''true'')] []
       [El ''body'' [] []
          [El ''a'' [(''href'', ''#main-content'')] [] [Txt ''Skip to main content''],
           ThemeProvider (El ''TooltipProvider'' [(''delayDuration'', ''300'')] [] [children])]]"

text \<open>Actions of the shell and of the client component of a page.\<close>

datatype 'a doc_action = ShellDo "shell_action list" | ClientDo 'a

definition QueryProvider :: "'a html \<Rightarrow> 'a html" where
  "QueryProvider children = El ''QueryClientProvider'' [(''staleTime'', ''5000'')] [] [children]"

text \<open>What the layout renders once it has a session; \<open>theme\<close> is what the mounted theme hook returns.\<close>

definition console_shell :: "Session \<Rightarrow> string \<Rightarrow> string option \<Rightarrow> Chrome \<Rightarrow> 'a doc_action html \<Rightarrow> 'a doc_action html" where
  "console_shell session pathname theme chrome children =
     El ''SessionProvider'' [] []
       [QueryProvider (El ''MotionConfig'' [(''reducedMotion'', ''user'')] []
          [El ''ConsoleChromeProvider'' [] []
             [El ''div'' [] []
                [map_html ShellDo (SidebarNav pathname (s_role session)),
                 El ''div'' [] []
                   [map_html ShellDo (Topbar session theme), El ''main'' [(''id'', ''main-content'')] [] [children]]],
              map_html ShellDo (CommandPalette (ch_paletteOpen chrome) (s_role session) theme),
              map_html ShellDo (ShortcutsHelp (ch_helpOpen chrome))]])]"

section \<open>Pages\<close>

definition WatchfloorPage :: "'a html \<Rightarrow> 'a html" where
  "WatchfloorPage client =
     El ''div'' [] [] [PageHeader ''Watchfloor'' (Some ''Live-updating, risk-ranked case queue''), El ''div'' [] [] [client]]"

definition InvestigationCanvasPage :: "'a html \<Rightarrow> 'a html" where
  "InvestigationCanvasPage client =
     El ''div'' [] [] [PageHeader ''Investigation Canvas'' (Some ''The evidence graph for a selected case''),
       El ''div'' [] [] [El ''Suspense'' [] [] [client]]]"

definition TimelinePage :: "'a html \<Rightarrow> 'a html" where
  "TimelinePage client =
     El ''div'' [] [] [PageHeader ''Timeline Reconstructor'' (Some ''ATT&CK tactics as horizontal bands, linked to the canvas''),
       El ''div'' [] [] [El ''Suspense'' [] [] [client]]]"

definition VerdictLedgerPage :: "'a html \<Rightarrow> 'a html" where
  "VerdictLedgerPage client =
     El ''div'' [] [] [PageHeader ''Verdict Ledger'' (Some ''The append-only manifest log, per tenant''), El ''div'' [] [] [client]]"

definition DriftMonitorPage :: "'a html \<Rightarrow> 'a html" where
  "DriftMonitorPage client =
     El ''div'' [] [] [PageHeader ''Drift Monitor'' (Some ''Cases whose disposition changed on re-adjudication''), client]"

definition ResponseConsolePage :: "'a html \<Rightarrow> 'a html" where
  "ResponseConsolePage client =
     El ''div'' [] [] [PageHeader ''Response Console'' (Some ''Proposed actions, blast radius, and autonomous-execution policy''),
       El ''div'' [] [] [client]]"

definition quoted :: "string \<Rightarrow> string" where
  "quoted s = [CHR 0xE2, CHR 0x80, CHR 0x9C] @ s @ [CHR 0xE2, CHR 0x80, CHR 0x9D]"

definition unscheduled :: string where
  "unscheduled = ''Not yet scheduled '' @ em_dash @ '' see phases/PHASES.md''"

definition CoverageMapPage :: "'a html" where
  "CoverageMapPage =
     El ''div'' [] []
       [PageHeader ''Coverage Map'' (Some ''ATT&CK matrix heatmap: rule exists, rule fires, telemetry supports it''),
        EmptyState ''No coverage data yet''
          (''Distinguishing '' @ quoted ''we have a rule'' @ '' from '' @ quoted ''the rule has ever fired'' @ '' from '' @
           quoted ''we have telemetry that would let it fire'' @ '' needs the CDL rule pack'' @ [CHR 0x27] @
           ''s real fire-rate history behind it.'') unscheduled]"

definition DetectionStudioPage :: "'a html" where
  "DetectionStudioPage =
     El ''div'' [] []
       [PageHeader ''Detection Studio'' (Some ''CDL rule authoring, test-against-history, versioning''),
        EmptyState ''No rule open''
          (''The live test-against-history panel compiles a CDL rule to the same SQL the streaming engine uses and shows what it would have fired on. The CDL compiler is real (detect/, Phase 3); this editor surface isn'' @
           [CHR 0x27] @ ''t built yet.'') unscheduled]"

text \<open>The route table of the group \<^verbatim>\<open>(console)\<close>: the directory of a page is its path.\<close>

definition page_at :: "string \<Rightarrow> Session \<Rightarrow> 'a html \<Rightarrow> 'a doc_action html option" where
  "page_at path session client =
     map_of [(''/'', map_html ClientDo (WatchfloorPage client)),
       (''/investigation-canvas'', map_html ClientDo (InvestigationCanvasPage client)),
       (''/timeline'', map_html ClientDo (TimelinePage client)),
       (''/verdict-ledger'', map_html ClientDo (VerdictLedgerPage client)),
       (''/drift-monitor'', map_html ClientDo (DriftMonitorPage client)),
       (''/response-console'', map_html ClientDo (ResponseConsolePage client)),
       (''/coverage-map'', CoverageMapPage), (''/detection-studio'', DetectionStudioPage),
       (''/tenant-admin'', map_html ShellDo (TenantAdminPage (Some session)))] path"

text \<open>The document a browser gets for an answer that is a page; \<open>form\<close> holds the query of the login page.\<close>

definition document_of ::
  "answer \<Rightarrow> string option \<times> string option \<Rightarrow> string option \<Rightarrow> Chrome \<Rightarrow> 'a html \<Rightarrow> 'a doc_action html option" where
  "document_of answer form theme chrome client =
     (case answer of
        Page path session \<Rightarrow>
          map_option (\<lambda>page. RootLayout (console_shell session path theme chrome page)) (page_at path session client)
      | LoginPage \<Rightarrow> Some (RootLayout (map_html ShellDo (LoginForm (fst form) (snd form))))
      | _ \<Rightarrow> None)"

section \<open>Reading a document\<close>

text \<open>The elements' identifiers, the texts of the headings of a level, and the links marked as the current page.\<close>

fun html_ids :: "'a html \<Rightarrow> string list" where
  "html_ids (Txt s) = []"
| "html_ids (El t as hs cs) = opt_list (map_of as ''id'') @ concat (map html_ids cs)"

fun headings :: "string \<Rightarrow> 'a html \<Rightarrow> string list" where
  "headings h (Txt s) = []"
| "headings h (El t as hs cs) = (if t = h then [concat (map html_text cs)] else []) @ concat (map (headings h) cs)"

fun current_links :: "'a html \<Rightarrow> string list" where
  "current_links (Txt s) = []"
| "current_links (El t as hs cs) =
     (if map_of as ''aria-current'' = Some ''page'' then opt_list (map_of as ''href'') else []) @ concat (map current_links cs)"

lemma html_text_map [simp]: "html_text (map_html f h) = html_text h"
  by (induction h rule: html_text.induct) (simp_all add: comp_def cong: map_cong)

lemma html_ids_map [simp]: "html_ids (map_html f h) = html_ids h"
  by (induction h rule: html_ids.induct) (simp_all add: comp_def cong: map_cong)

lemma headings_map [simp]: "headings t (map_html f h) = headings t h"
  by (induction t h rule: headings.induct) (simp_all add: comp_def cong: map_cong)

lemma current_links_map [simp]: "current_links (map_html f h) = current_links h"
  by (induction h rule: current_links.induct) (simp_all add: comp_def cong: map_cong)

lemmas shell_defs = SidebarNav_def Topbar_def CommandPalette_def ShortcutsHelp_def ShortcutRow_def

lemma shell_ids:
  "html_ids (SidebarNav p r) = []" "html_ids (Topbar s th) = []" "html_ids (CommandPalette b r th) = []" "html_ids (ShortcutsHelp b) = []"
  by (simp_all add: shell_defs Let_def comp_def)

lemma shell_headings:
  "headings ''h1'' (SidebarNav p r) = []" "headings ''h1'' (Topbar s th) = []"
  "headings ''h1'' (CommandPalette b r th) = []" "headings ''h1'' (ShortcutsHelp b) = []"
  by (simp_all add: shell_defs Let_def comp_def)

lemma shell_currents:
  "current_links (Topbar s th) = []" "current_links (CommandPalette b r th) = []" "current_links (ShortcutsHelp b) = []"
  by (simp_all add: shell_defs Let_def comp_def)

lemma sidebar_current: "current_links (SidebarNav p r) = map sf_href (filter (\<lambda>s. sf_href s = p) (reachableSurfaces r))"
proof -
  have "concat (map (\<lambda>s. if p = sf_href s then [sf_href s] else []) xs) = map sf_href (filter (\<lambda>s. sf_href s = p) xs)" for xs
    by (induction xs) auto
  moreover have "current_links (SidebarNav p r) = concat (map (\<lambda>s. if p = sf_href s then [sf_href s] else []) (reachableSurfaces r))"
    unfolding SidebarNav_def Let_def by (simp add: comp_def cong: map_cong) (rule arg_cong [where f = concat], simp)
  ultimately show ?thesis by simp
qed

section \<open>Properties\<close>

lemma serve_page:
  assumes "getSession hmac jar = Some session" "path \<in> set console_pages"
  shows "serve hmac jar path = Page path session"
proof -
  have "map_of jar SESSION_COOKIE \<noteq> None" using assms(1) by (auto simp: getSession_def split: option.splits)
  then show ?thesis using assms by (simp add: serve_console ConsoleLayout_def)
qed

lemma filter_key_unique:
  "distinct (map f ys) \<Longrightarrow> a \<in> set ys \<Longrightarrow> map f (filter (\<lambda>x. f x = f a) (filter P ys)) = (if P a then [f a] else [])"
  by (induction ys) (auto simp: filter_empty_conv, metis imageI, metis imageI)

lemma reachable_current:
  assumes "surface \<in> set SURFACES"
  shows "map sf_href (filter (\<lambda>s. sf_href s = sf_href surface) (reachableSurfaces role)) =
    (if surface \<in> set (reachableSurfaces role) then [sf_href surface] else [])"
proof -
  have "distinct (map sf_href SURFACES)" by (simp add: SURFACES_def)
  from filter_key_unique [OF this assms] assms show ?thesis
    unfolding reachableSurfaces_def by (simp only: set_filter mem_Collect_eq simp_thms)
qed

text \<open>The part of a page that is not its own: the placeholders have none.\<close>

definition placed :: "string \<Rightarrow> 'a html \<Rightarrow> 'a html" where
  "placed path client = (if path \<in> {''/coverage-map'', ''/detection-studio'', ''/tenant-admin''} then Txt [] else client)"

lemma page_facts:
  assumes "surface \<in> set SURFACES"
  shows "\<exists>page. page_at (sf_href surface) session client = Some page \<and>
    html_ids page = html_ids (placed (sf_href surface) client) \<and>
    headings ''h1'' page = sf_label surface # headings ''h1'' (placed (sf_href surface) client) \<and>
    current_links page = current_links (placed (sf_href surface) client)"
proof -
  note pages = WatchfloorPage_def InvestigationCanvasPage_def TimelinePage_def VerdictLedgerPage_def DriftMonitorPage_def
    ResponseConsolePage_def CoverageMapPage_def DetectionStudioPage_def TenantAdminPage_def PageHeader_def EmptyState_def
  show ?thesis using assms unfolding SURFACES_def by (auto simp: page_at_def placed_def pages Let_def)
qed

text \<open>
  Every surface is a page of its own. With a valid session, each surface of the navigation is served as a document
  whose skip link has exactly one target, whose only first-level heading is the label the navigation uses for it, and in
  which the sidebar marks just this surface as current, nothing if the role does not list it; what the client component
  of the page contributes comes on top.
\<close>

theorem surface_documents:
  assumes "getSession hmac jar = Some session" "surface \<in> set SURFACES"
  shows "\<exists>doc. document_of (serve hmac jar (sf_href surface)) form theme chrome client = Some doc \<and>
    ''#main-content'' \<in> set (hrefs doc) \<and>
    html_ids doc = ''main-content'' # html_ids (placed (sf_href surface) client) \<and>
    headings ''h1'' doc = sf_label surface # headings ''h1'' (placed (sf_href surface) client) \<and>
    current_links doc = (if surface \<in> set (reachableSurfaces (s_role session)) then [sf_href surface] else []) @
      current_links (placed (sf_href surface) client)"
proof -
  have "sf_href surface \<in> set console_pages" using assms(2) by (auto simp: SURFACES_def console_pages_def)
  then have served: "serve hmac jar (sf_href surface) = Page (sf_href surface) session" by (rule serve_page [OF assms(1)])
  obtain page where page: "page_at (sf_href surface) session client = Some page"
    "html_ids page = html_ids (placed (sf_href surface) client)"
    "headings ''h1'' page = sf_label surface # headings ''h1'' (placed (sf_href surface) client)"
    "current_links page = current_links (placed (sf_href surface) client)"
    using page_facts [OF assms(2)] by blast
  show ?thesis
    by (simp add: document_of_def served page RootLayout_def ThemeProvider_def console_shell_def QueryProvider_def
        shell_ids shell_headings shell_currents sidebar_current reachable_current [OF assms(2)])
qed

theorem surface_documents_witness:
  "\<exists>doc. document_of (serve sample_hmac (createSession sample_hmac True 0 ''ana@tenant.example'' Auditor []) ''/tenant-admin'')
       (None, None) None chrome_init (Txt [] :: unit html) = Some doc \<and>
     html_ids doc = [''main-content''] \<and> headings ''h1'' doc = [''Tenant Admin''] \<and> current_links doc = [''/tenant-admin'']"
proof -
  let ?s = "\<lparr>sf_href = ''/tenant-admin'', sf_label = ''Tenant Admin'', sf_chordKey = ''a'', sf_roles = Some [''admin'', ''auditor'']\<rparr>"
  have s: "?s \<in> set SURFACES" by (simp add: SURFACES_def)
  have n: "fl (of_int 0) = of_int 0" by (rule fl_int) simp_all
  note session = session_created [of sample_hmac 0 True "''ana@tenant.example''" Auditor "[]", OF sample_hmac_length n]
  from s have "?s \<in> set (reachableSurfaces Auditor)" by (simp add: reachableSurfaces_def)
  then show ?thesis
    using surface_documents [OF session s, of "(None, None)" None chrome_init "Txt [] :: unit html"]
    by (auto simp: placed_def)
qed

text \<open>On the login page, which is outside the console layout, the skip link of the root layout leads nowhere.\<close>

lemma login_skip_link:
  "\<exists>doc. document_of LoginPage form theme chrome client = Some doc \<and> ''#main-content'' \<in> set (hrefs doc) \<and> ''main-content'' \<notin> set (html_ids doc)"
proof -
  have "html_ids (LoginForm target err) = [''email'', ''role'']" for target err
    by (simp add: LoginForm_def ROLES_def)
  then show ?thesis by (simp add: document_of_def RootLayout_def ThemeProvider_def)
qed

end
