(* ===== verification/Response_Console.thy ===== *)
theory Response_Console
  imports Api Chrome
begin

text \<open>
  The response console, \<^verbatim>\<open>web/src/components/response-console\<close>: the list of proposed actions, the detail view
  whose buttons wait for the blast radius, the autonomy toggles, and the loop between the console and the
  handlers of \<^verbatim>\<open>Api\<close>. Queries are what React Query reports of them: loading, a value, or a failure
  (\<^verbatim>\<open>isLoading\<close> false and no data).
\<close>

section \<open>Views\<close>

definition kind_name :: "ResponseActionKind \<Rightarrow> string" where
  "kind_name k = (case k of
     IsolateHost \<Rightarrow> ''isolate_host'' | DisableAccount \<Rightarrow> ''disable_account'' | RevokeSession \<Rightarrow> ''revoke_session''
   | BlockIndicator \<Rightarrow> ''block_indicator'' | QuarantineFile \<Rightarrow> ''quarantine_file'')"

definition KIND_LABEL :: "ResponseActionKind \<Rightarrow> string" where
  "KIND_LABEL k = (case k of
     IsolateHost \<Rightarrow> ''Isolate host'' | DisableAccount \<Rightarrow> ''Disable account'' | RevokeSession \<Rightarrow> ''Revoke session''
   | BlockIndicator \<Rightarrow> ''Block indicator'' | QuarantineFile \<Rightarrow> ''Quarantine file'')"

definition action_status_name :: "ActionStatus \<Rightarrow> string" where
  "action_status_name st = (case st of
     Pending \<Rightarrow> ''pending'' | Approved \<Rightarrow> ''approved'' | Modified \<Rightarrow> ''modified'' | Rejected \<Rightarrow> ''rejected'')"

datatype 'a query = QLoading | QData 'a | QFailed

datatype console_action = SelectAction string | Decide string ActionStatus | ToggleKind ResponseActionKind

definition ActionList :: "ResponseAction list \<Rightarrow> string option \<Rightarrow> console_action html" where
  "ActionList as selectedId =
     El ''ul'' [] []
       (map (\<lambda>a. El ''li'' [] []
          [El ''button'' [(''type'', ''button''), (''aria-current'', show_bool (selectedId = Some (ra_id a)))] [(''onClick'', SelectAction (ra_id a))]
             [El ''span'' [] [] [Txt (KIND_LABEL (ra_kind a))], El ''span'' [] [] [Txt (ra_target a)],
              El ''span'' [] [] [Txt (action_status_name (ra_status a))]]]) as @
        when_shown (as = []) [El ''li'' [] [] [Txt ''No proposed actions pending.'']])"

definition BlastSection :: "string \<Rightarrow> string list \<Rightarrow> 'a html" where
  "BlastSection label items =
     El ''div'' [] []
       [El ''div'' [] [] [Txt label],
        if items = [] then El ''span'' [] [] [Txt ''None'']
        else El ''ul'' [] [] (map (\<lambda>i. El ''li'' [] [] [Txt i]) items)]"

definition BlastRadiusPanel :: "BlastRadius \<Rightarrow> 'a html" where
  "BlastRadiusPanel br =
     El ''div'' [] []
       (when_shown (br_isTier0 br) [El ''div'' [] [] [Txt ''Tier-0 asset affected'']] @
        [BlastSection ''Affected principals'' (br_affectedPrincipals br), BlastSection ''Affected hosts'' (br_affectedHosts br),
         BlastSection ''Dependent services'' (br_dependentServices br)])"

definition canApprove :: "ResponseAction \<Rightarrow> BlastRadius query \<Rightarrow> bool" where
  "canApprove action q \<longleftrightarrow> q \<noteq> QLoading \<and> (case q of QData _ \<Rightarrow> True | _ \<Rightarrow> False) \<and> ra_status action = Pending"

definition blast_view :: "BlastRadius query \<Rightarrow> 'a html list" where
  "blast_view q = (case q of
     QLoading \<Rightarrow> [El ''div'' [(''data-testid'', ''blast-radius-loading'')] [] [Txt (''Computing blast radius'' @ ellipsis)]]
   | QData br \<Rightarrow> [El ''div'' [(''data-testid'', ''blast-radius-panel'')] [] [BlastRadiusPanel br]]
   | QFailed \<Rightarrow> [])"

definition ActionDetail :: "ResponseAction \<Rightarrow> BlastRadius query \<Rightarrow> console_action html" where
  "ActionDetail action q =
     (let blocked = when_shown (\<not> canApprove action q) [(''disabled'', ''true'')]; decided = (ra_status action \<noteq> Pending) in
      El ''div'' [] []
        ([El ''h2'' [] [] [Txt (KIND_LABEL (ra_kind action))], El ''p'' [] [] [Txt (ra_target action)],
          El ''p'' [] [] [Txt (ra_rationale action)]] @
         blast_view q @
         [El ''button'' ((''data-testid'', ''approve-button'') # blocked) [(''onClick'', Decide (ra_id action) Approved)]
            [Txt (if decided then ''Decided'' else ''Approve'')],
          El ''button'' blocked [(''onClick'', Decide (ra_id action) Modified)] [Txt ''Modify''],
          El ''button'' blocked [(''onClick'', Decide (ra_id action) Rejected)] [Txt ''Reject'']]))"

section \<open>Autonomy policy\<close>

definition KINDS :: "ResponseActionKind list" where
  "KINDS = [IsolateHost, DisableAccount, RevokeSession, BlockIndicator, QuarantineFile]"

definition previewCount :: "ResponseActionKind \<Rightarrow> int result" where
  "previewCount kind = fst (rng_int 0 40 (rng_new (int (length (kind_name kind)) * 104729)))"

definition toggle_kind :: "ResponseActionKind \<Rightarrow> ResponseActionKind list \<Rightarrow> ResponseActionKind list" where
  "toggle_kind kind enabled = (if kind \<in> set enabled then set_delete kind enabled else set_add kind enabled)"

definition policy_row :: "ResponseActionKind list \<Rightarrow> ResponseActionKind \<Rightarrow> int \<Rightarrow> console_action html" where
  "policy_row enabled kind n =
     El ''div'' [] []
       [El ''div'' [] [] [Txt (KIND_LABEL kind)],
        El ''div'' [] [] [Txt (show_int n @ '' time'' @ (if n = 1 then [] else ''s'') @ '' in the last 30d'')],
        El ''button'' [(''type'', ''button''), (''role'', ''switch''), (''aria-checked'', show_bool (kind \<in> set enabled)),
            (''aria-label'', ''Autonomous '' @ KIND_LABEL kind)] [(''onClick'', ToggleKind kind)] []]"

definition AutonomyPolicy :: "ResponseActionKind list \<Rightarrow> console_action html" where
  "AutonomyPolicy enabled =
     El ''div'' [] []
       (El ''h3'' [] [] [Txt ''Autonomous execution''] #
        concat (map (\<lambda>k. case previewCount k of Inl e \<Rightarrow> [] | Inr n \<Rightarrow> [policy_row enabled k n]) KINDS))"

section \<open>The console\<close>

text \<open>The answers the console last received, and its own selection and toggles.\<close>

record Console =
  rc_actions :: "ResponseAction list option"
  rc_selectedId :: "string option"
  rc_blast :: "(string \<times> BlastRadius query) list"
  rc_enabled :: "ResponseActionKind list"

definition console_init :: Console where
  "console_init = \<lparr>rc_actions = None, rc_selectedId = None, rc_blast = [], rc_enabled = []\<rparr>"

definition action_rows :: "Console \<Rightarrow> ResponseAction list" where
  "action_rows s = (case rc_actions s of None \<Rightarrow> [] | Some as \<Rightarrow> as)"

definition selected_action :: "Console \<Rightarrow> ResponseAction option" where
  "selected_action s =
     (case find (\<lambda>a. Some (ra_id a) = rc_selectedId s) (action_rows s) of
        Some a \<Rightarrow> Some a
      | None \<Rightarrow> (case action_rows s of [] \<Rightarrow> None | a # _ \<Rightarrow> Some a))"

definition blast_of :: "Console \<Rightarrow> string \<Rightarrow> BlastRadius query" where
  "blast_of s i = (case map_of (rc_blast s) i of None \<Rightarrow> QLoading | Some q \<Rightarrow> q)"

definition ResponseConsoleClient :: "Console \<Rightarrow> console_action html" where
  "ResponseConsoleClient s =
     (if action_rows s = []
      then EmptyState ''No proposed actions pending''
        (''Blast radius must render before any approval control is enabled -- this screen won'' @ [CHR 0x27] @
         ''t ship an approve button that isn'' @ [CHR 0x27] @ ''t provably gated on it.'')
        ''Waiting for a high/critical case to propose a response''
      else El ''div'' [] []
        (ActionList (action_rows s) (map_option ra_id (selected_action s)) #
         map (\<lambda>a. ActionDetail a (blast_of s (ra_id a))) (opt_list (selected_action s)) @ [AutonomyPolicy (rc_enabled s)]))"

text \<open>
  \<^verbatim>\<open>fetchBlastRadius\<close> reads \<^verbatim>\<open>data.blastRadius\<close> whatever the status; a 404 body has none, and a query function
  that returns \<^verbatim>\<open>undefined\<close> fails.
\<close>

definition fetchBlastRadius :: "BlastRadius http \<Rightarrow> BlastRadius query" where
  "fetchBlastRadius resp = (case resp of HttpOk br \<Rightarrow> QData br | _ \<Rightarrow> QFailed)"

definition decision_body :: "ActionStatus \<Rightarrow> json option" where
  "decision_body st = Some (JObj [(''status'', JStr (action_status_name st))])"

text \<open>
  One step of console and server: the list is (re)loaded, a blast radius is requested or arrives, the analyst
  uses one of the controls the view offers, or the server moves on by itself (ticks, decisions of others).
  The last component lists the decisions this console posted. A blast radius, once loaded, is kept: that React Query
  drops unused answers after some minutes is left out.
\<close>

type_synonym posted = "(string \<times> ActionStatus) list"

inductive console_step :: "(rat \<Rightarrow> rat) \<Rightarrow> Console \<times> Store \<times> posted \<Rightarrow> Console \<times> Store \<times> posted \<Rightarrow> bool" for cube where
  load_actions: "response_actions_GET st = HttpOk as \<Longrightarrow> console_step cube (c, st, sent) (c\<lparr>rc_actions := Some as\<rparr>, st, sent)"
| ask_blast: "map_of (rc_blast c) i = None \<Longrightarrow>
    console_step cube (c, st, sent) (c\<lparr>rc_blast := AList.update i QLoading (rc_blast c)\<rparr>, st, sent)"
| load_blast: "map_of (rc_blast c) i = Some q \<Longrightarrow>
    console_step cube (c, st, sent) (c\<lparr>rc_blast := AList.update i (fetchBlastRadius (blast_radius_GET st i)) (rc_blast c)\<rparr>, st, sent)"
| select: "SelectAction i \<in> set (actions (ResponseConsoleClient c)) \<Longrightarrow>
    console_step cube (c, st, sent) (c\<lparr>rc_selectedId := Some i\<rparr>, st, sent)"
| toggle: "ToggleKind k \<in> set (actions (ResponseConsoleClient c)) \<Longrightarrow>
    console_step cube (c, st, sent) (c\<lparr>rc_enabled := toggle_kind k (rc_enabled c)\<rparr>, st, sent)"
| decide: "Decide i d \<in> set (actions (ResponseConsoleClient c)) \<Longrightarrow> decision_POST i (decision_body d) st = (resp, st') \<Longrightarrow>
    console_step cube (c, st, sent) (c, st', (i, d) # sent)"
| server: "store_step cube st st' \<Longrightarrow> console_step cube (c, st, sent) (c, st', sent)"

inductive_cases console_stepE: "console_step cube (c, st, sent) (c', st', sent')"

section \<open>What the controls offer\<close>

lemma blast_view_actions [simp]: "concat (map actions (blast_view q)) = []"
  by (auto simp: blast_view_def BlastRadiusPanel_def BlastSection_def comp_def split: query.split)

lemma detail_actions:
  "Decide i d \<in> set (actions (ActionDetail a q)) \<longleftrightarrow> canApprove a q \<and> i = ra_id a \<and> d \<in> {Approved, Modified, Rejected}"
  by (auto simp: ActionDetail_def Let_def)

lemma policy_actions: "Decide i d \<notin> set (actions (AutonomyPolicy en))"
  by (auto simp: AutonomyPolicy_def policy_row_def split: sum.splits)

lemma list_actions: "Decide i d \<notin> set (actions (ActionList as sel))"
  by (auto simp: ActionList_def)

lemma console_decides:
  "Decide i d \<in> set (actions (ResponseConsoleClient c)) \<longleftrightarrow>
     (\<exists>a. selected_action c = Some a \<and> i = ra_id a \<and> canApprove a (blast_of c i) \<and> d \<in> {Approved, Modified, Rejected})"
  using list_actions policy_actions
  by (auto simp: ResponseConsoleClient_def EmptyState_def detail_actions selected_action_def split: list.splits)

section \<open>The blast radius shown is the server's\<close>

text \<open>An action never changes but in its status, so its blast radius stays the one computed first.\<close>

definition same_actions :: "Store \<Rightarrow> Store \<Rightarrow> bool" where
  "same_actions st st' \<longleftrightarrow> (\<forall>i a. getResponseAction st i = Some a \<longrightarrow>
     (\<exists>status. getResponseAction st' i = Some (a\<lparr>ra_status := status\<rparr>)))"

lemma same_actionsI: "s_responseActions st' = s_responseActions st \<Longrightarrow> same_actions st st'"
  unfolding same_actions_def getResponseAction_def by (metis ResponseAction.surjective ResponseAction.update_convs(7))

lemma decide_same_actions: "decideResponseAction i d st = (r, st') \<Longrightarrow> same_actions st st'"
proof (cases "map_of (s_responseActions st) i")
  case None
  assume "decideResponseAction i d st = (r, st')"
  with None show ?thesis by (intro same_actionsI) (simp add: decideResponseAction_def)
next
  case (Some a)
  assume "decideResponseAction i d st = (r, st')"
  with Some have st': "s_responseActions st' = AList.update i (a\<lparr>ra_status := d\<rparr>) (s_responseActions st)"
    by (auto simp: decideResponseAction_def Let_def)
  have "\<exists>status. getResponseAction st' j = Some (b\<lparr>ra_status := status\<rparr>)" if b: "getResponseAction st j = Some b" for j b
  proof (cases "j = i")
    case True
    with b Some st' show ?thesis by (auto simp: getResponseAction_def)
  next
    case False
    with b st' have "getResponseAction st' j = Some (b\<lparr>ra_status := ra_status b\<rparr>)"
      by (simp add: getResponseAction_def map_of_update_other)
    then show ?thesis ..
  qed
  then show ?thesis unfolding same_actions_def by blast
qed

lemma event_effect_actions: "event_effect st ev st' \<Longrightarrow> s_responseActions st' = s_responseActions st"
  by (erule event_effect.elims) (auto simp: store_add_def store_set_def push_fire_def Let_def dest!: arg_cong [where f = s_responseActions])

lemma store_step_same_actions:
  assumes "store_step cube st st'" "store_inv st" "cube_nonneg cube"
  shows "same_actions st st'"
  using assms(1)
proof cases
  case (step_tick clock out)
  have "tick_result st (out, st')" using tick_spec [OF assms(2,3)] step_tick by metis
  then show ?thesis
    by (intro same_actionsI) (auto simp: tick_result_def only_rng_def split: sum.splits dest: event_effect_actions arg_cong [where f = s_responseActions])
next
  case (step_decide i status out)
  then show ?thesis by (simp add: decide_same_actions)
qed

lemma decision_POST_same_actions: "decision_POST i body st = (resp, st') \<Longrightarrow> same_actions st st'"
  by (auto simp: decision_POST_def same_actionsI split: option.splits prod.splits dest: decide_same_actions)

definition blast_ok :: "Store \<Rightarrow> string \<Rightarrow> BlastRadius query \<Rightarrow> bool" where
  "blast_ok st i q \<longleftrightarrow> (\<forall>br. q = QData br \<longrightarrow> (\<exists>a. getResponseAction st i = Some a \<and> computeBlastRadius a = Inr br))"

lemma computeBlastRadius_status [simp]: "computeBlastRadius (a\<lparr>ra_status := status\<rparr>) = computeBlastRadius a"
  by (simp add: computeBlastRadius_def)

lemma blast_ok_same: "same_actions st st' \<Longrightarrow> blast_ok st i q \<Longrightarrow> blast_ok st' i q"
  unfolding blast_ok_def same_actions_def by (metis computeBlastRadius_status)

lemma fetched_blast_ok: "blast_ok st i (fetchBlastRadius (blast_radius_GET st i))"
  by (auto simp: blast_ok_def fetchBlastRadius_def blast_radius_GET_def http_of_def split: http.splits option.splits sum.splits)

definition informed :: "Store \<Rightarrow> Console \<Rightarrow> string \<Rightarrow> bool" where
  "informed st c i \<longleftrightarrow>
     (\<exists>a br. getResponseAction st i = Some a \<and> computeBlastRadius a = Inr br \<and> map_of (rc_blast c) i = Some (QData br))"

definition console_inv :: "Console \<times> Store \<times> posted \<Rightarrow> bool" where
  "console_inv = (\<lambda>(c, st, sent). store_inv st \<and> (\<forall>i q. map_of (rc_blast c) i = Some q \<longrightarrow> blast_ok st i q) \<and>
     (\<forall>x \<in> set sent. informed st c (fst x)))"

lemma informed_same: "informed st c i \<Longrightarrow> same_actions st st' \<Longrightarrow> informed st' c i"
  unfolding informed_def same_actions_def by (metis computeBlastRadius_status)

lemma informed_loaded:
  "informed st c j \<Longrightarrow> informed st (c\<lparr>rc_blast := AList.update i (fetchBlastRadius (blast_radius_GET st i)) (rc_blast c)\<rparr>) j"
  by (auto simp: informed_def fetchBlastRadius_def blast_radius_GET_def http_of_def update_conv')

lemma canApprove_iff: "canApprove a q \<longleftrightarrow> (\<exists>br. q = QData br) \<and> ra_status a = Pending"
  by (auto simp: canApprove_def split: query.splits)

lemma blast_of_data: "blast_of c i = QData br \<longleftrightarrow> map_of (rc_blast c) i = Some (QData br)"
  by (auto simp: blast_of_def split: option.splits)

lemma console_inv_same:
  "console_inv (c, st, sent) \<Longrightarrow> same_actions st st' \<Longrightarrow> store_inv st' \<Longrightarrow> console_inv (c, st', sent)"
  by (auto simp: console_inv_def intro: blast_ok_same informed_same)

lemma console_inv_sent: "console_inv (c, st, sent) \<Longrightarrow> blast_of c i = QData br \<Longrightarrow> console_inv (c, st, (i, d) # sent)"
  by (auto simp: console_inv_def blast_of_data blast_ok_def informed_def)

lemma decision_POST_inv: "decision_POST i body st = (resp, st') \<Longrightarrow> store_inv st \<Longrightarrow> store_inv st'"
  by (auto simp: decision_POST_def split: option.splits prod.splits dest: decide_inv)

lemma console_inv_loaded:
  "console_inv (c, st, sent) \<Longrightarrow>
     console_inv (c\<lparr>rc_blast := AList.update i (fetchBlastRadius (blast_radius_GET st i)) (rc_blast c)\<rparr>, st, sent)"
  using fetched_blast_ok [of st i] by (auto simp: console_inv_def informed_loaded update_conv')

lemma console_inv_asked:
  "console_inv (c, st, sent) \<Longrightarrow> map_of (rc_blast c) i = None \<Longrightarrow>
     console_inv (c\<lparr>rc_blast := AList.update i QLoading (rc_blast c)\<rparr>, st, sent)"
  by (auto simp: console_inv_def informed_def blast_ok_def update_conv')

lemma console_inv_other:
  "console_inv (c, st, sent) \<Longrightarrow> rc_blast c' = rc_blast c \<Longrightarrow> console_inv (c', st, sent)"
  by (simp add: console_inv_def informed_def)

lemma console_step_inv:
  assumes "console_step cube (c, st, sent) (c', st', sent')" "cube_nonneg cube" "console_inv (c, st, sent)"
  shows "console_inv (c', st', sent')"
  using assms(1)
proof cases
  case (decide i d resp)
  from decide(3) obtain br where "blast_of c i = QData br" by (auto simp: console_decides canApprove_iff)
  with assms(3) have "console_inv (c, st, sent')" unfolding decide by (rule console_inv_sent)
  then show ?thesis unfolding decide(1)
    by (rule console_inv_same) (use decide(4) assms(3) in \<open>auto intro: decision_POST_same_actions decision_POST_inv simp: console_inv_def\<close>)
next
  case server
  have "store_inv st" using assms(3) by (simp add: console_inv_def)
  then have "same_actions st st'" "store_inv st'"
    using server(3) assms(2) by (auto intro: store_step_same_actions store_step_inv)
  with assms(3) show ?thesis unfolding server by (rule console_inv_same)
qed (use assms(3) in \<open>auto intro: console_inv_asked console_inv_loaded console_inv_other\<close>)

interpretation console: invariant_system "console_step cube" "\<lambda>s. \<exists>st0. store_inv st0 \<and> s = (console_init, st0, [])"
  "\<lambda>s. cube_nonneg cube \<longrightarrow> console_inv s" for cube
proof unfold_locales
  fix s s' assume "console_step cube s s'" "cube_nonneg cube \<longrightarrow> console_inv s"
  then show "cube_nonneg cube \<longrightarrow> console_inv s'" using console_step_inv by (cases s; cases s') blast
qed (auto simp: console_inv_def console_init_def)

section \<open>Properties\<close>

text \<open>
  C17: no decision without a blast radius. Along every interleaving of console and server, each decision the
  console has posted is for an action whose blast radius it had received, and what it shows is what the server
  computes for that action; while the radius is loading or failed to load, or the action is no longer pending
  in the console's list, no deciding control is enabled.
\<close>

theorem decisions_after_blast_radius:
  assumes "(console_step cube)\<^sup>*\<^sup>* (console_init, st0, []) (c, st, sent)" "cube_nonneg cube" "store_inv st0"
  shows "(\<forall>(i, d) \<in> set sent. \<exists>a br. getResponseAction st i = Some a \<and> computeBlastRadius a = Inr br \<and> blast_of c i = QData br) \<and>
    (\<forall>i d. Decide i d \<in> set (actions (ResponseConsoleClient c)) \<longrightarrow>
       (\<exists>a br. selected_action c = Some a \<and> ra_id a = i \<and> ra_status a = Pending \<and>
          blast_view (blast_of c i) = [El ''div'' [(''data-testid'', ''blast-radius-panel'')] [] [BlastRadiusPanel br :: console_action html]] \<and>
          (\<exists>b. getResponseAction st i = Some b \<and> computeBlastRadius b = Inr br)))"
proof -
  have inv: "console_inv (c, st, sent)"
    using console.reachable_holds [OF assms(1)] assms(2,3) by blast
  have "\<exists>a br. selected_action c = Some a \<and> ra_id a = i \<and> ra_status a = Pending \<and>
          blast_view (blast_of c i) = [El ''div'' [(''data-testid'', ''blast-radius-panel'')] [] [BlastRadiusPanel br :: console_action html]] \<and>
          (\<exists>b. getResponseAction st i = Some b \<and> computeBlastRadius b = Inr br)"
    if "Decide i d \<in> set (actions (ResponseConsoleClient c))" for i d
  proof -
    from that obtain a br where a: "selected_action c = Some a" "i = ra_id a" "blast_of c i = QData br" "ra_status a = Pending"
      by (auto simp: console_decides canApprove_iff)
    moreover from a(3) inv have "blast_ok st i (QData br)" unfolding console_inv_def blast_of_data by auto
    ultimately show ?thesis by (auto simp: blast_ok_def blast_view_def)
  qed
  moreover have "\<forall>(i, d) \<in> set sent. \<exists>a br. getResponseAction st i = Some a \<and> computeBlastRadius a = Inr br \<and> blast_of c i = QData br"
    using inv by (auto simp: console_inv_def blast_of_data informed_def)
  ultimately show ?thesis by blast
qed

theorem decisions_after_blast_radius_witness:
  "\<not> (\<exists>i d. Decide i d \<in> set (actions (ResponseConsoleClient (console_init\<lparr>rc_actions := Some []\<rparr>))))"
proof -
  have "console_step sample_cube (console_init, sample_store, []) (console_init\<lparr>rc_actions := Some []\<rparr>, sample_store, [])"
    by (rule load_actions) (simp add: response_actions_GET_def listResponseActions_def sample_store_def)
  then have "(console_step sample_cube)\<^sup>*\<^sup>* (console_init, sample_store, []) (console_init\<lparr>rc_actions := Some []\<rparr>, sample_store, [])"
    by blast
  from decisions_after_blast_radius [OF this sample_cube_nonneg sample_store_inv] show ?thesis
    by (auto simp: getResponseAction_def sample_store_def)
qed

text \<open>
  C35: the decision handler on every request. It answers 200, 400 or 404, and changes the store only with 200:
  then exactly the status of the named action, to a status other than pending. It asks neither whether the action
  is still pending nor for a blast radius: a known action is decided by every valid request, a second time too.
\<close>

theorem decision_handler:
  "case decision_POST i body st of (resp, st') \<Rightarrow>
     http_status resp \<in> {200, 400, 404} \<and> (http_status resp \<noteq> 200 \<longrightarrow> st' = st) \<and>
     (\<forall>a. resp = HttpOk a \<longrightarrow> (\<exists>old d. getResponseAction st i = Some old \<and> d \<noteq> Pending \<and> a = old\<lparr>ra_status := d\<rparr> \<and>
        getResponseAction st' i = Some a \<and> (\<forall>j. j \<noteq> i \<longrightarrow> getResponseAction st' j = getResponseAction st j) \<and>
        listCases st' = listCases st)) \<and>
     (\<forall>old d. getResponseAction st i = Some old \<and> d \<noteq> Pending \<longrightarrow>
        fst (decision_POST i (decision_body d) st) = HttpOk (old\<lparr>ra_status := d\<rparr>))"
proof -
  have "map_of VALID s = Some d \<Longrightarrow> d \<noteq> Pending" for s d by (auto simp: VALID_def split: if_splits)
  moreover have "map_of VALID (action_status_name d) = Some d" if "d \<noteq> Pending" for d
    using that by (cases d) (simp_all add: VALID_def action_status_name_def)
  ultimately show ?thesis
    by (auto simp: decision_POST_def decideResponseAction_def decision_body_def getResponseAction_def listCases_def Let_def
        map_of_update_other split: option.splits)
qed

theorem decision_handler_witness:
  "http_status (fst (decision_POST ''ra-x'' None sample_store)) \<in> {200, 400, 404}"
  using decision_handler [where i = "''ra-x''" and body = None and st = sample_store] by (auto split: prod.splits)

end
