(* ===== verification/Ui_Gates.thy ===== *)
theory Ui_Gates
  imports Canvas Pages Response_Console "HOL-Library.Sublist"
begin

text \<open>
  The browser checks that decide a release (\<^verbatim>\<open>gate.mjs\<close>, \<^verbatim>\<open>triage-flow.mjs\<close> and \<^verbatim>\<open>investigation-canvas-flow.mjs\<close> under \<^verbatim>\<open>eval/ui\<close>): forbidden
  texts, accessibility and focus on every surface, the frame rate of a scroll, and the order in which the response console
  shows the blast radius and enables its buttons. A check is a function from what it observed to its failures. Screenshots,
  console output and the steps that only drive the browser are left out.
\<close>

section \<open>The gate over all surfaces\<close>

definition gate_SURFACES :: "string list" where
  "gate_SURFACES = [''/'', ''/investigation-canvas'', ''/investigation-canvas?case=case-1'', ''/timeline'', ''/verdict-ledger'',
     ''/drift-monitor'', ''/response-console'', ''/coverage-map'', ''/detection-studio'', ''/tenant-admin'']"

text \<open>The patterns are words without operators, matched in any case.\<close>

definition WATERMARK_PATTERNS :: "string list" where
  "WATERMARK_PATTERNS = [''generated by'', ''built with'', ''powered by'', ''made with ai'', ''claude'', ''anthropic'', ''chatgpt'', ''openai'']"

definition checkWatermarks :: "string \<Rightarrow> string \<Rightarrow> string list" where
  "checkWatermarks label html =
     map (\<lambda>p. ''watermark: '' @ label @ '' matched forbidden pattern /'' @ p @ ''/i'')
       (filter (\<lambda>p. sublist p (to_lower html)) WATERMARK_PATTERNS)"

record violation =
  vi_id :: string
  vi_impact :: string
  vi_nodes :: nat

text \<open>\<^verbatim>\<open>strings.join(sep)\<close>.\<close>

fun js_join :: "string \<Rightarrow> string list \<Rightarrow> string" where
  "js_join sep [] = []"
| "js_join sep [s] = s"
| "js_join sep (s # ss) = s @ sep @ js_join sep ss"

definition checkAxe :: "string \<Rightarrow> string \<Rightarrow> violation list \<Rightarrow> string list" where
  "checkAxe label theme violations =
     (let serious = filter (\<lambda>v. vi_impact v = ''critical'' \<or> vi_impact v = ''serious'') violations
      in if 0 < length serious
         then [''axe: '' @ label @ '' ('' @ theme @ '') has '' @ show_int (int (length serious)) @ '' critical/serious violation(s): '' @
               js_join '', '' (map (\<lambda>v. vi_id v @ '' ('' @ show_int (int (vi_nodes v)) @ '' nodes)'') serious)]
         else [])"

text \<open>\<open>focus_visible\<close> tells for each of the eight tab stops whether it shows a focus ring.\<close>

definition checkKeyboardTraversal :: "(nat \<Rightarrow> bool) \<Rightarrow> string list" where
  "checkKeyboardTraversal focus_visible =
     (let visibleCount = length (filter focus_visible [0..<8])
      in if visibleCount < 6
         then [''keyboard: only '' @ show_int (int visibleCount) @ ''/8 tab stops showed a visible focus ring''] else [])"

record gate_observation =
  go_content :: "string \<Rightarrow> string \<Rightarrow> string"
  go_violations :: "string \<Rightarrow> string \<Rightarrow> violation list"
  go_focus :: "nat \<Rightarrow> bool"

definition gate_theme :: "gate_observation \<Rightarrow> string \<Rightarrow> string list" where
  "gate_theme obs theme =
     concat (map (\<lambda>surface. checkWatermarks surface (go_content obs theme surface) @
       checkAxe surface theme (go_violations obs theme surface)) gate_SURFACES) @
     (if theme = ''dark'' then checkKeyboardTraversal (go_focus obs) else [])"

text \<open>The exit code; \<^const>\<open>None\<close> is an exception on the way, a failed navigation or a missing element.\<close>

definition gate_main :: "gate_observation option \<Rightarrow> nat" where
  "gate_main run =
     (case run of
        None \<Rightarrow> 1
      | Some obs \<Rightarrow> if 0 < length (concat (map (gate_theme obs) [''dark'', ''light''])) then 1 else 0)"

section \<open>The frame rate\<close>

text \<open>A rate in frames per second; two frames with the same time stamp give \<^verbatim>\<open>Infinity\<close>.\<close>

datatype fps = Fps rat | Infinity

definition rate :: "rat \<Rightarrow> fps" where
  "rate delta = (if delta = 0 then Infinity else Fps (js_div 1000 delta))"

definition deltas :: "rat list \<Rightarrow> rat list" where
  "deltas frameTimes = map2 js_sub (tl frameTimes) frameTimes"

text \<open>One pass: nothing if the container is missing or there are fewer than three frames.\<close>

definition median_rate :: "rat list \<Rightarrow> fps" where
  "median_rate ds = rate (sort ds ! (length ds div 2))"

definition run_once :: "rat list option \<Rightarrow> fps option" where
  "run_once pass =
     (case pass of
        None \<Rightarrow> None
      | Some frameTimes \<Rightarrow> if length frameTimes < 3 then None else Some (median_rate (deltas frameTimes)))"

fun slow :: "fps \<Rightarrow> bool" where
  "slow Infinity = False"
| "slow (Fps r) = (r < 55)"

fun fps_max :: "fps \<Rightarrow> fps \<Rightarrow> fps" where
  "fps_max (Fps a) (Fps b) = Fps (max a b)"
| "fps_max _ _ = Infinity"

text \<open>What a check reports, one constructor for each call of \<^verbatim>\<open>fail\<close>.\<close>

datatype gate_failure = NotSampled | TooSlow | NoSecondAction | LoadingNotSeen | PanelNotSeen | PrematureEnable int

definition checkScrollPerf :: "rat list option list \<Rightarrow> gate_failure list" where
  "checkScrollPerf passes =
     (let samples = List.map_filter run_once passes
      in case samples of
           [] \<Rightarrow> [NotSampled]
         | s # ss \<Rightarrow> if slow (foldl fps_max s ss) then [TooSlow] else [])"

section \<open>The order of blast radius and buttons\<close>

text \<open>The elements of a document in order, and \<^verbatim>\<open>document.querySelector\<close> by test id.\<close>

fun elements :: "'a html \<Rightarrow> 'a html list" where
  "elements (Txt s) = []"
| "elements (El t as hs cs) = El t as hs cs # concat (map elements cs)"

definition by_testid :: "string \<Rightarrow> 'a html \<Rightarrow> 'a html option" where
  "by_testid k h = find (\<lambda>e. attr ''data-testid'' e = Some k) (elements h)"

record Snapshot =
  sn_tag :: string
  sn_t :: int
  sn_approveDisabled :: "bool option"
  sn_loadingPresent :: bool
  sn_panelPresent :: bool

definition snap :: "string \<Rightarrow> int \<Rightarrow> 'a html \<Rightarrow> Snapshot" where
  "snap tag t h =
     \<lparr>sn_tag = tag, sn_t = t,
      sn_approveDisabled = map_option (\<lambda>btn. attr ''disabled'' btn \<noteq> None) (by_testid ''approve-button'' h),
      sn_loadingPresent = (by_testid ''blast-radius-loading'' h \<noteq> None),
      sn_panelPresent = (by_testid ''blast-radius-panel'' h \<noteq> None)\<rparr>"

definition checkBlastRadiusGate :: "bool \<Rightarrow> Snapshot list \<Rightarrow> gate_failure list" where
  "checkBlastRadiusGate clicked gateLog =
     (if \<not> clicked then [NoSecondAction]
      else (case find (\<lambda>s. sn_loadingPresent s \<and> sn_approveDisabled s = Some True) gateLog of None \<Rightarrow> [LoadingNotSeen] | Some _ \<Rightarrow> []) @
        (case find (\<lambda>s. sn_panelPresent s \<and> sn_approveDisabled s = Some False) (rev gateLog) of None \<Rightarrow> [PanelNotSeen] | Some _ \<Rightarrow> []) @
        (case find (\<lambda>s. sn_approveDisabled s = Some False \<and> \<not> sn_panelPresent s \<and> sn_t s < 850) gateLog of
           None \<Rightarrow> [] | Some s \<Rightarrow> [PrematureEnable (sn_t s)]))"

text \<open>The locator that picks the action to click: items whose text contains the word, in any case, in document order.\<close>

definition action_items :: "'a html \<Rightarrow> 'a html list" where
  "action_items h =
     filter (\<lambda>e. (case e of El t _ _ _ \<Rightarrow> t \<in> {''li'', ''button''} | _ \<Rightarrow> False) \<and>
       sublist ''pending'' (to_lower (html_text e))) (elements h)"

section \<open>Panning the canvas\<close>

text \<open>The pointer events of one pass over the canvas, at the positions the script computes.\<close>

definition pan_pass :: "rat \<Rightarrow> (rat \<times> rat) list \<Rightarrow> DragState option \<times> Viewport \<Rightarrow> DragState option \<times> Viewport" where
  "pan_pass dpr positions = fold (\<lambda>(x, y). onPointerMove dpr x y) positions"

section \<open>Medians\<close>

text \<open>A downward closed condition holds of the middle of a sorted list exactly if it holds of more than half of it.\<close>

lemma sorted_nth_iff:
  assumes "sorted xs" "m < length xs" "\<And>x y. x \<in> set xs \<Longrightarrow> y \<in> set xs \<Longrightarrow> x \<le> y \<Longrightarrow> P y \<Longrightarrow> P x"
  shows "P (xs ! m) \<longleftrightarrow> m < length (filter P xs)"
  using assms
proof (induction xs arbitrary: m)
  case (Cons a xs)
  have rest: "(\<not> P a) \<Longrightarrow> filter P xs = []"
    using Cons.prems(1,3) by (auto simp: filter_empty_conv)
  show ?case
  proof (cases m)
    case 0
    then show ?thesis using rest by auto
  next
    case (Suc k)
    have "P (xs ! k) \<longleftrightarrow> k < length (filter P xs)"
      using Cons.prems Suc by (intro Cons.IH) auto
    then show ?thesis using Suc rest by auto
  qed
qed simp

lemma median_iff:
  assumes "ds \<noteq> []" "\<And>x y. x \<in> set ds \<Longrightarrow> y \<in> set ds \<Longrightarrow> x \<le> y \<Longrightarrow> P y \<Longrightarrow> P x"
  shows "P (sort ds ! (length ds div 2)) \<longleftrightarrow> length ds < 2 * length (filter P ds)"
proof -
  have "length (filter P (sort ds)) = length (filter P ds)" by (metis size_mset mset_filter mset_sort)
  moreover have "P (sort ds ! (length ds div 2)) \<longleftrightarrow> length ds div 2 < length (filter P (sort ds))"
    by (rule sorted_nth_iff) (use assms in auto)
  ultimately show ?thesis by auto
qed

lemma slow_rate_mono: "0 \<le> x \<Longrightarrow> x \<le> y \<Longrightarrow> \<not> slow (rate y) \<Longrightarrow> \<not> slow (rate x)"
proof -
  assume a: "0 \<le> x" "x \<le> y" "\<not> slow (rate y)"
  have "js_div 1000 y \<le> js_div 1000 x" if "0 < x"
    using that a(2) unfolding js_div_def by (intro fl_mono divide_left_mono) auto
  then show "\<not> slow (rate x)" using a by (auto simp: rate_def split: if_splits)
qed

lemma slow_best: "slow (foldl fps_max s ss) \<longleftrightarrow> slow s \<and> list_all slow ss"
proof (induction ss arbitrary: s)
  case (Cons a ss)
  have "slow (fps_max s a) \<longleftrightarrow> slow s \<and> slow a" by (cases s; cases a) auto
  then show ?case using Cons by simp
qed simp

lemma deltas_nonneg: "sorted ts \<Longrightarrow> d \<in> set (deltas ts) \<Longrightarrow> 0 \<le> d"
proof (induction ts)
  case (Cons a ts)
  show ?case
  proof (cases ts)
    case Nil
    then show ?thesis using Cons.prems by (simp add: deltas_def)
  next
    case (Cons b us)
    have "0 \<le> js_sub b a"
      using fl_mono [of 0 "b - a"] Cons.prems(1) Cons by (simp add: js_sub_def)
    moreover have "deltas (a # ts) = js_sub b a # deltas ts" using Cons by (simp add: deltas_def)
    ultimately show ?thesis using Cons.prems Cons.IH by auto
  qed
qed (simp add: deltas_def)

section \<open>Snapshots of the console\<close>

lemma find_append: "find P (xs @ ys) = (case find P xs of None \<Rightarrow> find P ys | Some x \<Rightarrow> Some x)"
  by (induction xs) auto

lemma attr_El [simp]: "attr k (El t as hs cs) = map_of as k"
  by (simp add: attr_def)

lemma by_testid_cons:
  "by_testid k (El t as hs cs) = (if map_of as ''data-testid'' = Some k then Some (El t as hs cs)
     else find (\<lambda>e. attr ''data-testid'' e = Some k) (concat (map elements cs)))"
  by (simp add: by_testid_def)

lemma untagged:
  "find (\<lambda>e. attr ''data-testid'' e = Some k) (elements (ActionList as sel)) = None"
  "find (\<lambda>e. attr ''data-testid'' e = Some k) (elements (AutonomyPolicy en)) = None"
  "find (\<lambda>e. attr ''data-testid'' e = Some k) (elements (BlastRadiusPanel br)) = None"
  "find (\<lambda>e. attr ''data-testid'' e = Some k) (elements (EmptyState title description note)) = None"
  by (auto simp: find_None_iff attr_def ActionList_def AutonomyPolicy_def policy_row_def BlastRadiusPanel_def BlastSection_def
      EmptyState_def split: sum.splits if_splits)

text \<open>What the three queries find in a console.\<close>

lemma snap_console:
  "snap tag t (ResponseConsoleClient c) =
     \<lparr>sn_tag = tag, sn_t = t,
      sn_approveDisabled = map_option (\<lambda>a. \<not> canApprove a (blast_of c (ra_id a))) (selected_action c),
      sn_loadingPresent = (\<exists>a. selected_action c = Some a \<and> blast_of c (ra_id a) = QLoading),
      sn_panelPresent = (\<exists>a br. selected_action c = Some a \<and> blast_of c (ra_id a) = QData br)\<rparr>"
proof (cases "action_rows c = []")
  case True
  then have "selected_action c = None" by (simp add: selected_action_def)
  with True show ?thesis by (simp add: snap_def by_testid_def ResponseConsoleClient_def untagged)
next
  case False
  then have "selected_action c \<noteq> None" by (auto simp: selected_action_def neq_Nil_conv split: option.splits)
  then obtain a where a: "selected_action c = Some a" by blast
  show ?thesis
    by (cases "blast_of c (ra_id a)")
       (simp_all add: snap_def by_testid_cons ResponseConsoleClient_def False a find_append untagged ActionDetail_def
         blast_view_def canApprove_iff Let_def)
qed

section \<open>Properties\<close>

text \<open>What the observer notes of consoles it sees at given times.\<close>

definition gate_log :: "(int \<times> Console) list \<Rightarrow> Snapshot list" where
  "gate_log shots = map (\<lambda>(t, c). snap ''mutation'' t (ResponseConsoleClient c)) shots"

text \<open>
  C18: what passes the check of the response console. Whatever consoles the observer photographs, at whatever times, it
  never finds a button enabled before the panel; and the check passes exactly if one of them was still loading the blast
  radius of its selected action and one showed it for an action that is pending.
\<close>

theorem blast_gate_exact:
  "PrematureEnable t \<notin> set (checkBlastRadiusGate clicked (gate_log shots)) \<and>
    (checkBlastRadiusGate clicked (gate_log shots) = [] \<longleftrightarrow> clicked \<and>
      (\<exists>c \<in> snd ` set shots. \<exists>a. selected_action c = Some a \<and> blast_of c (ra_id a) = QLoading) \<and>
      (\<exists>c \<in> snd ` set shots. \<exists>a br. selected_action c = Some a \<and> blast_of c (ra_id a) = QData br \<and> ra_status a = Pending))"
proof -
  have "find (\<lambda>s. sn_approveDisabled s = Some False \<and> \<not> sn_panelPresent s \<and> sn_t s < 850) (gate_log shots) = None"
    by (auto simp: gate_log_def find_None_iff snap_console canApprove_iff)
  moreover have "find (\<lambda>s. sn_loadingPresent s \<and> sn_approveDisabled s = Some True) (gate_log shots) = None \<longleftrightarrow>
      \<not> (\<exists>c \<in> snd ` set shots. \<exists>a. selected_action c = Some a \<and> blast_of c (ra_id a) = QLoading)"
    by (force simp: gate_log_def find_None_iff snap_console canApprove_iff)
  moreover have "find (\<lambda>s. sn_panelPresent s \<and> sn_approveDisabled s = Some False) (rev (gate_log shots)) = None \<longleftrightarrow>
      \<not> (\<exists>c \<in> snd ` set shots. \<exists>a br. selected_action c = Some a \<and> blast_of c (ra_id a) = QData br \<and> ra_status a = Pending)"
    by (force simp: gate_log_def find_None_iff snap_console canApprove_iff)
  ultimately show ?thesis
    by (auto simp: checkBlastRadiusGate_def split: option.splits)
qed

definition sample_action :: ResponseAction where
  "sample_action = \<lparr>ra_id = ''ra-1'', ra_caseId = ''case-1'', ra_kind = IsolateHost, ra_target = ''WIN-CLIENT-04'', ra_proposedAtMs = 0,
     ra_rationale = [], ra_status = Pending\<rparr>"

theorem blast_gate_exact_witness:
  "checkBlastRadiusGate True (gate_log
     [(0, console_init\<lparr>rc_actions := Some [sample_action]\<rparr>),
      (910, console_init\<lparr>rc_actions := Some [sample_action],
         rc_blast := [(''ra-1'', QData \<lparr>br_affectedPrincipals = [], br_affectedHosts = [], br_dependentServices = [], br_isTier0 = False\<rparr>)]\<rparr>)]) = []"
  by (subst blast_gate_exact [THEN conjunct2])
     (simp add: selected_action_def action_rows_def blast_of_def console_init_def sample_action_def)

text \<open>The check looks at the first 850 milliseconds only: a button enabled later without the panel is not reported.\<close>

lemma late_enable_unreported:
  "850 \<le> t \<Longrightarrow> checkBlastRadiusGate True
     [\<lparr>sn_tag = [], sn_t = 0, sn_approveDisabled = Some True, sn_loadingPresent = True, sn_panelPresent = False\<rparr>,
      \<lparr>sn_tag = [], sn_t = t, sn_approveDisabled = Some False, sn_loadingPresent = False, sn_panelPresent = False\<rparr>,
      \<lparr>sn_tag = [], sn_t = t, sn_approveDisabled = Some False, sn_loadingPresent = False, sn_panelPresent = True\<rparr>] = []"
  by (simp add: checkBlastRadiusGate_def)

text \<open>
  The second item the locator finds is not a second action: each row of the list is an item and so is the button in it,
  and both have the same text. The script clicks the first pending action, which the page may show from the start.
\<close>

definition row_item :: "string option \<Rightarrow> ResponseAction \<Rightarrow> console_action html" where
  "row_item sel a = El ''button'' [(''type'', ''button''), (''aria-current'', show_bool (sel = Some (ra_id a)))]
     [(''onClick'', SelectAction (ra_id a))]
     [El ''span'' [] [] [Txt (KIND_LABEL (ra_kind a))], El ''span'' [] [] [Txt (ra_target a)],
      El ''span'' [] [] [Txt (action_status_name (ra_status a))]]"

definition mentions_pending :: "ResponseAction \<Rightarrow> bool" where
  "mentions_pending a \<longleftrightarrow> sublist ''pending'' (to_lower (KIND_LABEL (ra_kind a) @ ra_target a @ action_status_name (ra_status a)))"

lemma action_items_list:
  assumes "as \<noteq> []"
  shows "action_items (ActionList as sel) =
    concat (map (\<lambda>a. [El ''li'' [] [] [row_item sel a], row_item sel a]) (filter mentions_pending as))"
proof -
  let ?li = "\<lambda>a. El ''li'' [] [] [row_item sel a]"
  have "filter (\<lambda>e. (case e of El t _ _ _ \<Rightarrow> t \<in> {''li'', ''button''} | _ \<Rightarrow> False) \<and> sublist ''pending'' (to_lower (html_text e)))
      (concat (map (elements \<circ> ?li) xs)) = concat (map (\<lambda>a. [?li a, row_item sel a]) (filter mentions_pending xs))" for xs
    by (induction xs) (simp_all add: row_item_def mentions_pending_def)
  moreover have "ActionList as sel = El ''ul'' [] [] (map ?li as)" using assms by (simp add: ActionList_def row_item_def)
  ultimately show ?thesis by (simp add: action_items_def)
qed

lemma second_item_same_action:
  assumes "find mentions_pending as = Some a"
  shows "action_items (ActionList as sel) ! 1 = row_item sel a"
proof -
  obtain rest where "filter mentions_pending as = a # rest"
    using assms by (induction as) (auto split: if_splits)
  moreover have "as \<noteq> []" using assms by auto
  ultimately show ?thesis by (simp add: action_items_list)
qed

text \<open>
  What passes the frame-rate checks. With time stamps in order, the check passes exactly if in one of its passes, of
  three frames at least, more than half of the frames came fast enough; so a minority of stalls never fails it, and half of
  the frames being slow in each pass always does.
\<close>

theorem scroll_gate_majority:
  assumes "\<And>ts. Some ts \<in> set passes \<Longrightarrow> sorted ts"
  shows "checkScrollPerf passes = [] \<longleftrightarrow>
    (\<exists>ts. Some ts \<in> set passes \<and> 3 \<le> length ts \<and>
       length (deltas ts) < 2 * length (filter (\<lambda>d. \<not> slow (rate d)) (deltas ts)))"
proof -
  have fast: "\<not> slow (median_rate (deltas ts)) \<longleftrightarrow> length (deltas ts) < 2 * length (filter (\<lambda>d. \<not> slow (rate d)) (deltas ts))"
    if "Some ts \<in> set passes" "3 \<le> length ts" for ts
  proof -
    have "length (deltas ts) = length ts - 1" by (simp add: deltas_def)
    then have "deltas ts \<noteq> []" using that(2) by auto
    then show ?thesis unfolding median_rate_def
      by (rule median_iff) (use deltas_nonneg [OF assms [OF that(1)]] slow_rate_mono in blast)
  qed
  have "checkScrollPerf passes = [] \<longleftrightarrow> (\<exists>s \<in> set (List.map_filter run_once passes). \<not> slow s)"
    by (auto simp: checkScrollPerf_def slow_best list_all_iff split: list.splits)
  also have "\<dots> \<longleftrightarrow> (\<exists>ts. Some ts \<in> set passes \<and> 3 \<le> length ts \<and> \<not> slow (median_rate (deltas ts)))"
    by (force simp: map_filter_def run_once_def split: option.splits if_splits)
  finally show ?thesis using fast by blast
qed

theorem scroll_gate_majority_witness: "checkScrollPerf [None, Some [0, 16, 32, 232, 248]] = []"
proof -
  let ?ts = "[0, 16, 32, 232, 248] :: rat list"
  have "length (deltas ?ts) < 2 * length (filter (\<lambda>d. \<not> slow (rate d)) (deltas ?ts))" by code_simp
  then show ?thesis using scroll_gate_majority [of "[None, Some ?ts]"] by auto
qed

text \<open>
  A pass over the canvas moves the pointer without pressing it, and a canvas nobody drags ignores that: the viewport whose
  frame rate is measured never moves.
\<close>

lemma pan_pass_still: "pan_pass dpr positions (None, v) = (None, v)"
  unfolding pan_pass_def by (induction positions) (auto simp: onPointerMove_def)

text \<open>
  What a passed gate vouches for. It has exit code 0 exactly if the run came to its end and, in both themes and for each
  page it visits, no forbidden text is in the document in any letter case and no critical or serious violation was found,
  and six of eight tab stops are visible; and the pages it visits include every surface of the navigation, each of which
  the server has a page for.
\<close>

theorem gate_vouches:
  "(gate_main run = 0 \<longleftrightarrow>
     (\<exists>obs. run = Some obs \<and>
        (\<forall>theme \<in> {''dark'', ''light''}. \<forall>path \<in> set gate_SURFACES.
           (\<forall>p \<in> set WATERMARK_PATTERNS. \<not> sublist p (to_lower (go_content obs theme path))) \<and>
           (\<forall>v \<in> set (go_violations obs theme path). vi_impact v \<notin> {''critical'', ''serious''})) \<and>
        6 \<le> card {i. i < 8 \<and> go_focus obs i})) \<and>
   (\<forall>surface \<in> set SURFACES. sf_href surface \<in> set gate_SURFACES \<and> page_at (sf_href surface) session client \<noteq> None)"
proof -
  have wm: "checkWatermarks label html = [] \<longleftrightarrow> (\<forall>p \<in> set WATERMARK_PATTERNS. \<not> sublist p (to_lower html))" for label html
    by (auto simp: checkWatermarks_def filter_empty_conv)
  have axe: "checkAxe label theme vs = [] \<longleftrightarrow> (\<forall>v \<in> set vs. vi_impact v \<notin> {''critical'', ''serious''})" for label theme vs
    by (auto simp: checkAxe_def Let_def filter_empty_conv)
  have "length (filter f [0..<8]) = card {i. i < 8 \<and> f i}" for f :: "nat \<Rightarrow> bool"
  proof -
    have "length (filter f [0..<8]) = card (set (filter f [0..<8]))" by (simp only: distinct_card distinct_filter distinct_upt)
    also have "set (filter f [0..<8]) = {i. i < 8 \<and> f i}" by (simp only: set_filter set_upt) auto
    finally show ?thesis .
  qed
  then have keys: "checkKeyboardTraversal f = [] \<longleftrightarrow> 6 \<le> card {i. i < 8 \<and> f i}" for f
    by (simp add: checkKeyboardTraversal_def Let_def not_less del: upt_Suc)
  have "gate_theme obs theme = [] \<longleftrightarrow>
      (\<forall>path \<in> set gate_SURFACES. checkWatermarks path (go_content obs theme path) = [] \<and> checkAxe path theme (go_violations obs theme path) = []) \<and>
      (theme = ''dark'' \<longrightarrow> checkKeyboardTraversal (go_focus obs) = [])" for obs theme
    unfolding gate_theme_def by auto
  then have "gate_main run = 0 \<longleftrightarrow> (\<exists>obs. run = Some obs \<and> (\<forall>theme \<in> {''dark'', ''light''}. \<forall>path \<in> set gate_SURFACES.
      checkWatermarks path (go_content obs theme path) = [] \<and> checkAxe path theme (go_violations obs theme path) = []) \<and>
      checkKeyboardTraversal (go_focus obs) = [])"
    by (auto simp: gate_main_def split: option.splits)
  moreover have "\<forall>surface \<in> set SURFACES. sf_href surface \<in> set gate_SURFACES" by (simp add: SURFACES_def gate_SURFACES_def)
  moreover have "\<forall>surface \<in> set SURFACES. page_at (sf_href surface) session client \<noteq> None" using page_facts by blast
  ultimately show ?thesis unfolding wm axe keys by blast
qed

theorem gate_vouches_witness:
  "gate_main (Some \<lparr>go_content = (\<lambda>_ _. ''Case-1''), go_violations = (\<lambda>_ _. []), go_focus = (\<lambda>i. i \<noteq> 3)\<rparr>) = 0"
proof -
  let ?obs = "\<lparr>go_content = (\<lambda>_ _. ''Case-1''), go_violations = (\<lambda>_ _. []), go_focus = (\<lambda>i. i \<noteq> 3)\<rparr>"
  have "{i :: nat. i < 8 \<and> i \<noteq> 3} = {0, 1, 2, 4, 5, 6, 7}" by auto
  then have "card {i. i < 8 \<and> go_focus ?obs i} = 7" by simp
  moreover have "\<forall>p \<in> set WATERMARK_PATTERNS. \<not> sublist p (to_lower ''Case-1'')" by code_simp
  ultimately show ?thesis using gate_vouches [of "Some ?obs"] by auto
qed

end
