(* ===== verification/Spec2Isabelle.thy ===== *)
theory Spec2Isabelle
  imports Canvas Cross_Check Kernel_Cli Kernel_Memory Tamper_Check Timeline_View Ui_Gates
begin

text \<open>
  A verification library for the ATTESTA operator console, the TypeScript program under \<^verbatim>\<open>src/web/src\<close>, and for the
  adjudication kernel it runs on the server and in the browser, the Rust program under \<^verbatim>\<open>src/kernel\<close>.

  \<^bold>\<open>The program.\<close> A Next.js server keeps a synthetic corpus in memory (\<^verbatim>\<open>lib/data\<close>): cases with a live
  simulation, response actions, a ledger of sealed investigation manifests adjudicated by a kernel compiled to
  WebAssembly, a report of verdicts that drifted under a repriced policy, and an evidence graph per case with a Merkle
  tree over its evidence. HTTP handlers (\<^verbatim>\<open>app/api\<close>) expose it behind a signed session cookie (\<^verbatim>\<open>lib/auth\<close>,
  \<^verbatim>\<open>middleware.ts\<close>). React components in the browser show and drive it: the console shell with its keyboard map, the
  Watchfloor queue fed by server-sent events, the Investigation Canvas, the Timeline, the Response Console, the Verdict
  Ledger, which recomputes proofs and verdicts in the browser, and the Drift Monitor. The kernel turns a set of claims and
  a policy bundle into a verdict and its hash; a bridge crate gives it JSON in and JSON out.

  \<^bold>\<open>Theories and the code they model.\<close>
  \<^item> \<^verbatim>\<open>Prelude\<close>: errors as a sum type, JavaScript arrays, strings, sets and maps, shared rule collections.
  \<^item> \<^verbatim>\<open>Js_Number\<close>: doubles as rationals with rounding to nearest even after every operation (\<open>fl\<close>); the locale
    \<open>rounding\<close> states what the bounds of the other theories use and is interpreted on \<open>fl\<close>. Overflow, NaN and
    subnormals are outside: the modelled computations stay far from them.
  \<^item> \<^verbatim>\<open>Rng\<close> (\<^verbatim>\<open>lib/data/rng.ts\<close>): the 32-bit xorshift generator on words, and programs that draw from it, with their
    weakest preconditions (\<open>rand_spec\<close>). \<^verbatim>\<open>pick\<close> yields \<^verbatim>\<open>undefined\<close> on the all-ones draw; a program whose data has no place for
    it ends there with \<open>PickUndefined\<close>, the boundary of the model: theorems speak of the runs that do not meet it.
  \<^item> \<^verbatim>\<open>Data_Types\<close> (\<^verbatim>\<open>types.ts\<close>), \<^verbatim>\<open>Seed\<close> (\<^verbatim>\<open>seed.ts\<close>), \<^verbatim>\<open>Case_Feed\<close> (the locale \<open>case_feed\<close> of a collection of cases with
    an order, interpreted for the server and for the browser), \<^verbatim>\<open>Store\<close> (\<^verbatim>\<open>store.ts\<close>: the record \<open>Store\<close>, every operation, ticks,
    reachable states).
  \<^item> \<^verbatim>\<open>Json\<close>: \<^verbatim>\<open>JSON.stringify\<close> and \<^verbatim>\<open>JSON.parse\<close> for the documents the console exchanges; numbers are integers.
  \<^item> \<^verbatim>\<open>Merkle\<close> (\<^verbatim>\<open>lib/kernel/merkle.ts\<close>): trees, proofs and their check over a hash parameter; the locale \<open>inclusion_scheme\<close>
    is interpreted on them.
  \<^item> \<^verbatim>\<open>Kernel_Core\<close> (\<^verbatim>\<open>kernel/src\<close>: \<^verbatim>\<open>canon.rs\<close>, \<^verbatim>\<open>claim.rs\<close>, \<^verbatim>\<open>tactic.rs\<close>, \<^verbatim>\<open>policy.rs\<close>, \<^verbatim>\<open>verdict.rs\<close>): canonical encodings, whose
    locale \<open>prefix_code\<close> is interpreted on every field type; claims, policies, verdicts. \<^verbatim>\<open>Kernel_Adjudicate\<close> (\<^verbatim>\<open>lib.rs\<close>,
    \<^verbatim>\<open>blast_radius.rs\<close>): the loop over the claims as a fold over its state, 64-bit saturation written out. \<^verbatim>\<open>Kernel_Bridge\<close>
    (\<^verbatim>\<open>wasm_bridge/src/lib.rs\<close>): requests read, verdicts and errors written, the exported call; the locale \<open>serde\<close> states what
    is used of the JSON library. \<^verbatim>\<open>Kernel_Contract\<close>: the locale \<open>console_kernel\<close>, what the console relies on, interpreted on the bridge.
    \<^verbatim>\<open>Kernel_Memory\<close>: the linear memory of the module, its allocations and the loaders' calls through it, over the locale \<open>runtime\<close>
    of the allocator. \<^verbatim>\<open>Kernel_Cli\<close> (\<^verbatim>\<open>bin/adjudicate_cli.rs\<close>). \<^verbatim>\<open>Cross_Check\<close> (\<^verbatim>\<open>fixtures.rs\<close>, \<^verbatim>\<open>bin/print_fixed_hashes.rs\<close>,
    \<^verbatim>\<open>wasm_cross_check.mjs\<close>): the comparison of native and WebAssembly hashes.
  \<^item> \<^verbatim>\<open>Kernel_Wasm\<close> (\<^verbatim>\<open>kernel-wasm.ts\<close>, \<^verbatim>\<open>policy.ts\<close>), \<^verbatim>\<open>Ledger\<close> (\<^verbatim>\<open>ledger.ts\<close>), \<^verbatim>\<open>Drift\<close> (\<^verbatim>\<open>drift.ts\<close>), \<^verbatim>\<open>Graph\<close> (\<^verbatim>\<open>graph.ts\<close>).
  \<^item> \<^verbatim>\<open>Session\<close> (\<^verbatim>\<open>lib/auth\<close>, \<^verbatim>\<open>middleware.ts\<close>, the sign-in actions and the console layout), \<^verbatim>\<open>Api\<close> (the handlers under
    \<^verbatim>\<open>app/api\<close>), \<^verbatim>\<open>Case_Stream\<close> (the event stream of the server, its replica in the browser, and the two composed: frames in flight, lost
    connections, other connections, the list on its way).
  \<^item> \<^verbatim>\<open>Html\<close> (rendered trees with their enabled actions), \<^verbatim>\<open>Chrome\<close> (shell, shortcuts, palette, login), \<^verbatim>\<open>Dataviz\<close>, \<^verbatim>\<open>Watchfloor\<close>,
    \<^verbatim>\<open>Quadtree\<close> and \<^verbatim>\<open>Canvas\<close> (\<^verbatim>\<open>components/investigation-canvas\<close>), \<^verbatim>\<open>Timeline_View\<close>, \<^verbatim>\<open>Response_Console\<close>, \<^verbatim>\<open>Verdict_Ledger\<close> (ledger
    page, verification panel and drift monitor), \<^verbatim>\<open>Tamper_Check\<close> (the panel's tamper demonstration with the modelled kernel), \<^verbatim>\<open>Pages\<close>
    (root layout, providers, console layout and the pages), \<^verbatim>\<open>Ui_Gates\<close> (\<^verbatim>\<open>eval/ui\<close>: the checks as functions of what they observe).

  State is passed explicitly; a component with state has a record and either functions on it or an inductive step
  relation (\<open>store_step\<close>, \<open>feed_step\<close>, \<open>chrome_step\<close>, \<open>triage_step\<close>, \<open>canvas_step\<close>, \<open>console_step\<close>, \<open>served\<close>) whose reachable states carry
  the invariants; the locale \<open>invariant_system\<close> turns a preserved invariant into one of all reachable states and is
  interpreted on the canvas and the response console. The locale \<open>proof_service\<close> is the contract between the proof handlers
  (ledger and graphs) and the panels that check their answers. Exceptions are values of \<open>js_error\<close>.

  \<^bold>\<open>What is shown.\<close>
  \<^item> Evidence: inclusion proofs are complete and sound, a root accepts the genuine proofs of its positions and no others, and roots bind their lists, unless the hash
    collides (\<^verbatim>\<open>Merkle\<close>); the ledger and the graphs prove exactly the evidence of their claims (\<open>ledger_inclusion\<close>,
    \<open>graph_inclusion\<close>), and the evidence of every served graph verifies in the claim panel (\<open>canvas_evidence_verifies\<close>, below).
  \<^item> Ledger: one hash chain per tenant, broken at the documented place only (\<open>ledger_chained\<close>); a manifest hash binds its
    manifest; with the kernel of \<^verbatim>\<open>src/kernel\<close> on both sides every manifest verifies in the browser through the server's own
    handlers (\<open>ledger_verifies_with_kernel\<close>), and its verdict is the documented function of the sum of its claims' weights
    (\<open>sealed_verdicts_explained\<close>); what the seal stands for and what it does not check (\<open>verification_seal\<close>, \<open>claim_verdict\<close>); reported drifts are real changes of verdict.
    The tamper demonstration shows a mismatch exactly if the policy prices the altered claim (\<open>tampering_shown\<close>).
  \<^item> Kernel: adjudication is total, independent of the order of claims and evidence, and computes the plain score while it
    fits 64 bits; identifiers and verdict hashes bind what they are taken over, unless BLAKE3 collides; a policy is
    accepted exactly if its thresholds ascend. Two multipliers of the console's policy are never paid. A loaded module, called
    any number of times through its memory, is the pure function the rest uses (\<open>kernel_calls_pure\<close>); the command line answers
    like the bridge (\<open>cli_like_bridge\<close>); the cross-target script ends with 0 exactly if all hashes agree, and with which code otherwise (\<open>cross_check_exact\<close>).
  \<^item> Server: every store reached without a case drawn by a missed pick is consistent, the effect of a tick on every branch but
    that one, the corpus and the timelines are well formed, the generator is a permutation with a known off-by-one; the
    decision handler on every request.
  \<^item> Feed: what the browser reads is what the server sent; under any interleaving of ticks, deliveries, losses and the list,
    the page agrees with the store on every case none of whose changes it missed, and which changes it misses is part of the
    model (\<open>replica_refines_store\<close>).
  \<^item> Sessions: a session is read only from a token signed over its own payload; which pages and handlers are guarded;
    when redirects end and when they do not.
  \<^item> Views: the chord of the keyboard map is a function of the history of keys (overlays do not stop it, whatever the comment in
    the code says); navigation agrees with access; dismissals carry a reason, filter counts agree with the filters, the queue
    keys reach every row; a query of the quadtree finds what a linear scan with the closed box finds but for points on two of
    its edges, exactly described (\<open>quadtree_query_exact\<close>), and its recursion ends; the layout respects time and gives each node its own place; the
    canvas never degenerates and a replay ends; the time scale keeps the order of events; no decision is offered before the
    blast radius the server computed is shown, and the browser check for it passes exactly on such views (\<open>blast_gate_exact\<close>);
    each surface is served as a document of its own (\<open>surface_documents\<close>); the frame-rate check asks for a majority of fast
    frames (\<open>scroll_gate_majority\<close>), the gate over all surfaces visits every one of them (\<open>gate_vouches\<close>).

  \<^bold>\<open>Parameters.\<close> Third-party code is an argument: BLAKE3 and HMAC-SHA256 as functions on byte lists (collision freedom is
  assumed of the inputs at hand only, where needed), \<^verbatim>\<open>serde_json\<close> (the locale \<open>serde\<close>: a document is written as \<open>json_text\<close>
  prints it and read as the derived readers say, one they do not accept is an error),
  Rust's allocator (the locale \<open>runtime\<close>: blocks do not overlap), \<^verbatim>\<open>Math.pow\<close> and \<^verbatim>\<open>Math.hypot\<close>, the clock (before the year 2096 where nanoseconds must fit 64 bits), locale formatting, and
  TanStack's sorting and virtualisation. The ledger's own lemmas take any kernel that keeps \<open>kernel_accepts\<close>, \<open>kernel_answers\<close> and
  \<open>kernel_reads_claims\<close>; \<^verbatim>\<open>Kernel_Contract\<close> proves them of the modelled one. Each hypothesis has an instance in a witness.

  \<^bold>\<open>Bounds and fuel.\<close> The JSON parser is given the length of its input as fuel, enough for every document \<open>stringify\<close> writes
  (\<open>json_roundtrip\<close>). Inserting into the quadtree counts levels; \<open>MAX_DEPTH + 1\<close> are always enough (\<open>insert_terminates\<close>). The
  replay timer of the canvas stops after at most 81 ticks (\<open>replay_ends\<close>). Redirects are followed for any number of hops.

  \<^bold>\<open>Not modelled.\<close> The widgets under \<^verbatim>\<open>components/ui\<close> (copied library wrappers without logic of the program), style classes and icons,
  WebGL shaders and buffers, fonts, the steps of the scripts under \<^verbatim>\<open>eval/ui\<close> that drive a browser and their click-through
  flows, the decision of the allocator where a block goes, and the Go and Python programs of the repository, which the
  console does not contain.
\<close>

section \<open>Evidence on the canvas, end to end\<close>

text \<open>
  C9: from the graph handler to the claim panel. When the server answers with a graph, a request for a proof of any
  evidence identifier of any edge of that very graph is answered from the same cache entry, at any later time, and the
  panel that checks the answer shows Verified; an identifier no edge cites is answered with 404, and the panel shows an error.
\<close>

theorem canvas_evidence_verifies:
  assumes "cache_ok blake3 cache" "graph_GET blake3 pow nowMs caseId nodesParam cache = (HttpOk body, cache')"
  shows "cache_ok blake3 cache' \<and>
    (if \<exists>edge \<in> set (gb_edges body). i \<in> set (ge_evidenceIds edge)
     then \<exists>p. graph_proof_GET blake3 pow laterMs caseId nodesParam i cache' = (HttpOk p, cache') \<and>
        map_of (claim_verify blake3 i (ProofBody p) states) i = Some Valid
     else graph_proof_GET blake3 pow laterMs caseId nodesParam i cache' = (HttpStatus 404 ''not found'', cache') \<and>
        map_of (claim_verify blake3 i (NotOk 404) states) i = Some ProofError)"
proof -
  let ?ov = "node_count_override nodesParam"
  obtain entry where built: "getOrBuildGraph blake3 pow nowMs caseId ?ov cache = (Inr entry, cache')"
    and body: "gb_edges body = g_edges (gc_graph entry)"
    using assms(2) by (auto simp: graph_GET_def split: prod.splits sum.splits)
  from built assms(1) have key: "map_of cache' (graph_key caseId ?ov) = Some entry" and ok: "cache_ok blake3 cache'"
    by (cases rule: getOrBuildGraph_cases; simp)+
  then have cached: "entry_cached blake3 entry" by (metis cache_okD)
  have again: "graph_proof_GET blake3 pow laterMs caseId nodesParam i cache' = (entry_proof entry i, cache')"
    by (rule graph_proof_served) (simp add: getOrBuildGraph_def key)
  show ?thesis
  proof (cases "\<exists>edge \<in> set (gb_edges body). i \<in> set (ge_evidenceIds edge)")
    case True
    with entry_proofs [OF cached, of i] body obtain p where "entry_proof entry i = HttpOk p" "verifyInclusion blake3 i p"
      by (auto simp: entry_proof_def)
    with True ok again show ?thesis by (auto simp: claim_verify_def Let_def update_conv')
  next
    case False
    with entry_proofs [OF cached, of i] body have "entry_proof entry i = HttpStatus 404 ''not found''"
      by (auto simp: entry_proof_def)
    with False ok again show ?thesis by (auto simp: claim_verify_def Let_def update_conv')
  qed
qed

definition sample_edge :: GraphEdge where
  "sample_edge = \<lparr>ge_id = ''x'', ge_fromNodeId = ''a'', ge_toNodeId = ''b'', ge_predicate = '''', ge_polarity = Supports,
     ge_intervalStartMs = 0, ge_intervalEndMs = 1, ge_extractorKind = '''', ge_extractorId = '''', ge_extractorVersion = '''',
     ge_confidence = 9000, ge_evidenceIds = [''e1'', ''e2''], ge_hypothesisGroup = None\<rparr>"

definition sample_graph :: Graph where
  "sample_graph = \<lparr>g_caseId = ''c'', g_nodes = [sample_node ''a'' 0, sample_node ''b'' 1], g_edges = [sample_edge], g_columnCount = 40\<rparr>"

theorem canvas_evidence_verifies_witness:
  "\<exists>cache p. graph_proof_GET sample_hash (\<lambda>x. x) 0 ''c'' (Some ''2'') ''e2'' cache = (HttpOk p, cache) \<and>
     map_of (claim_verify sample_hash ''e2'' (ProofBody p) []) ''e2'' = Some Valid"
proof -
  obtain entry where entry: "build_entry sample_hash sample_graph = Inr entry"
    by (auto simp: build_entry_def buildMerkleTree_def sample_graph_def sample_edge_def Let_def)
  let ?cache = "[(graph_key ''c'' (node_count_override (Some ''2'')), entry)]"
  have ok: "cache_ok sample_hash ?cache" using build_entry_cached [OF entry] by (simp add: cache_ok_def)
  have g: "gc_graph entry = sample_graph" using build_entry_cached [OF entry] by simp
  obtain body where "graph_GET sample_hash (\<lambda>x. x) 0 ''c'' (Some ''2'') ?cache = (HttpOk body, ?cache)" "gb_edges body = [sample_edge]"
    by (auto simp: graph_GET_def getOrBuildGraph_def g sample_graph_def)
  from canvas_evidence_verifies [OF ok this(1), where i = "''e2''" and laterMs = 0 and states = "[]"] this(2) show ?thesis
    by (auto simp: sample_edge_def)
qed

end
